(* ===== verification/Prelude.thy ===== *)
theory Prelude
  imports Main "HOL-Library.Word" "HOL-Library.Code_Target_Nat"
begin

text \<open>
  The vocabulary every component of the driver shares.

  A call of the extension ends in one of three ways: it returns, it leaves a pending PHP
  exception (\<^verbatim>\<open>zend_throw_exception_ex\<close> followed by an early return), or it
  performs an operation whose behaviour the C standard leaves undefined (signed overflow, a
  dereference of a null or freed pointer, a read outside an array). The type \<open>outcome\<close> keeps
  the three apart, so "never undefined" is a statement one can prove.
\<close>

section \<open>Outcomes\<close>

datatype exn_class =
    InvalidArgumentException
  | RangeException
  | DivideByZeroException
  | RuntimeException
  | DomainException
  | TimeoutException
  | BadFunctionCallException
  | LogicException
  | ArgumentCountError
  | TypeError
  | ValueError

text \<open>An exception is its class and the fixed part of its message.\<close>

datatype exn = Exn (exn_cls: exn_class) (exn_msg: string)

datatype 'a outcome = Ret (ret_val: 'a) | Throw exn | UB

definition bind_outcome :: "'a outcome \<Rightarrow> ('a \<Rightarrow> 'b outcome) \<Rightarrow> 'b outcome" where
  "bind_outcome x f = (case x of Ret a \<Rightarrow> f a | Throw e \<Rightarrow> Throw e | UB \<Rightarrow> UB)"

definition returns :: "'a outcome \<Rightarrow> bool" where
  "returns x = (case x of Ret _ \<Rightarrow> True | _ \<Rightarrow> False)"

definition throws :: "exn_class \<Rightarrow> 'a outcome \<Rightarrow> bool" where
  "throws c x = (case x of Throw e \<Rightarrow> exn_cls e = c | _ \<Rightarrow> False)"

definition defined :: "'a outcome \<Rightarrow> bool" where
  "defined x = (case x of UB \<Rightarrow> False | _ \<Rightarrow> True)"

lemma bind_outcome_simps [simp]:
  "bind_outcome (Ret a) f = f a"
  "bind_outcome (Throw e) f = Throw e"
  "bind_outcome UB f = UB"
  by (simp_all add: bind_outcome_def)

lemma returns_simps [simp]:
  "returns (Ret a)" "\<not> returns (Throw e)" "\<not> returns UB"
  by (simp_all add: returns_def)

lemma throws_simps [simp]:
  "\<not> throws c (Ret a)" "throws c (Throw e) = (exn_cls e = c)" "\<not> throws c UB"
  by (simp_all add: throws_def)

lemma defined_simps [simp]:
  "defined (Ret a)" "defined (Throw e)" "\<not> defined UB"
  by (simp_all add: defined_def)

lemma bind_outcome_eq_Ret:
  "bind_outcome x f = Ret b \<longleftrightarrow> (\<exists>a. x = Ret a \<and> f a = Ret b)"
  by (cases x) auto

lemma defined_bind_outcome:
  "defined (bind_outcome x f) \<longleftrightarrow> defined x \<and> (\<forall>a. x = Ret a \<longrightarrow> defined (f a))"
  by (cases x) auto

section \<open>Machine integers\<close>

text \<open>
  A signed C integer is its mathematical value. \<open>cast_s w\<close> is the conversion to the signed type
  of \<open>w\<close> bits (modulo \<open>2 ^ w\<close>, as the supported compilers define it), and \<open>fits_s w\<close> says that a
  value is representable there. Arithmetic on \<^verbatim>\<open>int\<close> and wider types outside
  \<open>fits_s\<close> is undefined behaviour, since the build does not pass
  \<^verbatim>\<open>-fwrapv\<close>.
\<close>

definition cast_s :: "nat \<Rightarrow> int \<Rightarrow> int" where
  "cast_s w x = signed_take_bit (w - 1) x"

definition cast_u :: "nat \<Rightarrow> int \<Rightarrow> int" where
  "cast_u w x = take_bit w x"

definition fits_s :: "nat \<Rightarrow> int \<Rightarrow> bool" where
  "fits_s w x \<longleftrightarrow> - (2 ^ (w - 1)) \<le> x \<and> x < 2 ^ (w - 1)"

abbreviation INT32_MIN :: int where "INT32_MIN \<equiv> - 2147483648"
abbreviation INT32_MAX :: int where "INT32_MAX \<equiv> 2147483647"
abbreviation INT64_MIN :: int where "INT64_MIN \<equiv> - 9223372036854775808"
abbreviation INT64_MAX :: int where "INT64_MAX \<equiv> 9223372036854775807"

lemma cast_s_fits: "0 < w \<Longrightarrow> fits_s w (cast_s w x)"
  unfolding cast_s_def fits_s_def
  using signed_take_bit_int_greater_eq_minus_exp [of "w - 1" x]
    signed_take_bit_int_less_exp [of "w - 1" x] by simp

lemma cast_s_id: "fits_s w x \<Longrightarrow> cast_s w x = x"
  by (simp add: cast_s_def fits_s_def signed_take_bit_int_eq_self)

lemma cast_s_id_iff: "cast_s w x = x \<longleftrightarrow> fits_s w x"
  by (auto simp: cast_s_def fits_s_def signed_take_bit_int_eq_self_iff)

lemma cast_s_diff: "0 < w \<Longrightarrow> (2 ^ w :: int) dvd x - cast_s w x"
  by (cases w) (simp_all add: cast_s_def mod_eq_dvd_iff [symmetric]
      take_bit_eq_mod [symmetric] take_bit_signed_take_bit del: power_Suc)

lemma cast_u_mod: "cast_u w x = x mod 2 ^ w"
  by (simp add: cast_u_def take_bit_eq_mod)

lemma fits_s_numeral [simp]:
  "fits_s 8 x \<longleftrightarrow> - 128 \<le> x \<and> x \<le> 127"
  "fits_s 16 x \<longleftrightarrow> - 32768 \<le> x \<and> x \<le> 32767"
  "fits_s 32 x \<longleftrightarrow> INT32_MIN \<le> x \<and> x \<le> INT32_MAX"
  "fits_s 64 x \<longleftrightarrow> INT64_MIN \<le> x \<and> x \<le> INT64_MAX"
  by (auto simp: fits_s_def)

text \<open>C's \<^verbatim>\<open>/\<close> and \<^verbatim>\<open>%\<close> truncate towards zero.\<close>

definition c_div :: "int \<Rightarrow> int \<Rightarrow> int" where
  "c_div a b = sgn a * sgn b * (\<bar>a\<bar> div \<bar>b\<bar>)"

definition c_mod :: "int \<Rightarrow> int \<Rightarrow> int" where
  "c_mod a b = sgn a * (\<bar>a\<bar> mod \<bar>b\<bar>)"

lemma c_div_mod: "c_div a b * b + c_mod a b = a"
proof -
  have "sgn a * sgn b * (\<bar>a\<bar> div \<bar>b\<bar>) * b + sgn a * (\<bar>a\<bar> mod \<bar>b\<bar>)
      = sgn a * ((\<bar>a\<bar> div \<bar>b\<bar>) * \<bar>b\<bar> + \<bar>a\<bar> mod \<bar>b\<bar>)"
    by (simp add: algebra_simps abs_sgn)
  also have "\<dots> = sgn a * \<bar>a\<bar>" by simp
  also have "\<dots> = a" by (simp add: sgn_mult_abs)
  finally show ?thesis by (simp add: c_div_def c_mod_def)
qed

lemma c_mod_abs_less: "b \<noteq> 0 \<Longrightarrow> \<bar>c_mod a b\<bar> < \<bar>b\<bar>"
  by (simp add: c_mod_def abs_mult abs_sgn_eq)

lemma c_div_abs_le: "\<bar>c_div a b\<bar> \<le> \<bar>a\<bar>"
proof -
  have "\<bar>c_div a b\<bar> \<le> \<bar>a\<bar> div \<bar>b\<bar>"
    by (auto simp: c_div_def abs_mult abs_sgn_eq pos_imp_zdiv_nonneg_iff)
  also have "\<dots> \<le> \<bar>a\<bar>"
    by (cases "b = 0") (auto intro: order_trans [OF zdiv_mono2 [of "\<bar>a\<bar>" 1 "\<bar>b\<bar>"]])
  finally show ?thesis .
qed

section \<open>Three-way comparison\<close>

text \<open>
  Comparison handlers return a C \<^verbatim>\<open>int\<close> of which only the sign is read. An order of
  this kind is coherent when equality is symmetric, the sign flips with the arguments and "at most"
  is transitive; every handler that is used as a sort key or a hash-table comparison owes these
  laws.
\<close>

locale three_way =
  fixes cmp :: "'a \<Rightarrow> 'a \<Rightarrow> int"
  assumes cmp_refl: "cmp x x = 0"
    and cmp_flip: "sgn (cmp y x) = - sgn (cmp x y)"
    and cmp_trans: "cmp x y \<le> 0 \<Longrightarrow> cmp y z \<le> 0 \<Longrightarrow> cmp x z \<le> 0"
begin

lemma cmp_zero_sym: "cmp x y = 0 \<longleftrightarrow> cmp y x = 0"
  using cmp_flip [of x y] by (simp add: sgn_if split: if_splits)

lemma cmp_pos_flip: "0 < cmp x y \<longleftrightarrow> cmp y x < 0"
  using cmp_flip [of x y] by (simp add: sgn_if split: if_splits)

lemma cmp_total: "cmp x y \<le> 0 \<or> cmp y x \<le> 0"
  using cmp_pos_flip [of x y] by linarith

lemma cmp_zero_trans:
  assumes "cmp x y = 0" and "cmp y z = 0"
  shows "cmp x z = 0"
proof -
  have "cmp y x = 0" "cmp z y = 0" using assms cmp_zero_sym by auto
  then have "cmp x z \<le> 0" "cmp z x \<le> 0"
    using assms cmp_trans [of x y z] cmp_trans [of z y x] by auto
  then show ?thesis using cmp_pos_flip [of z x] by linarith
qed

lemma cmp_zero_class: "cmp x y = 0 \<Longrightarrow> cmp x z = 0 \<longleftrightarrow> cmp y z = 0"
  using cmp_zero_trans [of x y z] cmp_zero_trans [of y x z] cmp_zero_sym [of x y] by blast

end

text \<open>The macro \<^verbatim>\<open>PHP_SCYLLADB_COMPARE\<close>, and the same comparison on naturals.\<close>

definition php_scylladb_compare :: "'a::linorder \<Rightarrow> 'a \<Rightarrow> int" where
  "php_scylladb_compare a b = (if a < b then -1 else if a > b then 1 else 0)"

lemma php_scylladb_compare_zero [simp]: "php_scylladb_compare a b = 0 \<longleftrightarrow> a = b"
  by (auto simp: php_scylladb_compare_def)

lemma php_scylladb_compare_le [simp]: "php_scylladb_compare a b \<le> 0 \<longleftrightarrow> a \<le> b"
  by (auto simp: php_scylladb_compare_def)

lemma php_scylladb_compare_flip: "sgn (php_scylladb_compare b a) = - sgn (php_scylladb_compare a b)"
  by (auto simp: php_scylladb_compare_def)

interpretation compare_order: three_way "php_scylladb_compare :: 'a::linorder \<Rightarrow> 'a \<Rightarrow> int"
  by unfold_locales (simp, rule php_scylladb_compare_flip, simp)

end
