(* ===== verification/CLib.thy ===== *)
theory CLib
  imports Prelude
begin

text \<open>
  The part of the C standard library the sources call on text: character classification in the C
  locale, \<^verbatim>\<open>strlen\<close>, \<^verbatim>\<open>strtol\<close>, \<^verbatim>\<open>strtoul\<close>
  and the decimal conversions of the \<^verbatim>\<open>printf\<close> family. A PHP string is a list of
  bytes followed by a terminating NUL that is not part of the list.
\<close>

section \<open>Characters\<close>

abbreviation NUL :: char where "NUL \<equiv> CHR 0x00"

definition code :: "char \<Rightarrow> nat" where
  "code c = of_char c"

definition c_isspace :: "char \<Rightarrow> bool" where
  "c_isspace c \<longleftrightarrow> code c = 32 \<or> (9 \<le> code c \<and> code c \<le> 13)"

definition c_isdigit :: "char \<Rightarrow> bool" where
  "c_isdigit c \<longleftrightarrow> 48 \<le> code c \<and> code c \<le> 57"

definition c_islower :: "char \<Rightarrow> bool" where
  "c_islower c \<longleftrightarrow> 97 \<le> code c \<and> code c \<le> 122"

definition c_isupper :: "char \<Rightarrow> bool" where
  "c_isupper c \<longleftrightarrow> 65 \<le> code c \<and> code c \<le> 90"

definition c_isalnum :: "char \<Rightarrow> bool" where
  "c_isalnum c \<longleftrightarrow> c_isdigit c \<or> c_islower c \<or> c_isupper c"

definition c_isxdigit :: "char \<Rightarrow> bool" where
  "c_isxdigit c \<longleftrightarrow> c_isdigit c \<or> (97 \<le> code c \<and> code c \<le> 102) \<or> (65 \<le> code c \<and> code c \<le> 70)"

definition c_tolower :: "char \<Rightarrow> char" where
  "c_tolower c = (if c_isupper c then char_of (code c + 32) else c)"

text \<open>The value of a digit or letter in the bases up to 36.\<close>

definition digit_val :: "char \<Rightarrow> nat option" where
  "digit_val c =
     (if c_isdigit c then Some (code c - 48)
      else if c_islower c then Some (code c - 87)
      else if c_isupper c then Some (code c - 55)
      else None)"

definition base_digit :: "nat \<Rightarrow> char \<Rightarrow> bool" where
  "base_digit b c = (case digit_val c of Some d \<Rightarrow> d < b | None \<Rightarrow> False)"

definition dval :: "char \<Rightarrow> nat" where
  "dval c = (case digit_val c of Some d \<Rightarrow> d | None \<Rightarrow> 0)"

definition digit_char :: "nat \<Rightarrow> char" where
  "digit_char d = char_of (48 + d)"

lemma code_char_of [simp]: "n < 256 \<Longrightarrow> code (char_of n) = n"
  by (simp add: code_def)

lemma code_less: "code c < 256"
  by (simp add: code_def)

lemma code_inject [simp]: "code c = code d \<longleftrightarrow> c = d"
  by (simp add: code_def)

lemma digit_char_props:
  assumes "d < 10"
  shows "c_isdigit (digit_char d)" and "dval (digit_char d) = d" and "base_digit 10 (digit_char d)"
  using assms by (auto simp: digit_char_def c_isdigit_def dval_def digit_val_def base_digit_def)

lemma base_digit_10: "base_digit 10 c \<longleftrightarrow> c_isdigit c"
  by (auto simp: base_digit_def digit_val_def c_isdigit_def c_islower_def c_isupper_def)

lemma c_isdigit_dval: "c_isdigit c \<Longrightarrow> dval c < 10 \<and> digit_char (dval c) = c"
  by (auto simp: dval_def digit_val_def digit_char_def c_isdigit_def code_def)

lemma c_isdigit_not:
  assumes "c_isdigit c"
  shows "\<not> c_isspace c" "c \<noteq> NUL" "c \<noteq> CHR ''-''" "c \<noteq> CHR ''+''" "c \<noteq> CHR ''.''"
    "c \<noteq> CHR ''e''" "c \<noteq> CHR ''E''" "c \<noteq> CHR ''x''" "c \<noteq> CHR ''X''" "c \<noteq> CHR ''b''" "c \<noteq> CHR ''B''"
  using assms by (auto simp: c_isdigit_def c_isspace_def code_def)

section \<open>Strings\<close>

text \<open>
  Reading at an index: the byte there, or the terminating NUL. Reads beyond the terminator do not
  occur in the modelled code on the paths where this function is used; every caller bounds the index
  by the string's length.
\<close>

definition char_at :: "string \<Rightarrow> nat \<Rightarrow> char" where
  "char_at s i = (if i < length s then s ! i else NUL)"

definition c_str :: "string \<Rightarrow> string" where
  "c_str s = takeWhile (\<lambda>c. c \<noteq> NUL) s"

definition strlen :: "string \<Rightarrow> nat" where
  "strlen s = length (c_str s)"

lemma char_at_append_right [simp]: "char_at (s @ t) (length s + i) = char_at t i"
  by (simp add: char_at_def nth_append)

lemma char_at_0: "char_at s 0 = (case s of [] \<Rightarrow> NUL | c # _ \<Rightarrow> c)"
  by (cases s) (simp_all add: char_at_def)

lemma char_at_Cons [simp]: "char_at (c # s) 0 = c" "char_at (c # s) (Suc i) = char_at s i"
  by (simp_all add: char_at_def)

lemma char_at_Nil [simp]: "char_at [] i = NUL"
  by (simp add: char_at_def)

lemma char_at_drop [simp]: "char_at (drop n s) i = char_at s (n + i)"
  by (auto simp: char_at_def)

lemma strlen_le: "strlen s \<le> length s"
  by (simp add: strlen_def c_str_def length_takeWhile_le)

lemma c_str_id_iff: "c_str s = s \<longleftrightarrow> NUL \<notin> set s"
  by (auto simp: c_str_def takeWhile_eq_all_conv)

lemma strlen_eq_iff: "strlen s = length s \<longleftrightarrow> NUL \<notin> set s"
proof
  assume "strlen s = length s"
  then have "length (takeWhile (\<lambda>c. c \<noteq> NUL) s) = length s" by (simp add: strlen_def c_str_def)
  then have "takeWhile (\<lambda>c. c \<noteq> NUL) s = s"
    by (metis append_Nil2 append_eq_conv_conj takeWhile_eq_take)
  then show "NUL \<notin> set s" by (auto simp: takeWhile_eq_all_conv)
next
  assume "NUL \<notin> set s"
  then show "strlen s = length s" using c_str_id_iff [of s] by (simp add: strlen_def)
qed

section \<open>Numbers as text\<close>

definition digits_value :: "nat \<Rightarrow> string \<Rightarrow> nat" where
  "digits_value b ds = foldl (\<lambda>acc c. acc * b + dval c) 0 ds"

lemma digits_value_Nil [simp]: "digits_value b [] = 0"
  by (simp add: digits_value_def)

lemma digits_value_snoc [simp]: "digits_value b (ds @ [c]) = digits_value b ds * b + dval c"
  by (simp add: digits_value_def)

lemma digits_value_append:
  "digits_value b (xs @ ys) = digits_value b xs * b ^ length ys + digits_value b ys"
proof (induction ys rule: rev_induct)
  case (snoc c ys)
  have "digits_value b (xs @ ys @ [c]) = digits_value b (xs @ ys) * b + dval c"
    by (metis append.assoc digits_value_snoc)
  with snoc show ?case by (simp add: algebra_simps)
qed simp

lemma digits_value_Cons: "digits_value b (c # ys) = dval c * b ^ length ys + digits_value b ys"
  using digits_value_append [of b "[c]" ys] by (simp add: digits_value_def)

lemma digits_value_less:
  "list_all (base_digit b) ds \<Longrightarrow> digits_value b ds < b ^ length ds"
proof (induction ds rule: rev_induct)
  case (snoc c ds)
  then have d: "dval c < b" "digits_value b ds + 1 \<le> b ^ length ds"
    by (auto simp: base_digit_def dval_def split: option.splits)
  then have "digits_value b ds * b + dval c < (digits_value b ds + 1) * b" by simp
  also have "\<dots> \<le> b ^ length ds * b" using d(2) by (rule mult_right_mono) simp
  finally show ?case by (simp add: mult.commute)
qed simp

text \<open>The decimal digits \<^verbatim>\<open>printf\<close> writes, without and with a sign.\<close>

fun show_nat :: "nat \<Rightarrow> string" where
  "show_nat n = (if n < 10 then [digit_char n] else show_nat (n div 10) @ [digit_char (n mod 10)])"

declare show_nat.simps [simp del]

definition show_int :: "int \<Rightarrow> string" where
  "show_int v = (if v < 0 then CHR ''-'' # show_nat (nat (- v)) else show_nat (nat v))"

text \<open>\<^verbatim>\<open>%+ld\<close>: the sign is always written.\<close>

definition show_int_plus :: "int \<Rightarrow> string" where
  "show_int_plus v = (if v < 0 then CHR ''-'' else CHR ''+'') # show_nat (nat \<bar>v\<bar>)"

lemma show_nat_digits: "list_all c_isdigit (show_nat n)"
  by (induction n rule: show_nat.induct) (subst show_nat.simps, simp add: digit_char_props)

lemma show_nat_base_digits: "list_all (base_digit 10) (show_nat n)"
  using show_nat_digits [of n] by (simp add: list_all_iff base_digit_10)

lemma show_nat_not_Nil [simp]: "show_nat n \<noteq> []"
  by (subst show_nat.simps) simp

lemma digits_value_show_nat [simp]: "digits_value 10 (show_nat n) = n"
proof (induction n rule: show_nat.induct)
  case (1 n)
  show ?case
  proof (cases "n < 10")
    case True
    then show ?thesis by (subst show_nat.simps) (simp add: digits_value_def digit_char_props)
  next
    case False
    with 1 show ?thesis by (subst show_nat.simps) (simp add: digit_char_props)
  qed
qed

lemma show_nat_leading: "0 < n \<Longrightarrow> hd (show_nat n) \<noteq> CHR ''0''"
proof (induction n rule: show_nat.induct)
  case (1 n)
  show ?case
  proof (cases "n < 10")
    case True
    then have "code (digit_char n) \<noteq> code CHR ''0''"
      using 1(2) by (simp add: digit_char_def code_def)
    with True show ?thesis by (subst show_nat.simps) auto
  next
    case False
    with 1(1) have "hd (show_nat (n div 10)) \<noteq> CHR ''0''" by simp
    with False show ?thesis by (subst show_nat.simps) (simp add: hd_append)
  qed
qed

lemma digit_char_0: "digit_char 0 = CHR ''0''"
  by (simp add: code_inject [symmetric] digit_char_def del: code_inject) (simp add: code_def)

lemma show_nat_0 [simp]: "show_nat 0 = ''0''"
  by (subst show_nat.simps) (simp add: digit_char_0)

lemma show_nat_NUL: "NUL \<notin> set (show_nat n)"
  using show_nat_digits [of n] c_isdigit_not(2) by (auto simp: list_all_iff)

lemma show_nat_hd: "c_isdigit (hd (show_nat n))"
  using show_nat_digits [of n] by (cases "show_nat n") auto

lemma show_int_NUL: "NUL \<notin> set (show_int v)"
  using show_nat_NUL by (auto simp: show_int_def)

lemma show_nat_length_less: "n < 10 ^ k \<Longrightarrow> 0 < k \<Longrightarrow> length (show_nat n) \<le> k"
proof (induction n arbitrary: k rule: show_nat.induct)
  case (1 n)
  show ?case
  proof (cases "n < 10")
    case False
    with 1(2,3) obtain j where j: "k = Suc j" "0 < j" by (cases k; cases "k = 1") auto
    with 1(2) have "n div 10 < 10 ^ j" by (simp add: less_mult_imp_div_less mult.commute)
    with 1(1) False j show ?thesis by (subst show_nat.simps) simp
  qed (use 1(3) in \<open>subst show_nat.simps, simp\<close>)
qed

section \<open>strtol and strtoul\<close>

text \<open>
  \<open>strto_prefix\<close> resolves the base and the length of a prefix. A base of 0 reads
  \<^verbatim>\<open>0x\<close> as hexadecimal, \<^verbatim>\<open>0b\<close> as binary (C23), a leading 0 as
  octal; a prefix counts only when a digit of its base follows.
\<close>

definition strto_prefix :: "nat \<Rightarrow> string \<Rightarrow> nat \<times> nat" where
  "strto_prefix base s =
     (let c0 = char_at s 0; c1 = char_at s 1; c2 = char_at s 2 in
      if (base = 0 \<or> base = 16) \<and> c0 = CHR ''0'' \<and> (c1 = CHR ''x'' \<or> c1 = CHR ''X'')
         \<and> base_digit 16 c2 then (16, 2)
      else if (base = 0 \<or> base = 2) \<and> c0 = CHR ''0'' \<and> (c1 = CHR ''b'' \<or> c1 = CHR ''B'')
         \<and> base_digit 2 c2 then (2, 2)
      else if base = 0 \<and> c0 = CHR ''0'' then (8, 0)
      else if base = 0 then (10, 0)
      else (base, 0))"

text \<open>
  The subject sequence: white space, a sign, a prefix, digits. The result is the sign, the magnitude
  and the number of characters consumed, which is 0 when there is no digit.
\<close>

definition strto_scan :: "string \<Rightarrow> nat \<Rightarrow> bool \<times> nat \<times> nat" where
  "strto_scan s base =
     (let ws = length (takeWhile c_isspace s);
          s1 = drop ws s;
          signed = char_at s1 0 = CHR ''-'' \<or> char_at s1 0 = CHR ''+'';
          neg = (char_at s1 0 = CHR ''-'');
          k = (if signed then 1 else 0);
          s2 = drop k s1;
          (b, p) = strto_prefix base s2;
          ds = takeWhile (base_digit b) (drop p s2)
      in if ds = [] then (False, 0, 0)
         else (neg, digits_value b ds, ws + k + p + length ds))"

text \<open>Both return the value, the end position and whether \<^verbatim>\<open>errno\<close> is \<^verbatim>\<open>ERANGE\<close>.\<close>

definition strtoul :: "string \<Rightarrow> nat \<Rightarrow> int \<times> nat \<times> bool" where
  "strtoul s base =
     (let (neg, m, e) = strto_scan s base in
      if 2 ^ 64 \<le> m then (2 ^ 64 - 1, e, True)
      else (if neg then (- int m) mod 2 ^ 64 else int m, e, False))"

definition strtol :: "string \<Rightarrow> nat \<Rightarrow> int \<times> nat \<times> bool" where
  "strtol s base =
     (let (neg, m, e) = strto_scan s base in
      let v = (if neg then - int m else int m) in
      if v < INT64_MIN then (INT64_MIN, e, True)
      else if INT64_MAX < v then (INT64_MAX, e, True)
      else (v, e, False))"

text \<open>On a subject that starts with neither white space nor a sign only prefix and digits remain.\<close>

lemma strto_scan_unsigned:
  assumes "\<not> c_isspace (char_at s 0)" and "char_at s 0 \<noteq> CHR ''-''" and "char_at s 0 \<noteq> CHR ''+''"
  shows "strto_scan s base =
    (case strto_prefix base s of (b, p) \<Rightarrow>
      let ds = takeWhile (base_digit b) (drop p s)
      in if ds = [] then (False, 0, 0) else (False, digits_value b ds, p + length ds))"
proof -
  have "takeWhile c_isspace s = []" using assms(1) by (cases s) auto
  then show ?thesis using assms(2,3) by (simp add: strto_scan_def Let_def split: prod.split)
qed

lemma strto_scan_sign:
  assumes "\<not> c_isspace (char_at s 0)" and "char_at s 0 \<noteq> CHR ''-''" and "char_at s 0 \<noteq> CHR ''+''"
    and "c = CHR ''-'' \<or> c = CHR ''+''"
  shows "strto_scan (c # s) base =
    (case strto_scan s base of (_, m, e) \<Rightarrow>
      if e = 0 then (False, 0, 0) else (c = CHR ''-'', m, Suc e))"
proof -
  have "\<not> c_isspace c" using assms(4) by (auto simp: c_isspace_def code_def)
  then have "strto_scan (c # s) base =
    (case strto_prefix base s of (b, p) \<Rightarrow>
      let ds = takeWhile (base_digit b) (drop p s)
      in if ds = [] then (False, 0, 0) else (c = CHR ''-'', digits_value b ds, Suc (p + length ds)))"
    using assms(4) by (auto simp: strto_scan_def Let_def split: prod.split)
  then show ?thesis
    by (simp add: strto_scan_unsigned [OF assms(1-3)] Let_def split: prod.split)
qed

text \<open>Texts joined by a separator.\<close>

fun join_sep :: "string \<Rightarrow> string list \<Rightarrow> string" where
  "join_sep sep [] = []"
| "join_sep sep [x] = x"
| "join_sep sep (x # y # xs) = x @ sep @ join_sep sep (y # xs)"

section \<open>Floating point\<close>

text \<open>
  An IEEE 754 number is its bit pattern, read as a natural number: \<open>mb\<close> fraction bits, \<open>eb\<close> exponent
  bits, a sign bit.
\<close>

definition ieee_frac :: "nat \<Rightarrow> nat \<Rightarrow> nat" where
  "ieee_frac mb n = n mod 2 ^ mb"

definition ieee_exp :: "nat \<Rightarrow> nat \<Rightarrow> nat \<Rightarrow> nat" where
  "ieee_exp mb eb n = n div 2 ^ mb mod 2 ^ eb"

definition ieee_sign :: "nat \<Rightarrow> nat \<Rightarrow> nat \<Rightarrow> bool" where
  "ieee_sign mb eb n = odd (n div 2 ^ (mb + eb))"

definition ieee_isnan :: "nat \<Rightarrow> nat \<Rightarrow> nat \<Rightarrow> bool" where
  "ieee_isnan mb eb n \<longleftrightarrow> ieee_exp mb eb n = 2 ^ eb - 1 \<and> ieee_frac mb n \<noteq> 0"

definition ieee_isfinite :: "nat \<Rightarrow> nat \<Rightarrow> nat \<Rightarrow> bool" where
  "ieee_isfinite mb eb n \<longleftrightarrow> ieee_exp mb eb n \<noteq> 2 ^ eb - 1"

text \<open>
  The value in units of the smallest subnormal is an integer, so comparison is exact; an infinity is
  beyond every finite value.
\<close>

definition ieee_scaled :: "nat \<Rightarrow> nat \<Rightarrow> nat \<Rightarrow> int" where
  "ieee_scaled mb eb n =
     (let e = ieee_exp mb eb n; f = int (ieee_frac mb n);
          m = (if e = 0 then f else (f + 2 ^ mb) * 2 ^ (e - 1))
      in if ieee_sign mb eb n then - m else m)"

definition ieee_less :: "nat \<Rightarrow> nat \<Rightarrow> nat \<Rightarrow> nat \<Rightarrow> bool" where
  "ieee_less mb eb a b \<longleftrightarrow>
     \<not> ieee_isnan mb eb a \<and> \<not> ieee_isnan mb eb b \<and> ieee_scaled mb eb a < ieee_scaled mb eb b"

abbreviation dbl_isnan :: "64 word \<Rightarrow> bool" where
  "dbl_isnan d \<equiv> ieee_isnan 52 11 (unat d)"

abbreviation dbl_isfinite :: "64 word \<Rightarrow> bool" where
  "dbl_isfinite d \<equiv> ieee_isfinite 52 11 (unat d)"

abbreviation dbl_scaled :: "64 word \<Rightarrow> int" where
  "dbl_scaled d \<equiv> ieee_scaled 52 11 (unat d)"

abbreviation dbl_less :: "64 word \<Rightarrow> 64 word \<Rightarrow> bool" where
  "dbl_less a b \<equiv> ieee_less 52 11 (unat a) (unat b)"

text \<open>Conversion to an integer discards the fraction; it is undefined outside the target type.\<close>

definition dbl_trunc :: "64 word \<Rightarrow> int" where
  "dbl_trunc d = c_div (dbl_scaled d) (2 ^ 1074)"

definition dbl_to_int :: "nat \<Rightarrow> 64 word \<Rightarrow> int outcome" where
  "dbl_to_int w d = (if dbl_isfinite d \<and> fits_s w (dbl_trunc d) then Ret (dbl_trunc d) else UB)"

text \<open>
  The comparison \<^verbatim>\<open>double_compare\<close> and \<^verbatim>\<open>php_scylladb_float_compare\<close>
  share: by value, and by the signed bit pattern when neither value is less, with one pattern
  \<open>canon\<close> for all NaNs.
\<close>

definition ieee_bits :: "nat \<Rightarrow> nat \<Rightarrow> int \<Rightarrow> nat \<Rightarrow> int" where
  "ieee_bits mb eb canon n = (if ieee_isnan mb eb n then canon else cast_s (Suc (mb + eb)) (int n))"

definition ieee_compare :: "nat \<Rightarrow> nat \<Rightarrow> int \<Rightarrow> nat \<Rightarrow> nat \<Rightarrow> int" where
  "ieee_compare mb eb canon a b =
     (if ieee_less mb eb a b then -1
      else if ieee_less mb eb b a then 1
      else php_scylladb_compare (ieee_bits mb eb canon a) (ieee_bits mb eb canon b))"

end
