(* ===== verification/Gmp.thy ===== *)
theory Gmp
  imports CLib
begin

text \<open>
  The GNU multiple precision library is not part of the sources. Its functions are the fields of a
  record that every definition using them takes as an argument; an \<^verbatim>\<open>mpz_t\<close> is
  the integer it holds. \<open>gmp_spec\<close> states what the GMP manual documents of each function, and
  \<open>gmp_ref\<close> is a computable instance that satisfies it, so that theorems with the
  hypothesis \<open>gmp_spec G\<close> can be applied to concrete values.
\<close>

type_synonym byte = "8 word"

record gmp =
  mpz_set_str :: "string \<Rightarrow> nat \<Rightarrow> int option" \<comment> \<open>\<open>None\<close> is the result -1\<close>
  mpz_get_str :: "nat \<Rightarrow> int \<Rightarrow> string"
  mpz_sizeinbase :: "int \<Rightarrow> nat \<Rightarrow> nat"
  mpz_scan1 :: "int \<Rightarrow> nat \<Rightarrow> nat"
  mpz_import :: "byte list \<Rightarrow> int" \<comment> \<open>most significant byte first\<close>
  mpz_export :: "int \<Rightarrow> byte list"
  mpz_size :: "int \<Rightarrow> nat"
  mpz_getlimbn :: "int \<Rightarrow> nat \<Rightarrow> 64 word"
  mpz_set_d :: "64 word \<Rightarrow> int"
  mpz_sgn :: "int \<Rightarrow> int"
  mpz_cmp :: "int \<Rightarrow> int \<Rightarrow> int"
  mpz_cmp_si :: "int \<Rightarrow> int \<Rightarrow> int"
  mpz_get_si :: "int \<Rightarrow> int"
  mpz_neg :: "int \<Rightarrow> int"
  mpz_abs :: "int \<Rightarrow> int"
  mpz_add :: "int \<Rightarrow> int \<Rightarrow> int"
  mpz_sub :: "int \<Rightarrow> int \<Rightarrow> int"
  mpz_mul :: "int \<Rightarrow> int \<Rightarrow> int"
  mpz_mul_2exp :: "int \<Rightarrow> nat \<Rightarrow> int"
  mpz_ui_pow_ui :: "nat \<Rightarrow> nat \<Rightarrow> int"
  mpz_div :: "int \<Rightarrow> int \<Rightarrow> int"
  mpz_mod :: "int \<Rightarrow> int \<Rightarrow> int"
  mpz_sqrt :: "int \<Rightarrow> int"

section \<open>Documented behaviour\<close>

text \<open>
  \<^verbatim>\<open>mpz_set_str\<close>: a numeral is an optional minus sign and digits of the base; a
  character that is neither a digit of the base nor white space makes the call fail. With base 0
  the leading characters decide: \<^verbatim>\<open>0x\<close> and \<^verbatim>\<open>0X\<close> for
  hexadecimal, \<^verbatim>\<open>0b\<close> and \<^verbatim>\<open>0B\<close> for binary,
  \<^verbatim>\<open>0\<close> for octal, decimal otherwise.
\<close>

definition set_str_digits :: "gmp \<Rightarrow> bool" where
  "set_str_digits G \<longleftrightarrow>
     (\<forall>b ds. 2 \<le> b \<and> b \<le> 36 \<and> ds \<noteq> [] \<and> list_all (base_digit b) ds \<longrightarrow>
        mpz_set_str G ds b = Some (int (digits_value b ds)) \<and>
        mpz_set_str G (CHR ''-'' # ds) b = Some (- int (digits_value b ds)))"

definition set_str_rejects :: "gmp \<Rightarrow> bool" where
  "set_str_rejects G \<longleftrightarrow>
     (\<forall>b ds c. 2 \<le> b \<and> b \<le> 36 \<and> c \<in> set ds \<and> \<not> base_digit b c \<and> \<not> c_isspace c \<and>
        char_at ds 0 \<noteq> CHR ''-'' \<longrightarrow> mpz_set_str G ds b = None)"

definition set_str_base0 :: "gmp \<Rightarrow> bool" where
  "set_str_base0 G \<longleftrightarrow>
     (\<forall>ds x. (x = CHR ''x'' \<or> x = CHR ''X'') \<and> base_digit 16 (char_at ds 0) \<longrightarrow>
        mpz_set_str G (CHR ''0'' # x # ds) 0 = mpz_set_str G ds 16) \<and>
     (\<forall>ds x. (x = CHR ''b'' \<or> x = CHR ''B'') \<and> base_digit 2 (char_at ds 0) \<longrightarrow>
        mpz_set_str G (CHR ''0'' # x # ds) 0 = mpz_set_str G ds 2) \<and>
     (\<forall>ds. char_at ds 0 \<notin> {CHR ''x'', CHR ''X'', CHR ''b'', CHR ''B''} \<longrightarrow>
        mpz_set_str G (CHR ''0'' # ds) 0 = mpz_set_str G (CHR ''0'' # ds) 8) \<and>
     (\<forall>ds c. c_isdigit c \<and> c \<noteq> CHR ''0'' \<longrightarrow> mpz_set_str G (c # ds) 0 = mpz_set_str G (c # ds) 10)"

definition gmp_text :: "gmp \<Rightarrow> bool" where
  "gmp_text G \<longleftrightarrow> set_str_digits G \<and> set_str_rejects G \<and> set_str_base0 G \<and>
     (\<forall>n. mpz_get_str G 10 n = show_int n) \<and>
     (\<forall>n. \<bar>n\<bar> < 10 ^ mpz_sizeinbase G n 10) \<and>
     (\<forall>n. 0 < mpz_sizeinbase G n 10)"

text \<open>The value of a big-endian byte string.\<close>

definition be_value :: "byte list \<Rightarrow> int" where
  "be_value bs = foldl (\<lambda>acc b. acc * 256 + uint b) 0 bs"

definition gmp_bytes :: "gmp \<Rightarrow> bool" where
  "gmp_bytes G \<longleftrightarrow>
     (\<forall>bs. mpz_import G bs = be_value bs) \<and>
     (\<forall>n. n \<noteq> 0 \<longrightarrow> mpz_export G n \<noteq> [] \<and> hd (mpz_export G n) \<noteq> 0 \<and> be_value (mpz_export G n) = \<bar>n\<bar>) \<and>
     (\<forall>n. n \<noteq> 0 \<longrightarrow> (\<exists>k. mpz_sizeinbase G n 2 = Suc k \<and> 2 ^ k \<le> \<bar>n\<bar> \<and> \<bar>n\<bar> < 2 ^ Suc k)) \<and>
     (\<forall>n. n \<noteq> 0 \<longrightarrow> 2 ^ mpz_scan1 G n 0 dvd n \<and> \<not> 2 ^ Suc (mpz_scan1 G n 0) dvd n) \<and>
     (\<forall>n i. mpz_getlimbn G n i = word_of_int (\<bar>n\<bar> div 2 ^ (64 * i))) \<and>
     (\<forall>n. \<bar>n\<bar> < 2 ^ (64 * mpz_size G n))"

definition gmp_arith :: "gmp \<Rightarrow> bool" where
  "gmp_arith G \<longleftrightarrow>
     (\<forall>d. dbl_isfinite d \<longrightarrow> mpz_set_d G d = dbl_trunc d) \<and>
     (\<forall>n. mpz_sgn G n = sgn n) \<and>
     (\<forall>a b. sgn (mpz_cmp G a b) = sgn (a - b)) \<and>
     (\<forall>a b. sgn (mpz_cmp_si G a b) = sgn (a - b)) \<and>
     (\<forall>n. fits_s 64 n \<longrightarrow> mpz_get_si G n = n) \<and>
     (\<forall>n. mpz_neg G n = - n) \<and>
     (\<forall>n. mpz_abs G n = \<bar>n\<bar>) \<and>
     (\<forall>a b. mpz_add G a b = a + b) \<and>
     (\<forall>a b. mpz_sub G a b = a - b) \<and>
     (\<forall>a b. mpz_mul G a b = a * b) \<and>
     (\<forall>a k. mpz_mul_2exp G a k = a * 2 ^ k) \<and>
     (\<forall>b k. mpz_ui_pow_ui G b k = int b ^ k) \<and>
     (\<forall>a b. b \<noteq> 0 \<longrightarrow> mpz_div G a b = a div b) \<and>
     (\<forall>a b. b \<noteq> 0 \<longrightarrow> mpz_mod G a b = a mod \<bar>b\<bar>) \<and>
     (\<forall>n. 0 \<le> n \<longrightarrow> 0 \<le> mpz_sqrt G n \<and> (mpz_sqrt G n)\<^sup>2 \<le> n \<and> n < (mpz_sqrt G n + 1)\<^sup>2)"

definition gmp_spec :: "gmp \<Rightarrow> bool" where
  "gmp_spec G \<longleftrightarrow> gmp_text G \<and> gmp_bytes G \<and> gmp_arith G"

lemma gmp_arith_simps:
  assumes "gmp_spec G"
  shows "mpz_sgn G n = sgn n" "mpz_neg G n = - n" "mpz_abs G n = \<bar>n\<bar>"
    "mpz_add G a b = a + b" "mpz_sub G a b = a - b" "mpz_mul G a b = a * b"
    "mpz_mul_2exp G a k = a * 2 ^ k" "mpz_ui_pow_ui G c k = int c ^ k"
    "b \<noteq> 0 \<Longrightarrow> mpz_div G a b = a div b" "b \<noteq> 0 \<Longrightarrow> mpz_mod G a b = a mod \<bar>b\<bar>"
    "fits_s 64 n \<Longrightarrow> mpz_get_si G n = n"
  using assms by (simp_all add: gmp_spec_def gmp_arith_def)

lemma gmp_cmp_sgn:
  assumes "gmp_spec G"
  shows "sgn (mpz_cmp G a b) = sgn (a - b)" "sgn (mpz_cmp_si G a b) = sgn (a - b)"
  using assms by (simp_all add: gmp_spec_def gmp_arith_def)

lemma gmp_bytes_simps:
  assumes "gmp_spec G"
  shows "mpz_import G bs = be_value bs"
    "n \<noteq> 0 \<Longrightarrow> mpz_export G n \<noteq> []" "n \<noteq> 0 \<Longrightarrow> hd (mpz_export G n) \<noteq> 0"
    "n \<noteq> 0 \<Longrightarrow> be_value (mpz_export G n) = \<bar>n\<bar>"
  using assms by (simp_all add: gmp_spec_def gmp_bytes_def)

lemma gmp_sizeinbase_2:
  assumes "gmp_spec G" and "n \<noteq> 0"
  obtains k where "mpz_sizeinbase G n 2 = Suc k" "2 ^ k \<le> \<bar>n\<bar>" "\<bar>n\<bar> < 2 ^ Suc k"
  using assms unfolding gmp_spec_def gmp_bytes_def by blast

lemma gmp_scan1:
  assumes "gmp_spec G" and "n \<noteq> 0"
  shows "2 ^ mpz_scan1 G n 0 dvd n" "\<not> 2 ^ Suc (mpz_scan1 G n 0) dvd n"
  using assms unfolding gmp_spec_def gmp_bytes_def by blast+

lemma gmp_get_str:
  assumes "gmp_spec G"
  shows "mpz_get_str G 10 n = show_int n"
  using assms by (simp add: gmp_spec_def gmp_text_def)

lemma gmp_sizeinbase_10:
  assumes "gmp_spec G"
  shows "length (show_nat (nat \<bar>n\<bar>)) \<le> mpz_sizeinbase G n 10"
proof (rule show_nat_length_less)
  have "\<bar>n\<bar> < 10 ^ mpz_sizeinbase G n 10"
    using assms by (simp add: gmp_spec_def gmp_text_def)
  then show "nat \<bar>n\<bar> < 10 ^ mpz_sizeinbase G n 10"
    by (simp add: nat_less_iff)
  show "0 < mpz_sizeinbase G n 10"
    using assms by (simp add: gmp_spec_def gmp_text_def)
qed

section \<open>Big-endian byte strings\<close>

lemma be_value_Nil [simp]: "be_value [] = 0"
  by (simp add: be_value_def)

lemma be_value_snoc [simp]: "be_value (bs @ [b]) = be_value bs * 256 + uint b"
  by (simp add: be_value_def)

lemma be_value_append: "be_value (xs @ ys) = be_value xs * 256 ^ length ys + be_value ys"
proof (induction ys rule: rev_induct)
  case (snoc c ys)
  have "be_value (xs @ ys @ [c]) = be_value (xs @ ys) * 256 + uint c"
    by (metis append.assoc be_value_snoc)
  with snoc show ?case by (simp add: algebra_simps)
qed simp

lemma be_value_Cons: "be_value (b # bs) = uint b * 256 ^ length bs + be_value bs"
  using be_value_append [of "[b]" bs] by (simp add: be_value_def)

lemma be_value_bounds: "0 \<le> be_value bs \<and> be_value bs < 256 ^ length bs"
proof (induction bs rule: rev_induct)
  case (snoc c bs)
  have "uint c < 256" using uint_bounded [of c] by simp
  moreover have "be_value bs * 256 + 256 \<le> 256 ^ length bs * 256"
    using snoc by (simp add: algebra_simps)
  ultimately show ?case using snoc by simp
qed simp

lemma be_value_leading:
  assumes "bs \<noteq> []" and "hd bs \<noteq> 0"
  shows "256 ^ (length bs - 1) \<le> be_value bs"
proof -
  obtain b cs where bs: "bs = b # cs" "b \<noteq> 0" using assms by (cases bs) auto
  then have "1 \<le> uint b"
    using uint_nonnegative [of b] by (simp add: uint_0_iff int_one_le_iff_zero_less less_le)
  then have "1 * 256 ^ length cs \<le> uint b * 256 ^ length cs" by (intro mult_right_mono) auto
  then have "256 ^ length cs \<le> be_value (b # cs)"
    unfolding be_value_Cons using be_value_bounds [of cs] by linarith
  then show ?thesis by (simp add: bs)
qed

lemma be_value_inject:
  "length xs = length ys \<Longrightarrow> be_value xs = be_value ys \<Longrightarrow> xs = ys"
proof (induction xs arbitrary: ys rule: rev_induct)
  case (snoc x xs)
  then obtain zs z where ys: "ys = zs @ [z]" "length zs = length xs"
    by (metis length_append_singleton length_Suc_conv_rev)
  have "uint x < 256" "uint z < 256" using uint_bounded [of x] uint_bounded [of z] by simp_all
  moreover have "be_value xs * 256 + uint x = be_value zs * 256 + uint z"
    using snoc.prems(2) ys by simp
  moreover from calculation have "be_value xs = be_value zs"
    using uint_nonnegative [of x] uint_nonnegative [of z] by linarith
  ultimately have "be_value xs = be_value zs" "uint x = uint z" by simp_all
  with snoc.IH ys show ?case by (auto simp: word_uint_eq_iff)
qed simp

section \<open>A computable instance\<close>

definition ref_digits :: "nat \<Rightarrow> string \<Rightarrow> int option" where
  "ref_digits b ds =
     (if ds \<noteq> [] \<and> list_all (base_digit b) ds then Some (int (digits_value b ds)) else None)"

definition ref_signed :: "nat \<Rightarrow> string \<Rightarrow> int option" where
  "ref_signed b s =
     (if char_at s 0 = CHR ''-'' then map_option uminus (ref_digits b (tl s)) else ref_digits b s)"

definition ref_set_str :: "string \<Rightarrow> nat \<Rightarrow> int option" where
  "ref_set_str s b =
     (if b \<noteq> 0 then ref_signed b s
      else if char_at s 0 \<noteq> CHR ''0'' then ref_signed 10 s
      else if char_at s 1 = CHR ''x'' \<or> char_at s 1 = CHR ''X'' then ref_signed 16 (drop 2 s)
      else if char_at s 1 = CHR ''b'' \<or> char_at s 1 = CHR ''B'' then ref_signed 2 (drop 2 s)
      else ref_signed 8 s)"

fun ref_ndigits :: "nat \<Rightarrow> nat \<Rightarrow> nat" where
  "ref_ndigits b n = (if n < b \<or> b < 2 then 1 else Suc (ref_ndigits b (n div b)))"

declare ref_ndigits.simps [simp del]

fun ref_scan1 :: "nat \<Rightarrow> nat" where
  "ref_scan1 n = (if n = 0 \<or> odd n then 0 else Suc (ref_scan1 (n div 2)))"

declare ref_scan1.simps [simp del]

fun ref_export :: "nat \<Rightarrow> byte list" where
  "ref_export n = (if n = 0 then [] else ref_export (n div 256) @ [word_of_nat (n mod 256)])"

declare ref_export.simps [simp del]

fun ref_sqrt :: "nat \<Rightarrow> nat" where
  "ref_sqrt n =
     (if n = 0 then 0 else let r = 2 * ref_sqrt (n div 4) in if (r + 1) * (r + 1) \<le> n then r + 1 else r)"

declare ref_sqrt.simps [simp del]

definition gmp_ref :: gmp where
  "gmp_ref = \<lparr>
     mpz_set_str = ref_set_str,
     mpz_get_str = (\<lambda>_. show_int),
     mpz_sizeinbase = (\<lambda>n b. ref_ndigits b (nat \<bar>n\<bar>)),
     mpz_scan1 = (\<lambda>n _. ref_scan1 (nat \<bar>n\<bar>)),
     mpz_import = be_value,
     mpz_export = (\<lambda>n. ref_export (nat \<bar>n\<bar>)),
     mpz_size = (\<lambda>n. (ref_ndigits 2 (nat \<bar>n\<bar>) + 63) div 64),
     mpz_getlimbn = (\<lambda>n i. word_of_int (\<bar>n\<bar> div 2 ^ (64 * i))),
     mpz_set_d = dbl_trunc,
     mpz_sgn = sgn,
     mpz_cmp = (\<lambda>a b. sgn (a - b)),
     mpz_cmp_si = (\<lambda>a b. sgn (a - b)),
     mpz_get_si = cast_s 64,
     mpz_neg = uminus,
     mpz_abs = abs,
     mpz_add = (+),
     mpz_sub = (-),
     mpz_mul = (*),
     mpz_mul_2exp = (\<lambda>a k. a * 2 ^ k),
     mpz_ui_pow_ui = (\<lambda>b k. int b ^ k),
     mpz_div = (\<lambda>a b. a div b),
     mpz_mod = (\<lambda>a b. a mod \<bar>b\<bar>),
     mpz_sqrt = (\<lambda>n. int (ref_sqrt (nat n)))\<rparr>"

lemma minus_not_digit: "\<not> base_digit b CHR ''-''"
  by (simp add: base_digit_def digit_val_def c_isdigit_def c_islower_def c_isupper_def code_def)

lemma base_digit_at_0: "base_digit b (char_at ds 0) \<Longrightarrow> char_at ds 0 \<noteq> CHR ''-''"
  using minus_not_digit by metis

lemma ref_set_str_spec: "set_str_digits gmp_ref" "set_str_rejects gmp_ref" "set_str_base0 gmp_ref"
proof -
  have first: "ds \<noteq> [] \<Longrightarrow> list_all (base_digit b) ds \<Longrightarrow> char_at ds 0 \<noteq> CHR ''-''" for b ds
    using minus_not_digit by (cases ds) auto
  show "set_str_digits gmp_ref"
    by (auto simp: set_str_digits_def gmp_ref_def ref_set_str_def ref_signed_def ref_digits_def
        dest: first)
  show "set_str_rejects gmp_ref"
    by (auto simp: set_str_rejects_def gmp_ref_def ref_set_str_def ref_signed_def ref_digits_def
        list_all_iff)
  show "set_str_base0 gmp_ref"
    by (auto simp: set_str_base0_def gmp_ref_def ref_set_str_def)
qed

lemma ref_ndigits_bounds:
  "2 \<le> b \<Longrightarrow> \<exists>k. ref_ndigits b n = Suc k \<and> (0 < n \<longrightarrow> b ^ k \<le> n) \<and> n < b ^ Suc k"
proof (induction b n rule: ref_ndigits.induct)
  case (1 b n)
  show ?case
  proof (cases "n < b")
    case True
    then show ?thesis by (subst ref_ndigits.simps) auto
  next
    case False
    with 1 obtain k where k: "ref_ndigits b (n div b) = Suc k" "b ^ k \<le> n div b" "n div b < b ^ Suc k"
      by (auto simp: div_greater_zero_iff)
    then have "b ^ Suc k \<le> n" "n < b ^ Suc (Suc k)"
      using "1.prems" by (auto simp: less_eq_div_iff_mult_less_eq div_less_iff_less_mult mult.commute)
    with k False "1.prems" show ?thesis by (subst ref_ndigits.simps) auto
  qed
qed

lemma ref_scan1_spec: "0 < n \<Longrightarrow> 2 ^ ref_scan1 n dvd n \<and> \<not> 2 ^ Suc (ref_scan1 n) dvd n"
proof (induction n rule: ref_scan1.induct)
  case (1 n)
  show ?case
  proof (cases "odd n")
    case True
    then show ?thesis by (subst (1 2) ref_scan1.simps) simp
  next
    case False
    then obtain m where m: "n = 2 * m" by auto
    then have "ref_scan1 n = Suc (ref_scan1 m)" using "1.prems" False by (subst ref_scan1.simps) simp
    with 1 m False show ?thesis by simp
  qed
qed

lemma ref_export_value: "be_value (ref_export n) = int n"
proof (induction n rule: ref_export.induct)
  case (1 n)
  have "uint (word_of_nat (n mod 256) :: byte) = int (n mod 256)"
    by (simp add: unsigned_of_nat take_bit_eq_mod)
  moreover have "ref_export 0 = []" by (subst ref_export.simps) simp
  moreover have "int (n div 256) * 256 + int (n mod 256) = int n"
    using div_mult_mod_eq [of n 256] by linarith
  moreover have "0 < n \<Longrightarrow> ref_export n = ref_export (n div 256) @ [word_of_nat (n mod 256)]"
    by (subst ref_export.simps) simp
  ultimately show ?case using 1 by (cases "n = 0") simp_all
qed

lemma ref_export_leading: "0 < n \<Longrightarrow> ref_export n \<noteq> [] \<and> hd (ref_export n) \<noteq> 0"
proof (induction n rule: ref_export.induct)
  case (1 n)
  show ?case
  proof (cases "n < 256")
    case True
    moreover have "ref_export 0 = []" by (subst ref_export.simps) simp
    ultimately have "ref_export n = [word_of_nat n]" using "1.prems"
      by (subst ref_export.simps) simp
    moreover have "(word_of_nat n :: byte) \<noteq> 0"
      using True "1.prems" by (auto simp: word_of_nat_eq_0_iff dest: dvd_imp_le)
    ultimately show ?thesis by simp
  next
    case False
    moreover from this have "ref_export n = ref_export (n div 256) @ [word_of_nat (n mod 256)]"
      by (subst ref_export.simps) simp
    ultimately show ?thesis using 1 by simp
  qed
qed

lemma ref_sqrt_spec: "ref_sqrt n * ref_sqrt n \<le> n \<and> n < (ref_sqrt n + 1) * (ref_sqrt n + 1)"
proof (induction n rule: ref_sqrt.induct)
  case (1 n)
  show ?case
  proof (cases "n = 0")
    case False
    define q where "q = ref_sqrt (n div 4)"
    have q: "q * q \<le> n div 4" "n div 4 < (q + 1) * (q + 1)" using 1 False by (auto simp: q_def)
    have s: "ref_sqrt n = (if (2*q + 1) * (2*q + 1) \<le> n then 2*q + 1 else 2*q)"
      using False by (subst ref_sqrt.simps) (simp add: q_def Let_def)
    have "2*q * (2*q) \<le> n" "n < (2*q + 2) * (2*q + 2)" using q by (simp_all add: algebra_simps)
    then show ?thesis unfolding s by (simp add: algebra_simps)
  next
    case True
    moreover have "ref_sqrt 0 = 0" by (subst ref_sqrt.simps) simp
    ultimately show ?thesis by simp
  qed
qed

lemma ref_size_bound:
  assumes "2 \<le> b"
  shows "\<bar>n\<bar> < int b ^ ref_ndigits b (nat \<bar>n\<bar>)"
proof -
  have "nat \<bar>n\<bar> < b ^ ref_ndigits b (nat \<bar>n\<bar>)" using ref_ndigits_bounds [OF assms] by metis
  then have "int (nat \<bar>n\<bar>) < int (b ^ ref_ndigits b (nat \<bar>n\<bar>))" by (simp only: of_nat_less_iff)
  then show ?thesis by simp
qed

lemma gmp_ref_text: "gmp_text gmp_ref"
proof -
  have "0 < ref_ndigits 10 m" for m by (subst ref_ndigits.simps) simp
  then show ?thesis
    using ref_set_str_spec ref_size_bound [of 10] by (simp add: gmp_text_def) (simp add: gmp_ref_def)
qed

lemma ref_sizeinbase_2:
  assumes "n \<noteq> 0"
  shows "\<exists>k. ref_ndigits 2 (nat \<bar>n\<bar>) = Suc k \<and> 2 ^ k \<le> \<bar>n\<bar> \<and> \<bar>n\<bar> < 2 ^ Suc k"
proof -
  obtain k where "ref_ndigits 2 (nat \<bar>n\<bar>) = Suc k" "2 ^ k \<le> nat \<bar>n\<bar>" "nat \<bar>n\<bar> < 2 ^ Suc k"
    using ref_ndigits_bounds [of 2 "nat \<bar>n\<bar>"] assms by auto
  then show ?thesis by (intro exI [of _ k]) (simp add: le_nat_iff nat_less_iff)
qed

lemma ref_scan1_int:
  assumes "n \<noteq> 0"
  shows "2 ^ ref_scan1 (nat \<bar>n\<bar>) dvd n" and "\<not> 2 ^ Suc (ref_scan1 (nat \<bar>n\<bar>)) dvd n"
proof -
  have "2 ^ k dvd n \<longleftrightarrow> 2 ^ k dvd nat \<bar>n\<bar>" for k
    using int_dvd_int_iff [of "2 ^ k" "nat \<bar>n\<bar>"] by simp
  then show "2 ^ ref_scan1 (nat \<bar>n\<bar>) dvd n" "\<not> 2 ^ Suc (ref_scan1 (nat \<bar>n\<bar>)) dvd n"
    using ref_scan1_spec [of "nat \<bar>n\<bar>"] assms by auto
qed

lemma ref_limbs: "\<bar>n\<bar> < 2 ^ (64 * ((ref_ndigits 2 (nat \<bar>n\<bar>) + 63) div 64))"
proof -
  have "\<bar>n\<bar> < 2 ^ ref_ndigits 2 (nat \<bar>n\<bar>)" using ref_size_bound [of 2 n] by simp
  also have "\<dots> \<le> 2 ^ (64 * ((ref_ndigits 2 (nat \<bar>n\<bar>) + 63) div 64))"
    by (rule power_increasing) simp_all
  finally show ?thesis .
qed

lemma gmp_ref_bytes: "gmp_bytes gmp_ref"
  unfolding gmp_bytes_def gmp_ref_def gmp.simps
  by (intro conjI allI impI ref_sizeinbase_2 ref_scan1_int ref_limbs refl)
    (simp_all add: ref_export_leading ref_export_value)

lemma gmp_ref_sqrt:
  assumes "0 \<le> n"
  shows "(int (ref_sqrt (nat n)))\<^sup>2 \<le> n" and "n < (int (ref_sqrt (nat n)) + 1)\<^sup>2"
proof -
  have "int (ref_sqrt (nat n) * ref_sqrt (nat n)) \<le> int (nat n)"
    "int (nat n) < int ((ref_sqrt (nat n) + 1) * (ref_sqrt (nat n) + 1))"
    using ref_sqrt_spec [of "nat n"] by (simp_all only: of_nat_le_iff of_nat_less_iff)
  then show "(int (ref_sqrt (nat n)))\<^sup>2 \<le> n" "n < (int (ref_sqrt (nat n)) + 1)\<^sup>2"
    using assms by (simp_all add: power2_eq_square algebra_simps)
qed

lemma gmp_ref_arith: "gmp_arith gmp_ref"
  unfolding gmp_arith_def gmp_ref_def gmp.simps
  by (intro conjI allI impI refl cast_s_id gmp_ref_sqrt) simp_all

lemma gmp_ref_spec: "gmp_spec gmp_ref"
  by (simp add: gmp_spec_def gmp_ref_text gmp_ref_bytes gmp_ref_arith)

end
