(* ===== verification/NumberParser.thy ===== *)
theory NumberParser
  imports Gmp
begin

text \<open>
  \<^verbatim>\<open>src/Numbers/NumberParser.c\<close>: numbers from and to text, and the two's
  complement byte strings in which varint and decimal values travel. Integer literals are related to
  one reading, \<open>int_literal\<close>; decimals and byte strings are covered by round trips.
\<close>

section \<open>Reading text\<close>

abbreviation throw_arg :: "string \<Rightarrow> 'a outcome" where
  "throw_arg m \<equiv> Throw (Exn InvalidArgumentException m)"

abbreviation throw_range :: "string \<Rightarrow> 'a outcome" where
  "throw_range m \<equiv> Throw (Exn RangeException m)"

text \<open>\<^verbatim>\<open>const int in_len = (int)ZSTR_LEN(zstr)\<close>.\<close>

definition zstr_int_len :: "string \<Rightarrow> int" where
  "zstr_int_len s = cast_s 32 (int (length s))"

text \<open>
  The result of \<open>prepare_string_conversion\<close> is the returned flag and the out-parameters
  \<^verbatim>\<open>pos\<close>, \<^verbatim>\<open>negative\<close> and \<^verbatim>\<open>base\<close>.
\<close>

definition prepare_string_conversion :: "string \<Rightarrow> (bool \<times> nat \<times> bool \<times> nat) outcome" where
  "prepare_string_conversion s =
     (let in_len = zstr_int_len s in
      if in_len < 0 \<or> nat in_len \<noteq> strlen s
      then throw_arg ''Value of %d bytes contains a NUL byte at offset %zu''
      else
        let n = nat in_len;
            p0 = length (takeWhile c_isspace (take n s));
            c = char_at s p0;
            signed = (p0 < n \<and> (c = CHR ''+'' \<or> c = CHR ''-''));
            negative = (signed \<and> c = CHR ''-'');
            p1 = (if signed then p0 + 1 else p0);
            binary = (p1 + 1 < n \<and> char_at s p1 = CHR ''0'' \<and> char_at s (p1 + 1) = CHR ''b'');
            base = (if binary then 2 else 0);
            p2 = (if binary then p1 + 2 else p1)
        in Ret (p2 < n \<and> c_isdigit (char_at s p2), p2, negative, base))"

text \<open>
  \<^verbatim>\<open>php_scylladb_parse_int\<close>. \<open>Ret None\<close> is the exit with
  \<^verbatim>\<open>errno == ERANGE\<close> and no exception, which the caller reports.
\<close>

definition php_scylladb_parse_int :: "string \<Rightarrow> int option outcome" where
  "php_scylladb_parse_int s =
     bind_outcome (prepare_string_conversion s) (\<lambda>(ok, pos, negative, base).
       if \<not> ok then throw_arg ''Invalid integer value''
       else
         let (ul, e, erange) = strtoul (c_str (drop pos s)) base;
             temp = cast_u 32 ul;
             (number, over) =
               (if negative then
                  if temp > INT32_MAX + 1 then (INT32_MIN, True)
                  else if temp = INT32_MAX + 1 then (INT32_MIN, False)
                  else (- temp, False)
                else if temp > INT32_MAX then (INT32_MAX, True)
                else (temp, False))
         in if erange \<or> over then Ret None
            else if e = 0 then throw_arg ''Invalid integer value''
            else if int (pos + e) \<noteq> zstr_int_len s
            then throw_arg ''Invalid characters were found in value''
            else Ret (Some number))"

definition php_scylladb_parse_bigint :: "string \<Rightarrow> int outcome" where
  "php_scylladb_parse_bigint s =
     bind_outcome (prepare_string_conversion s) (\<lambda>(ok, pos, negative, base).
       if \<not> ok then throw_arg ''Invalid integer value''
       else
         let (temp, e, erange) = strtoul (c_str (drop pos s)) base;
             (number, over) =
               (if negative then
                  if temp > INT64_MAX + 1 then (INT64_MIN, True)
                  else if temp = INT64_MAX + 1 then (INT64_MIN, False)
                  else (- temp, False)
                else if temp > INT64_MAX then (INT64_MAX, True)
                else (temp, False))
         in if erange \<or> over then throw_range ''value must be between %PRId64 and %PRId64, %s given''
            else if e = 0 then throw_arg ''Invalid integer value''
            else if int (pos + e) \<noteq> zstr_int_len s
            then throw_arg ''Invalid characters were found in value''
            else Ret number)"

definition php_scylladb_parse_varint :: "gmp \<Rightarrow> string \<Rightarrow> int outcome" where
  "php_scylladb_parse_varint G s =
     bind_outcome (prepare_string_conversion s) (\<lambda>(ok, pos, negative, base).
       if \<not> ok then throw_arg ''Invalid integer value''
       else case mpz_set_str G (c_str (drop pos s)) base of
         None \<Rightarrow> throw_arg ''Invalid integer value''
       | Some v \<Rightarrow> Ret (if negative then mpz_neg G v else v))"

text \<open>
  \<^verbatim>\<open>php_scylladb_parse_float\<close> and \<^verbatim>\<open>php_scylladb_parse_double\<close>
  differ only in the library call: \<open>conv\<close> is \<^verbatim>\<open>strtof\<close> or
  \<^verbatim>\<open>strtod\<close> on the C string, giving the bits, the end position and
  \<^verbatim>\<open>ERANGE\<close>.
\<close>

definition php_scylladb_parse_float ::
    "(string \<Rightarrow> 32 word \<times> nat \<times> bool) \<Rightarrow> string \<Rightarrow> 32 word outcome" where
  "php_scylladb_parse_float strtof s =
     (case strtof (c_str s) of (number, e, erange) \<Rightarrow>
        if erange then throw_range ''Value is too small or too big for float''
        else if e = 0 then throw_arg ''Invalid float value''
        else if int e \<noteq> zstr_int_len s
        then throw_arg ''Invalid characters were found in value''
        else Ret number)"

definition php_scylladb_parse_double ::
    "(string \<Rightarrow> 64 word \<times> nat \<times> bool) \<Rightarrow> string \<Rightarrow> 64 word outcome" where
  "php_scylladb_parse_double strtod s =
     (case strtod (c_str s) of (number, e, erange) \<Rightarrow>
        if erange then throw_range ''Value is too small or too big for double''
        else if e = 0 then throw_arg ''Invalid double value''
        else if int e \<noteq> zstr_int_len s
        then throw_arg ''Invalid characters were found in value''
        else Ret number)"

section \<open>Decimals as text\<close>

text \<open>The loop that looks for the decimal point and the start of the exponent.\<close>

function scan_decimal :: "string \<Rightarrow> nat \<Rightarrow> nat \<Rightarrow> nat option \<Rightarrow> (nat \<times> nat option) outcome" where
  "scan_decimal s n point dot =
     (if point < n then
        let c = char_at s point in
        if c = CHR ''.'' then
          (if dot \<noteq> None then throw_arg ''Multiple dots in the number''
           else scan_decimal s n (Suc point) (Some point))
        else if c = CHR ''e'' \<or> c = CHR ''E'' then Ret (point, dot)
        else if \<not> c_isxdigit c then throw_arg ''Unrecognized character''
        else scan_decimal s n (Suc point) dot
      else Ret (point, dot))"
  by pat_completeness auto
termination by (relation "measure (\<lambda>(s, n, point, dot). n - point)") auto

declare scan_decimal.simps [simp del]

definition str_slice :: "string \<Rightarrow> nat \<Rightarrow> nat \<Rightarrow> string" where
  "str_slice s i j = take (j - i) (drop i s)"

text \<open>The exponent part: \<open>point\<close> is the index of the \<^verbatim>\<open>e\<close>.\<close>

definition parse_exponent :: "string \<Rightarrow> nat \<Rightarrow> nat \<Rightarrow> int outcome" where
  "parse_exponent s n point =
     (let p1 = point + 1;
          p2 = (if char_at s p1 = CHR ''+'' then p1 + 1 else p1)
      in if n \<le> p2 then throw_arg ''No exponent following e or E in value''
         else if char_at s p2 \<noteq> CHR ''-'' \<and> \<not> c_isdigit (char_at s p2)
         then throw_arg ''Malformed exponent in value''
         else
           let (diff, e, erange) = strtol (c_str (drop p2 s)) 10 in
           if p2 + e \<noteq> n \<or> erange then throw_arg ''Malformed exponent in value''
           else Ret diff)"

text \<open>
  \<^verbatim>\<open>php_scylladb_parse_decimal\<close>. A negative \<^verbatim>\<open>in_len\<close> (a string
  of at least 2 GiB) reaches an allocation of nearly \<^verbatim>\<open>SIZE_MAX\<close> bytes; the
  subtraction of the exponent from the scale is on \<^verbatim>\<open>long\<close>.
\<close>

definition php_scylladb_parse_decimal :: "gmp \<Rightarrow> string \<Rightarrow> (int \<times> int) outcome" where
  "php_scylladb_parse_decimal G s =
     (let n = nat (zstr_int_len s);
          negative = (char_at s 0 = CHR ''-'');
          start = (if char_at s 0 = CHR ''+'' \<or> negative then 1 else 0);
          maybe_octal = (char_at s start = CHR ''0'')
      in if maybe_octal \<and> (char_at s (start + 1) = CHR ''b'' \<or> char_at s (start + 1) = CHR ''x'')
         then bind_outcome (php_scylladb_parse_varint G s) (\<lambda>v. Ret (v, 0))
         else bind_outcome (scan_decimal s n start None) (\<lambda>(point, dot).
           if maybe_octal \<and> dot = None
           then bind_outcome (php_scylladb_parse_varint G s) (\<lambda>v. Ret (v, 0))
           else if zstr_int_len s < 0 then UB
           else
             let digits = (case dot of Some d \<Rightarrow> str_slice s start d @ str_slice s (d + 1) point
                                     | None \<Rightarrow> str_slice s start point);
                 out = (if negative then CHR ''-'' # digits else digits);
                 scale = (case dot of Some d \<Rightarrow> int point - 1 - int d | None \<Rightarrow> 0)
             in if out = [] then throw_arg ''No digits seen in value''
                else case mpz_set_str G out 10 of
                  None \<Rightarrow> throw_arg ''Unable to extract integer part of decimal value''
                | Some v \<Rightarrow>
                    if point < n then
                      bind_outcome (parse_exponent s n point) (\<lambda>diff.
                        if fits_s 64 (scale - diff) then Ret (v, scale - diff) else UB)
                    else Ret (v, scale)))"

definition php_scylladb_format_integer :: "gmp \<Rightarrow> int \<Rightarrow> string" where
  "php_scylladb_format_integer G number = mpz_get_str G 10 number"

text \<open>
  \<^verbatim>\<open>php_scylladb_format_decimal\<close>: the buffer edits are the list operations at the
  same indices; \<open>format_decimal_need\<close> is the size the buffer is reallocated to.
\<close>

definition format_decimal_need :: "int \<Rightarrow> nat \<Rightarrow> nat \<Rightarrow> bool \<Rightarrow> nat" where
  "format_decimal_need point len neg plain =
     (if plain then (if point \<le> 0 then neg + 2 + nat (- point) + len + 1 else len + neg + 2)
      else len + neg + 24)"

definition format_decimal_plain :: "int \<Rightarrow> int \<Rightarrow> bool" where
  "format_decimal_plain scale point \<longleftrightarrow> 0 < scale \<and> -6 \<le> point - 1"

definition php_scylladb_format_decimal :: "gmp \<Rightarrow> int \<Rightarrow> int \<Rightarrow> string outcome" where
  "php_scylladb_format_decimal G number scale =
     (if scale = 0 then Ret (php_scylladb_format_integer G number)
      else
        let negative = (mpz_sgn G number < 0);
            neg = (if negative then 1 else 0);
            tmp = mpz_get_str G 10 number;
            len = length tmp - neg;
            point = int len - scale
        in if \<not> fits_s 64 point \<or> \<not> fits_s 64 (point - 1) then UB
           else if format_decimal_plain scale point then
             if point \<le> 0 then
               Ret ((if negative then ''-'' else []) @ ''0.'' @ replicate (nat (- point)) CHR ''0''
                    @ drop neg tmp)
             else
               let at = nat point + neg in Ret (take at tmp @ ''.'' @ drop at tmp)
           else if len = 1 then Ret (tmp @ ''E'' @ show_int_plus (point - 1))
           else
             let dot = neg + 1
             in Ret (take dot tmp @ ''.'' @ drop dot tmp @ ''E'' @ show_int_plus (point - 1)))"

section \<open>Two's complement\<close>

text \<open>The first byte is read whatever the length, so an empty string is an out-of-bounds read.\<close>

definition import_twos_complement :: "gmp \<Rightarrow> byte list \<Rightarrow> int outcome" where
  "import_twos_complement G data =
     (case data of
        [] \<Rightarrow> UB
      | b # _ \<Rightarrow>
          let number = mpz_import G data in
          Ret (if and b 0x80 = 0x80
               then mpz_sub G number (mpz_mul_2exp G 1 (8 * length data))
               else number))"

text \<open>
  The size computations are on \<^verbatim>\<open>size_t\<close>: with \<open>n = 1\<close> the comparison value
  \<^verbatim>\<open>(8 * (n - 1)) - 1\<close> wraps to \<^verbatim>\<open>SIZE_MAX\<close>.
\<close>

definition export_negative_size :: "gmp \<Rightarrow> int \<Rightarrow> nat" where
  "export_negative_size G number =
     (let n = mpz_sizeinbase G number 2 div 8 + 1 in
      if int (mpz_scan1 G number 0) = cast_u 64 (8 * (int n - 1) - 1) then n - 1 else n)"

definition export_twos_complement :: "gmp \<Rightarrow> int \<Rightarrow> byte list" where
  "export_twos_complement G number =
     (if mpz_sgn G number = 0 then [0]
      else if mpz_sgn G number = -1 then
        let n = export_negative_size G number;
            temp = mpz_add G number (mpz_mul_2exp G 1 (8 * n))
        in mpz_export G temp
      else 0 # mpz_export G number)"

lemma top_bit_iff: "and b 0x80 = (0x80 :: byte) \<longleftrightarrow> 128 \<le> uint b"
proof -
  have "and b 0x80 = (0x80 :: byte) \<longleftrightarrow> bit b 7"
  proof
    assume "and b 0x80 = (0x80 :: byte)"
    then have "bit (and b 0x80) 7" by simp
    then show "bit b 7" by (simp add: bit_and_iff)
  next
    assume "bit b 7"
    moreover have p: "(0x80 :: byte) = push_bit 7 1" by simp
    moreover have seven: "i < 8 \<Longrightarrow> 7 \<le> i \<Longrightarrow> i = 7" for i :: nat by simp
    ultimately show "and b 0x80 = (0x80 :: byte)"
      unfolding p by (intro bit_eqI) (auto simp: bit_and_iff bit_push_bit_iff bit_1_iff
          simp del: push_bit_of_1 dest!: seven)
  qed
  also have "\<dots> \<longleftrightarrow> odd (uint b div 128)" 
    using bit_uint_iff [of b 7] by (simp add: bit_iff_odd [of "uint b"])
  also have "uint b div 128 = (if 128 \<le> uint b then 1 else 0)"
    using uint_bounded [of b] by (auto intro!: int_div_pos_eq [where r = "uint b - 128"])
  finally show ?thesis by (simp split: if_splits)
qed

lemma be_value_top:
  assumes "bs \<noteq> []"
  shows "128 \<le> uint (hd bs) \<longleftrightarrow> 256 ^ length bs \<le> 2 * be_value bs"
proof -
  obtain b cs where bs: "bs = b # cs" using assms by (cases bs) auto
  define p :: int where "p = 256 ^ length cs"
  have r: "0 \<le> be_value cs" "be_value cs < p" using be_value_bounds [of cs] by (auto simp: p_def)
  have "128 \<le> uint b \<Longrightarrow> 128 * p \<le> uint b * p" and "uint b \<le> 127 \<Longrightarrow> uint b * p \<le> 127 * p"
    by (auto intro!: mult_right_mono simp: p_def)
  moreover have "be_value bs = uint b * p + be_value cs" "256 ^ length bs = 256 * p"
    by (simp_all add: bs be_value_Cons p_def)
  ultimately show ?thesis using r unfolding bs list.sel by linarith
qed

lemma import_twos_complement_value:
  assumes "gmp_spec G" and "bs \<noteq> []"
  shows "import_twos_complement G bs =
    Ret (if 256 ^ length bs \<le> 2 * be_value bs then be_value bs - 256 ^ length bs else be_value bs)"
proof -
  obtain b cs where bs: "bs = b # cs" using assms(2) by (cases bs) auto
  have "(256 :: int) ^ length bs = 2 ^ (8 * length bs)" by (simp add: power_mult)
  then show ?thesis
    using be_value_top [OF assms(2)] bs
    by (simp add: import_twos_complement_def top_bit_iff gmp_bytes_simps [OF assms(1)]
        gmp_arith_simps [OF assms(1)] del: power_Suc length_Cons)
qed

lemma mpz_export_length:
  assumes "gmp_spec G" and "m \<noteq> 0" and "256 ^ l \<le> \<bar>m\<bar>" and "\<bar>m\<bar> < 256 ^ Suc l"
  shows "length (mpz_export G m) = Suc l"
proof -
  let ?bs = "mpz_export G m"
  note e = gmp_bytes_simps(2-4) [OF assms(1,2)]
  have "256 ^ (length ?bs - 1) \<le> \<bar>m\<bar>" using be_value_leading [OF e(1,2)] e(3) by simp
  then have "(256::int) ^ (length ?bs - 1) < 256 ^ Suc l" using assms(4) by linarith
  then have "length ?bs - 1 < Suc l" by (rule power_less_imp_less_exp [rotated]) simp
  moreover have "(256::int) ^ l < 256 ^ length ?bs"
    using be_value_bounds [of ?bs] e(3) assms(3) by linarith
  then have "l < length ?bs" by (rule power_less_imp_less_exp [rotated]) simp
  ultimately show ?thesis by linarith
qed

text \<open>The negative numbers for which one byte too few is kept.\<close>

definition export_loses :: "int \<Rightarrow> bool" where
  "export_loses n \<longleftrightarrow> n < 0 \<and> (\<exists>j>0. 2 ^ (8 * j - 1) < \<bar>n\<bar> \<and> \<bar>n\<bar> < 2 ^ (8 * j + 7) \<and>
     2 ^ (8 * j - 1) dvd n \<and> \<not> 2 ^ (8 * j) dvd n)"

lemma exact_power_unique:
  assumes "2 ^ a dvd (n::int)" "\<not> 2 ^ Suc a dvd n" "2 ^ b dvd n" "\<not> 2 ^ Suc b dvd n"
  shows "a = b"
  using assms by (metis Suc_leI linorder_neqE_nat dvd_trans le_imp_power_dvd)

lemma export_negative_size_cases:
  assumes G: "gmp_spec G" and n: "n < 0" and size: "mpz_sizeinbase G n 2 < 2 ^ 64"
  obtains (full) j where "export_negative_size G n = Suc j" "\<bar>n\<bar> < 2 ^ (8 * j + 7)"
      "0 < j \<Longrightarrow> 2 ^ (8 * j - 1) \<le> \<bar>n\<bar>" "0 < j \<Longrightarrow> \<not> (2 ^ (8 * j - 1) dvd n \<and> \<not> 2 ^ (8 * j) dvd n)"
    | (short) j where "export_negative_size G n = j" "0 < j" "\<bar>n\<bar> < 2 ^ (8 * j + 7)"
      "2 ^ (8 * j - 1) \<le> \<bar>n\<bar>" "2 ^ (8 * j - 1) dvd n" "\<not> 2 ^ (8 * j) dvd n"
proof -
  obtain k where k: "mpz_sizeinbase G n 2 = Suc k" "2 ^ k \<le> \<bar>n\<bar>" "\<bar>n\<bar> < 2 ^ Suc k"
    using gmp_sizeinbase_2 [OF G, of n] n by auto
  define j where "j = Suc k div 8"
  define s where "s = mpz_scan1 G n 0"
  note s = gmp_scan1 [OF G, of n, folded s_def]
  have dv: "2 ^ s dvd n" "\<not> 2 ^ Suc s dvd n" using s n by auto
  have upper: "\<bar>n\<bar> < 2 ^ (8 * j + 7)"
    by (rule less_le_trans [OF k(3)]) (rule power_increasing, auto simp: j_def)
  have lower: "2 ^ (8 * j - 1) \<le> \<bar>n\<bar>" if "0 < j"
    by (rule order_trans [OF _ k(2)]) (rule power_increasing, auto simp: j_def)
  have "2 ^ s \<le> \<bar>n\<bar>" using dv(1) n by (intro zdvd_imp_le) auto
  then have "(2::int) ^ s < 2 ^ Suc k" using k(3) by linarith
  then have "s < Suc k" by (rule power_less_imp_less_exp [rotated]) simp
  then have sk: "int s < 2 ^ 64 - 1" using size k(1) by simp
  have hit: "int s = cast_u 64 (8 * int j - 1) \<longleftrightarrow> 0 < j \<and> s = 8 * j - 1"
  proof (cases "j = 0")
    case True
    then show ?thesis using sk by (simp add: cast_u_mod)
  next
    case False
    have "8 * int j - 1 < 2 ^ 64" using size k(1) by (simp add: j_def)
    then have "cast_u 64 (8 * int j - 1) = 8 * int j - 1"
      using False by (simp add: cast_u_mod)
    then show ?thesis using False by auto
  qed
  have exact: "2 ^ (8 * j - 1) dvd n \<and> \<not> 2 ^ (8 * j) dvd n \<longleftrightarrow> s = 8 * j - 1" if "0 < j"
  proof -
    have "Suc (8 * j - 1) = 8 * j" using that by simp
    then show ?thesis using exact_power_unique [OF dv, of "8 * j - 1"] dv by metis
  qed
  have sz: "export_negative_size G n = (if 0 < j \<and> s = 8 * j - 1 then j else Suc j)"
    using hit by (simp add: export_negative_size_def k(1) j_def [symmetric] s_def [symmetric] Let_def)
  show thesis
  proof (cases "0 < j \<and> s = 8 * j - 1")
    case True
    then show thesis using short [of j] sz upper lower exact by simp
  next
    case False
    then show thesis using sz upper lower exact by (intro full [of j]) auto
  qed
qed

lemma twos_complement_full:
  assumes G: "gmp_spec G" and n: "n < 0" and j: "export_negative_size G n = Suc j" "\<bar>n\<bar> < 2 ^ (8 * j + 7)"
  shows "import_twos_complement G (export_twos_complement G n) = Ret n"
proof -
  define p :: int where "p = 256 ^ j"
  define m where "m = n + 256 * p"
  have pw: "(2::int) ^ (8 * j + 7) = 128 * p" "(2::int) ^ (8 * Suc j) = 256 * p" and p1: "1 \<le> p"
    by (simp_all add: p_def power_add power_mult)
  have e: "export_twos_complement G n = mpz_export G m"
    using n by (simp add: export_twos_complement_def gmp_arith_simps [OF G] j(1) pw m_def Let_def
        del: mult_Suc_right)
  have m: "128 * p < m" "m < 256 * p" using j(2) n pw by (auto simp: m_def)
  then have "p \<le> \<bar>m\<bar>" "\<bar>m\<bar> < 256 * p" "m \<noteq> 0" using p1 by auto
  then have len: "length (mpz_export G m) = Suc j" using mpz_export_length [OF G, of m j] by (simp add: p_def)
  have bv: "be_value (mpz_export G m) = m" "mpz_export G m \<noteq> []"
    using gmp_bytes_simps(2,4) [OF G \<open>m \<noteq> 0\<close>] m p1 by auto
  have "import_twos_complement G (mpz_export G m) = Ret (m - 256 * p)"
    using import_twos_complement_value [OF G bv(2)] bv(1) len m by (simp add: p_def)
  then show ?thesis by (simp add: e m_def)
qed

lemma twos_complement_short:
  assumes G: "gmp_spec G" and n: "n < 0" and j: "export_negative_size G n = j" "0 < j"
    and b: "\<bar>n\<bar> < 2 ^ (8 * j + 7)" "2 ^ (8 * j - 1) \<le> \<bar>n\<bar>" "2 ^ (8 * j - 1) dvd n" "\<not> 2 ^ (8 * j) dvd n"
  shows "import_twos_complement G (export_twos_complement G n) = Ret n \<longleftrightarrow> \<bar>n\<bar> = 2 ^ (8 * j - 1)"
proof -
  define h :: int where "h = 2 ^ (8 * j - 1)"
  obtain i where i: "j = Suc i" using j(2) by (cases j) auto
  have pw: "(2::int) ^ (8 * j) = 2 * h" "(2::int) ^ (8 * j + 7) = 256 * h" "256 ^ j = 2 * h" "256 ^ i * 128 = h"
    by (simp_all add: h_def i power_add power_mult)
  have h1: "1 \<le> h" by (simp add: h_def)
  obtain q where q: "\<bar>n\<bar> = q * h" using b(3) by (metis dvdE dvd_abs_iff h_def mult.commute)
  have odd: "odd q" using b(4) q pw(1) by (metis dvd_abs_iff dvd_refl mult_dvd_mono)
  have "q * h < 256 * h" "1 * h \<le> q * h" using b(1,2) q pw by (auto simp: h_def)
  then have qb: "q < 256" "1 \<le> q" using h1 by (auto simp: mult_less_cancel_right mult_le_cancel_right)
  define m where "m = n + 2 * h"
  have e: "export_twos_complement G n = mpz_export G m"
    using n by (simp add: export_twos_complement_def gmp_arith_simps [OF G] j(1) pw m_def Let_def)
  have nq: "n = - q * h" using q n by auto
  have mq: "m = (2 - q) * h" by (simp add: m_def nq algebra_simps)
  have m0: "m \<noteq> 0" using odd h1 by (auto simp: mq)
  note bv = gmp_bytes_simps(2,4) [OF G m0]
  show ?thesis
  proof (cases "q = 1")
    case True
    then have mh: "m = h" "\<bar>n\<bar> = h" using mq q by auto
    then have "length (mpz_export G m) = j"
      using mpz_export_length [OF G m0, of i] h1 pw by (simp add: i)
    then have "import_twos_complement G (mpz_export G m) = Ret (h - 2 * h)"
      using import_twos_complement_value [OF G bv(1)] bv(2) pw mh by simp
    then show ?thesis using mh n by (simp add: e h_def)
  next
    case False
    with odd qb have q3: "3 \<le> q" by presburger
    let ?l = "length (mpz_export G m)"
    have am: "\<bar>m\<bar> = (q - 2) * h" using q3 h1 by (simp add: mq abs_mult)
    have pos: "0 < (q - 2) * h" using q3 h1 by simp
    have "(q - 2) * h - 256 ^ ?l \<noteq> n"
    proof
      assume "(q - 2) * h - 256 ^ ?l = n"
      then have eq: "256 ^ ?l = (q - 1) * 256 ^ j" by (simp add: nq pw algebra_simps)
      then have "(256::int) ^ j < 256 ^ ?l" using q3 by simp
      then have "j < ?l" by (rule power_less_imp_less_exp [rotated]) simp
      then have "(256::int) ^ Suc j \<le> 256 ^ ?l" by (intro power_increasing) auto
      then show False using eq qb h1 pw(3) by (simp add: mult_le_cancel_right)
    qed
    moreover have "(q - 2) * h \<noteq> n" using pos n by linarith
    ultimately have "import_twos_complement G (mpz_export G m) \<noteq> Ret n"
      using import_twos_complement_value [OF G bv(1)] bv(2) am by auto
    moreover have "\<bar>n\<bar> \<noteq> h" using q False h1 by simp
    ultimately show ?thesis by (simp add: e h_def)
  qed
qed

lemma twos_complement_positive:
  assumes G: "gmp_spec G" and n: "0 < n"
  shows "import_twos_complement G (export_twos_complement G n) = Ret n"
proof -
  have e: "export_twos_complement G n = 0 # mpz_export G n"
    using n by (simp add: export_twos_complement_def gmp_arith_simps [OF G])
  have bv: "be_value (0 # mpz_export G n) = n" using gmp_bytes_simps(4) [OF G, of n] n by (simp add: be_value_Cons)
  have "2 * n < 256 ^ length (0 # mpz_export G n)"
    using be_value_bounds [of "mpz_export G n"] bv by (simp add: be_value_Cons)
  then show ?thesis using import_twos_complement_value [OF G, of "0 # mpz_export G n"] bv
    by (simp add: e del: length_Cons)
qed

lemma export_loses_full:
  assumes u: "\<bar>n\<bar> < 2 ^ (8 * j + 7)" and l: "0 < j \<Longrightarrow> 2 ^ (8 * j - 1) \<le> \<bar>n\<bar>"
    and e: "0 < j \<Longrightarrow> \<not> (2 ^ (8 * j - 1) dvd n \<and> \<not> 2 ^ (8 * j) dvd n)"
  shows "\<not> export_loses n"
proof
  assume "export_loses n"
  then obtain i where i: "0 < i" "2 ^ (8 * i - 1) < \<bar>n\<bar>" "\<bar>n\<bar> < 2 ^ (8 * i + 7)"
    "2 ^ (8 * i - 1) dvd n" "\<not> 2 ^ (8 * i) dvd n" by (auto simp: export_loses_def)
  have "(2::int) ^ (8 * i - 1) < 2 ^ (8 * j + 7)" using i(2) u by linarith
  then have "8 * i - 1 < 8 * j + 7" by (rule power_less_imp_less_exp [rotated]) simp
  moreover have "8 * j - 1 < 8 * i + 7" if "0 < j"
  proof -
    have "(2::int) ^ (8 * j - 1) < 2 ^ (8 * i + 7)" using i(3) l [OF that] by linarith
    then show ?thesis by (rule power_less_imp_less_exp [rotated]) simp
  qed
  ultimately have "i = j" using i(1) by (cases "j = 0") auto
  then show False using e i by auto
qed

lemma export_loses_short:
  assumes n: "n < 0" and j: "0 < j"
    and b: "\<bar>n\<bar> < 2 ^ (8 * j + 7)" "2 ^ (8 * j - 1) \<le> \<bar>n\<bar>" "2 ^ (8 * j - 1) dvd n" "\<not> 2 ^ (8 * j) dvd n"
  shows "export_loses n \<longleftrightarrow> \<bar>n\<bar> \<noteq> 2 ^ (8 * j - 1)"
proof -
  have "i = j" if "0 < i" "2 ^ (8 * i - 1) dvd n" "\<not> 2 ^ (8 * i) dvd n" for i
  proof -
    have s: "Suc (8 * i - 1) = 8 * i" "Suc (8 * j - 1) = 8 * j" using j that(1) by simp_all
    have "8 * i - 1 = 8 * j - 1"
      by (rule exact_power_unique [of _ n]) (use s that b(3,4) in simp_all)
    then show ?thesis using j that(1) by simp
  qed
  then show ?thesis using n j b unfolding export_loses_def by (metis less_le)
qed

lemma twos_complement_iff:
  assumes G: "gmp_spec G" and size: "mpz_sizeinbase G n 2 < 2 ^ 64"
  shows "import_twos_complement G (export_twos_complement G n) = Ret n \<longleftrightarrow> \<not> export_loses n"
proof (cases n "0 :: int" rule: linorder_cases)
  case less
  show ?thesis
  proof (cases rule: export_negative_size_cases [OF G less size])
    case (1 j)
    then show ?thesis
      using twos_complement_full [OF G less 1(1,2)] export_loses_full [OF 1(2-4)] by simp
  next
    case (2 j)
    then show ?thesis
      using twos_complement_short [OF G less 2] export_loses_short [OF less 2(2-6)] by simp
  qed
next
  case equal
  then show ?thesis
    by (simp add: export_twos_complement_def import_twos_complement_def gmp_arith_simps [OF G]
        gmp_bytes_simps [OF G] be_value_def export_loses_def)
next
  case greater
  then show ?thesis using twos_complement_positive [OF G] by (simp add: export_loses_def)
qed

text \<open>
  Property C5. Decoding the byte string of a varint gives the number back, except for exactly the
  negative numbers of \<open>export_loses\<close>: those whose lowest set bit is the top bit of the
  second-highest byte and which are not the power of two itself. For these
  \<^verbatim>\<open>mpz_scan1\<close> finds the bit the special case looks for, and the most significant
  byte is dropped.
\<close>

theorem twos_complement_round_trip:
  assumes "gmp_spec G" and "mpz_sizeinbase G n 2 < 2 ^ 64"
  shows "import_twos_complement G (export_twos_complement G n) = Ret n \<longleftrightarrow> \<not> export_loses n"
  using assms by (rule twos_complement_iff)

theorem twos_complement_round_trip_witness:
  "import_twos_complement gmp_ref (export_twos_complement gmp_ref (-129)) = Ret (-129) \<and>
   import_twos_complement gmp_ref (export_twos_complement gmp_ref (-384)) = Ret (-128)"
proof
  have "mpz_sizeinbase gmp_ref (-129) 2 < 2 ^ 64" by code_simp
  moreover have "\<not> export_loses (-129)"
    by (rule export_loses_full [of _ 1]) simp_all
  ultimately show "import_twos_complement gmp_ref (export_twos_complement gmp_ref (-129)) = Ret (-129)"
    using twos_complement_round_trip [OF gmp_ref_spec] by blast
  show "import_twos_complement gmp_ref (export_twos_complement gmp_ref (-384)) = Ret (-128)"
    by code_simp
qed

section \<open>Integer literals\<close>

text \<open>
  The reading the integer parsers are measured against: leading white space, a sign, an optional
  lower-case binary prefix, then a numeral as \<^verbatim>\<open>strtoul\<close> resolves it, with nothing
  after its last digit.
\<close>

definition lit_parts :: "string \<Rightarrow> bool \<times> nat \<times> string" where
  "lit_parts s =
     (let t = dropWhile c_isspace s;
          c = char_at t 0;
          u = (if c = CHR ''+'' \<or> c = CHR ''-'' then drop 1 t else t);
          binary = (char_at u 0 = CHR ''0'' \<and> char_at u 1 = CHR ''b'')
      in (c = CHR ''-'', if binary then 2 else 0, if binary then drop 2 u else u))"

definition int_literal :: "string \<Rightarrow> int option" where
  "int_literal s =
     (case lit_parts s of (negative, base, u) \<Rightarrow>
        if \<not> c_isdigit (char_at u 0) then None
        else case strto_prefix base u of (b, p) \<Rightarrow>
          if list_all (base_digit b) (drop p u)
          then Some (if negative then - int (digits_value b (drop p u)) else int (digits_value b (drop p u)))
          else None)"

lemma char_at_length: "char_at s i \<noteq> NUL \<Longrightarrow> i < length s"
  by (auto simp: char_at_def split: if_splits)

lemma zstr_int_len_small: "length s < 2 ^ 31 \<Longrightarrow> zstr_int_len s = int (length s)"
  by (simp add: zstr_int_len_def cast_s_id)

lemma prepare_lit:
  assumes s: "NUL \<notin> set s" "length s < 2 ^ 31" and l: "lit_parts s = (negative, base, u)"
  obtains pos where "prepare_string_conversion s = Ret (c_isdigit (char_at u 0), pos, negative, base)"
    "drop pos s = u" "pos \<le> length s"
proof -
  define p0 where "p0 = length (takeWhile c_isspace s)"
  define c where "c = char_at s p0"
  define p1 where "p1 = (if c = CHR ''+'' \<or> c = CHR ''-'' then p0 + 1 else p0)"
  define binary where "binary \<longleftrightarrow> char_at s p1 = CHR ''0'' \<and> char_at s (p1 + 1) = CHR ''b''"
  define p2 where "p2 = (if binary then p1 + 2 else p1)"
  have n: "zstr_int_len s = int (length s)" "strlen s = length s" "take (length s) s = s"
    using s by (simp_all add: zstr_int_len_small strlen_eq_iff)
  have t: "dropWhile c_isspace s = drop p0 s" by (simp add: p0_def dropWhile_eq_drop)
  have b0: "p0 \<le> length s" by (simp add: p0_def length_takeWhile_le)
  have sg: "p0 < length s \<and> (c = CHR ''+'' \<or> c = CHR ''-'') \<longleftrightarrow> c = CHR ''+'' \<or> c = CHR ''-''"
    using char_at_length [of s p0] by (auto simp: c_def)
  have b1: "p1 \<le> length s" using b0 sg by (auto simp: p1_def)
  have bin: "p1 + 1 < length s \<and> char_at s p1 = CHR ''0'' \<and> char_at s (p1 + 1) = CHR ''b'' \<longleftrightarrow> binary"
    using char_at_length [of s "p1 + 1"] by (auto simp: binary_def)
  have b2: "p2 \<le> length s" using b1 bin by (auto simp: p2_def)
  have u: "negative = (c = CHR ''-'')" "base = (if binary then 2 else 0)" "u = drop p2 s"
    using l by (auto simp: lit_parts_def Let_def t c_def [symmetric] p1_def p2_def binary_def
        add.commute split: if_splits)
  have dig: "p2 < length s \<and> c_isdigit (char_at s p2) \<longleftrightarrow> c_isdigit (char_at u 0)"
    using char_at_length [of s p2] c_isdigit_not(2) by (auto simp: u)
  have "prepare_string_conversion s = Ret (c_isdigit (char_at u 0), p2, negative, base)"
    unfolding prepare_string_conversion_def n Let_def p0_def [symmetric] c_def [symmetric] nat_int sg
      p1_def [symmetric] bin p2_def [symmetric] dig u(2) u(1) by auto
  then show thesis using that u(3) b2 by simp
qed

lemma strto_prefix_bound:
  assumes "c_isdigit (char_at u 0)" and "strto_prefix base u = (b, p)"
  shows "p < length u"
proof -
  have "u \<noteq> []" using c_isdigit_not(2) [OF assms(1)] by auto
  moreover have "\<not> base_digit k NUL" for k
    by (simp add: base_digit_def digit_val_def c_isdigit_def c_islower_def c_isupper_def code_def)
  then have "base_digit k (char_at u 2) \<Longrightarrow> 2 < length u" for k
    using char_at_length [of u 2] by metis
  ultimately show ?thesis using assms(2) by (auto simp: strto_prefix_def Let_def split: if_splits)
qed

lemma strto_scan_literal:
  assumes d: "c_isdigit (char_at u 0)" and bp: "strto_prefix base u = (b, p)"
  obtains m e where "strto_scan u base = (False, m, e)"
    "e = length u \<longleftrightarrow> list_all (base_digit b) (drop p u)"
    "e = length u \<Longrightarrow> m = digits_value b (drop p u)"
proof -
  note c = c_isdigit_not(1,3,4) [OF d]
  have len: "p < length u" by (rule strto_prefix_bound [OF d bp])
  define ds where "ds = takeWhile (base_digit b) (drop p u)"
  have all: "ds = drop p u \<longleftrightarrow> list_all (base_digit b) (drop p u)"
    by (simp add: ds_def takeWhile_eq_all_conv list_all_iff)
  have "length ds = length (drop p u) \<longleftrightarrow> ds = drop p u"
    unfolding ds_def by (metis takeWhile_eq_take take_all_iff order_refl length_take min.absorb_iff2 le_refl)
  then have "p + length ds = length u \<longleftrightarrow> list_all (base_digit b) (drop p u)"
    using len all by auto
  moreover have "ds = [] \<Longrightarrow> \<not> list_all (base_digit b) (drop p u)"
    using all len by auto
  moreover have "strto_scan u base = (False, if ds = [] then 0 else digits_value b ds, if ds = [] then 0 else p + length ds)"
    using strto_scan_unsigned [OF c] by (simp add: bp ds_def [symmetric] Let_def)
  moreover have "u \<noteq> []" using len by auto
  ultimately show thesis
    using all len that [of "digits_value b ds" "p + length ds"] that [of 0 0] by (cases "ds = []") auto
qed

lemma drop_keeps_NUL:
  assumes "NUL \<in> set w" and "\<And>i. i < k \<Longrightarrow> char_at w i \<noteq> NUL"
  shows "NUL \<in> set (drop k w)"
proof -
  have "NUL \<notin> set (take k w)"
    using assms(2) by (force simp: in_set_conv_nth char_at_def)
  then show ?thesis using assms(1) by (metis Un_iff append_take_drop_id set_append)
qed

lemma int_literal_NUL:
  assumes "NUL \<in> set s"
  shows "int_literal s = None"
proof -
  have nd: "\<not> base_digit k NUL" for k
    by (simp add: base_digit_def digit_val_def c_isdigit_def c_islower_def c_isupper_def code_def)
  have "\<not> c_isspace NUL" by (simp add: c_isspace_def code_def)
  then have t: "NUL \<in> set (dropWhile c_isspace s)"
    using assms by (metis Un_iff set_append set_takeWhileD takeWhile_dropWhile_id)
  obtain neg base u where l: "lit_parts s = (neg, base, u)" by (cases "lit_parts s")
  define v where "v = (let t = dropWhile c_isspace s; c = char_at t 0
    in if c = CHR ''+'' \<or> c = CHR ''-'' then drop 1 t else t)"
  have "NUL \<in> set v" using t by (auto simp: v_def Let_def intro!: drop_keeps_NUL [of _ 1, simplified])
  moreover have "u = (if char_at v 0 = CHR ''0'' \<and> char_at v 1 = CHR ''b'' then drop 2 v else v)"
    using l by (auto simp: lit_parts_def v_def Let_def)
  ultimately have "NUL \<in> set u"
    by (auto simp: less_2_cases_iff intro!: drop_keeps_NUL [of v 2])
  moreover obtain b p where bp: "strto_prefix base u = (b, p)" by (cases "strto_prefix base u")
  have "i < p \<Longrightarrow> char_at u i \<noteq> NUL" for i
    using bp by (auto simp: strto_prefix_def Let_def less_2_cases_iff split: if_splits)
  ultimately have "NUL \<in> set (drop p u)" by (intro drop_keeps_NUL) auto
  then show ?thesis using nd by (auto simp: int_literal_def l bp list_all_iff)
qed

lemma literal_shape:
  assumes "NUL \<notin> set s" and "length s < 2 ^ 31"
  obtains (none) pos negative base where
      "prepare_string_conversion s = Ret (False, pos, negative, base)" "int_literal s = None"
    | (digits) pos negative base m e where
      "prepare_string_conversion s = Ret (True, pos, negative, base)"
      "strtoul (c_str (drop pos s)) base = (if 2 ^ 64 \<le> m then (2 ^ 64 - 1, e, True) else (int m, e, False))"
      "int (pos + e) = zstr_int_len s \<longleftrightarrow> int_literal s \<noteq> None"
      "int_literal s \<noteq> None \<Longrightarrow> 0 < e \<and> int_literal s = Some (if negative then - int m else int m)"
proof -
  obtain negative base u where l: "lit_parts s = (negative, base, u)" by (cases "lit_parts s")
  obtain pos where prep: "prepare_string_conversion s = Ret (c_isdigit (char_at u 0), pos, negative, base)"
    and u: "drop pos s = u" "pos \<le> length s" using prepare_lit [OF assms l] .
  show thesis
  proof (cases "c_isdigit (char_at u 0)")
    case False
    then show thesis using none [of pos] prep by (simp add: int_literal_def l)
  next
    case True
    obtain b p where bp: "strto_prefix base u = (b, p)" by (cases "strto_prefix base u")
    obtain m e where me: "strto_scan u base = (False, m, e)"
      "e = length u \<longleftrightarrow> list_all (base_digit b) (drop p u)" "e = length u \<Longrightarrow> m = digits_value b (drop p u)"
      using strto_scan_literal [OF True bp] by metis
    have "c_str u = u" using assms(1) u(1) by (auto simp: c_str_id_iff dest: in_set_dropD)
    then have st: "strtoul (c_str (drop pos s)) base =
        (if 2 ^ 64 \<le> m then (2 ^ 64 - 1, e, True) else (int m, e, False))"
      by (simp add: strtoul_def u(1) me(1))
    have len: "int (pos + e) = zstr_int_len s \<longleftrightarrow> e = length u"
      using u assms(2) by (auto simp: zstr_int_len_small)
    have lit: "int_literal s =
        (if e = length u then Some (if negative then - int m else int m) else None)"
      using me(2,3) by (auto simp: int_literal_def l True bp)
    have "u \<noteq> []" using c_isdigit_not(2) [OF True] by auto
    then show thesis using digits [OF _ st] prep True len lit by (auto split: if_splits)
  qed
qed

lemma prepare_NUL:
  assumes "NUL \<in> set s" and "length s < 2 ^ 31"
  shows "\<exists>e. prepare_string_conversion s = Throw e"
  using assms strlen_eq_iff [of s] by (simp add: prepare_string_conversion_def zstr_int_len_small)

lemma parse_bigint_iff:
  assumes "length s < 2 ^ 31"
  shows "php_scylladb_parse_bigint s = Ret v \<longleftrightarrow> int_literal s = Some v \<and> fits_s 64 v"
proof (cases "NUL \<in> set s")
  case True
  then show ?thesis using int_literal_NUL prepare_NUL [OF _ assms]
    by (auto simp: php_scylladb_parse_bigint_def)
next
  case False
  show ?thesis
  proof (cases rule: literal_shape [OF False assms])
    case (1 pos negative base)
    then show ?thesis by (simp add: php_scylladb_parse_bigint_def)
  next
    case (2 pos negative base m e)
    then show ?thesis
      by (cases "int_literal s") (auto simp: php_scylladb_parse_bigint_def Let_def)
  qed
qed

lemma parse_int_iff:
  assumes "length s < 2 ^ 31"
  shows "php_scylladb_parse_int s = Ret (Some v) \<longleftrightarrow>
    (\<exists>w. int_literal s = Some w \<and> \<bar>w\<bar> < 2 ^ 64 \<and> v = sgn w * (\<bar>w\<bar> mod 2 ^ 32) \<and> fits_s 32 v)"
proof (cases "NUL \<in> set s")
  case True
  then show ?thesis using int_literal_NUL prepare_NUL [OF _ assms]
    by (auto simp: php_scylladb_parse_int_def)
next
  case False
  show ?thesis
  proof (cases rule: literal_shape [OF False assms])
    case (1 pos negative base)
    then show ?thesis by (simp add: php_scylladb_parse_int_def)
  next
    case (2 pos negative base m e)
    have sg: "sgn (int m) * (int m mod 4294967296) = int m mod 4294967296"
      by (cases "m = 0") auto
    have "2 ^ 64 \<le> m \<longleftrightarrow> \<not> int m < 18446744073709551616" by auto
    with 2 sg show ?thesis
      by (cases "int_literal s")
        (auto simp: php_scylladb_parse_int_def Let_def cast_u_mod)
  qed
qed

text \<open>
  Property C18. \<^verbatim>\<open>php_scylladb_parse_bigint\<close> accepts exactly the integer literals whose
  value fits 64 bits, and returns that value. \<^verbatim>\<open>php_scylladb_parse_int\<close> reads the magnitude modulo \<open>2 ^ 32\<close>:
  the result of \<^verbatim>\<open>strtoul\<close> is cast to 32 bits before any range check, so a literal
  outside 32 bits is accepted whenever its low 32 bits happen to be in range.
\<close>

theorem parse_integer_literals:
  assumes "length s < 2 ^ 31"
  shows "(php_scylladb_parse_bigint s = Ret v \<longleftrightarrow> int_literal s = Some v \<and> fits_s 64 v) \<and>
    (php_scylladb_parse_int s = Ret (Some u) \<longleftrightarrow>
      (\<exists>w. int_literal s = Some w \<and> \<bar>w\<bar> < 2 ^ 64 \<and> u = sgn w * (\<bar>w\<bar> mod 2 ^ 32) \<and> fits_s 32 u))"
  using parse_bigint_iff [OF assms] parse_int_iff [OF assms] by blast

theorem parse_integer_literals_witness:
  "php_scylladb_parse_bigint ''4294967297'' = Ret 4294967297 \<and> php_scylladb_parse_int ''4294967297'' = Ret (Some 1) \<and>
   int_literal ''4294967297'' = Some 4294967297"
proof -
  have l: "length ''4294967297'' < 2 ^ 31" by simp
  have "int_literal ''4294967297'' = Some 4294967297" by code_simp
  then show ?thesis using parse_integer_literals [OF l, of 4294967297 1] by simp
qed

lemma all_digits_at: "list_all c_isdigit ds \<Longrightarrow> c_isdigit (char_at ds i) \<or> char_at ds i = NUL"
  by (auto simp: char_at_def list_all_length)

lemma all_digits_at_not:
  assumes "list_all c_isdigit ds"
  shows "char_at ds i \<noteq> CHR ''x''" "char_at ds i \<noteq> CHR ''X''" "char_at ds i \<noteq> CHR ''b''" "char_at ds i \<noteq> CHR ''B''"
    "char_at ds i \<noteq> CHR ''+''" "char_at ds i \<noteq> CHR ''-''" "\<not> c_isspace (char_at ds i)"
  using all_digits_at [OF assms, of i] c_isdigit_not by (auto simp: c_isspace_def code_def)

lemma lit_parts_digits:
  assumes "list_all c_isdigit ds"
  shows "lit_parts ds = (False, 0, ds)" and "lit_parts (CHR ''-'' # ds) = (True, 0, ds)"
proof -
  have "dropWhile c_isspace ds = ds" using all_digits_at_not(7) [OF assms, of 0] by (cases ds) auto
  then show "lit_parts ds = (False, 0, ds)" using all_digits_at_not [OF assms] by (simp add: lit_parts_def Let_def)
  have "\<not> c_isspace CHR ''-''" by (simp add: c_isspace_def code_def)
  then show "lit_parts (CHR ''-'' # ds) = (True, 0, ds)"
    using all_digits_at_not [OF assms] by (simp add: lit_parts_def Let_def)
qed

lemma strto_prefix_show: "strto_prefix 0 (show_nat n) = (if n = 0 then 8 else 10, 0)"
proof -
  note d = all_digits_at_not [OF show_nat_digits [of n]]
  have "char_at (show_nat n) 0 = CHR ''0'' \<longleftrightarrow> n = 0"
    using show_nat_leading [of n] by (cases "show_nat n"; cases "n = 0") auto
  then show ?thesis using d by (simp add: strto_prefix_def Let_def)
qed

lemma int_literal_show: "int_literal (show_int v) = Some v"
proof -
  have z: "base_digit 8 CHR ''0''" "dval CHR ''0'' = 0" by code_simp+
  have h: "c_isdigit (char_at (show_nat n) 0)" for n
    using show_nat_hd [of n] show_nat_not_Nil [of n] by (cases "show_nat n") auto
  have n: "list_all (base_digit (if n = 0 then 8 else 10)) (show_nat n)"
      "digits_value (if n = 0 then 8 else 10) (show_nat n) = n" for n
    using show_nat_base_digits [of n] z by (cases "n = 0"; simp add: digits_value_Cons)+
  show ?thesis
    using lit_parts_digits [OF show_nat_digits, of "nat v"] lit_parts_digits [OF show_nat_digits, of "nat (- v)"]
      h [of "nat v"] h [of "nat (- v)"] n [of "nat v"] n [of "nat (- v)"]
    by (auto simp: int_literal_def show_int_def strto_prefix_show split: if_splits)
qed

lemma show_int_length: "fits_s 64 v \<Longrightarrow> length (show_int v) < 2 ^ 31"
proof -
  assume "fits_s 64 v"
  then have "nat \<bar>v\<bar> < 10 ^ 20" by auto
  then have "length (show_nat (nat \<bar>v\<bar>)) \<le> 20" by (rule show_nat_length_less) simp
  then show ?thesis by (auto simp: show_int_def)
qed

text \<open>
  \<^verbatim>\<open>mpz_set_str\<close> reads the same numerals, except that a binary prefix is not
  resolved a second time after \<^verbatim>\<open>0b\<close> has been skipped.
\<close>

definition double_binary :: "string \<Rightarrow> bool" where
  "double_binary s =
     (case lit_parts s of (_, base, u) \<Rightarrow>
        base = 2 \<and> char_at u 0 = CHR ''0'' \<and> (char_at u 1 = CHR ''b'' \<or> char_at u 1 = CHR ''B''))"

lemma set_str_base0D:
  assumes "set_str_base0 G"
  shows "x \<in> {CHR ''x'', CHR ''X''} \<Longrightarrow> base_digit 16 (char_at ds 0) \<Longrightarrow>
      mpz_set_str G (CHR ''0'' # x # ds) 0 = mpz_set_str G ds 16"
    and "x \<in> {CHR ''b'', CHR ''B''} \<Longrightarrow> base_digit 2 (char_at ds 0) \<Longrightarrow>
      mpz_set_str G (CHR ''0'' # x # ds) 0 = mpz_set_str G ds 2"
    and "char_at ds 0 \<notin> {CHR ''x'', CHR ''X'', CHR ''b'', CHR ''B''} \<Longrightarrow>
      mpz_set_str G (CHR ''0'' # ds) 0 = mpz_set_str G (CHR ''0'' # ds) 8"
    and "c_isdigit c \<Longrightarrow> c \<noteq> CHR ''0'' \<Longrightarrow> mpz_set_str G (c # ds) 0 = mpz_set_str G (c # ds) 10"
  using assms unfolding set_str_base0_def by simp_all

lemma set_str_literal:
  assumes G: "gmp_spec G" and d: "c_isdigit (char_at u 0)" and base: "base = 0 \<or> base = 2"
    and pre: "strto_prefix base u = (b, p)" and nb: "base = 2 \<Longrightarrow> p = 0"
    and all: "list_all (base_digit b) (drop p u)"
  shows "mpz_set_str G u base = Some (int (digits_value b (drop p u)))"
proof -
  have len: "p < length u" by (rule strto_prefix_bound [OF d pre])
  then obtain c v where u: "u = c # v" by (cases u) auto
  have sp: "set_str_digits G" "set_str_base0 G" using G by (simp_all add: gmp_spec_def gmp_text_def)
  have dig: "mpz_set_str G (drop p u) b = Some (int (digits_value b (drop p u)))" if "2 \<le> b" "b \<le> 36"
    using sp(1) all len that by (simp add: set_str_digits_def)
  have bp: "base = 2 \<and> b = 2 \<and> p = 0 \<or> base = 0 \<and>
     (p = 2 \<and> c = CHR ''0'' \<and> (b = 16 \<and> char_at u 1 \<in> {CHR ''x'', CHR ''X''} \<and> base_digit 16 (char_at u 2) \<or>
         b = 2 \<and> char_at u 1 \<in> {CHR ''b'', CHR ''B''} \<and> base_digit 2 (char_at u 2)) \<or>
      p = 0 \<and> (b = 8 \<and> c = CHR ''0'' \<or> b = 10 \<and> c \<noteq> CHR ''0''))"
    using pre base nb by (auto simp: strto_prefix_def Let_def u split: if_splits)
  show ?thesis
  proof (cases "base = 2")
    case True
    then show ?thesis using bp dig by simp
  next
    case False
    then have b0: "base = 0" using base by simp
    show ?thesis
    proof (cases "p = 2")
      case True
      then obtain x w where v: "v = x # w" using len u by (cases v) auto
      have c: "c = CHR ''0''" and x: "b = 16 \<and> x \<in> {CHR ''x'', CHR ''X''} \<and> base_digit 16 (char_at w 0) \<or>
          b = 2 \<and> x \<in> {CHR ''b'', CHR ''B''} \<and> base_digit 2 (char_at w 0)"
        using bp True b0 by (auto simp: u v numeral_2_eq_2)
      have "mpz_set_str G u 0 = mpz_set_str G w b" using x
      proof
        assume h: "b = 16 \<and> x \<in> {CHR ''x'', CHR ''X''} \<and> base_digit 16 (char_at w 0)"
        then show ?thesis using set_str_base0D(1) [OF sp(2), of x w] by (simp add: u v c)
      next
        assume h: "b = 2 \<and> x \<in> {CHR ''b'', CHR ''B''} \<and> base_digit 2 (char_at w 0)"
        then show ?thesis using set_str_base0D(2) [OF sp(2), of x w] by (simp add: u v c)
      qed
      then show ?thesis using bp dig True b0 by (auto simp: u v)
    next
      case False
      then have p0: "p = 0" and b: "b = 8 \<and> c = CHR ''0'' \<or> b = 10 \<and> c \<noteq> CHR ''0''" using bp b0 by auto
      have nx: "char_at v 0 \<notin> {CHR ''x'', CHR ''X'', CHR ''b'', CHR ''B''}" if "b = 8"
        using all that p0 by (cases v) (auto simp: u base_digit_def digit_val_def c_isdigit_def c_islower_def c_isupper_def code_def)
      have "mpz_set_str G u 0 = mpz_set_str G u b"
        using b nx d set_str_base0D(3,4) [OF sp(2)] unfolding u char_at_Cons by metis
      then show ?thesis using dig b b0 p0 by auto
    qed
  qed
qed

lemma parse_varint_literal:
  assumes G: "gmp_spec G" and len: "length s < 2 ^ 31" and lit: "int_literal s = Some v"
    and nb: "\<not> double_binary s"
  shows "php_scylladb_parse_varint G s = Ret v"
proof -
  have nul: "NUL \<notin> set s" using int_literal_NUL lit by force
  obtain negative base u where l: "lit_parts s = (negative, base, u)" by (cases "lit_parts s")
  obtain pos where prep: "prepare_string_conversion s = Ret (c_isdigit (char_at u 0), pos, negative, base)"
    and u: "drop pos s = u" using prepare_lit [OF nul len l] by metis
  obtain b p where pre: "strto_prefix base u = (b, p)" by (cases "strto_prefix base u")
  have d: "c_isdigit (char_at u 0)" and all: "list_all (base_digit b) (drop p u)"
    and v: "v = (if negative then - int (digits_value b (drop p u)) else int (digits_value b (drop p u)))"
    using lit by (auto simp: int_literal_def l pre split: if_splits)
  have base: "base = 0 \<or> base = 2" using l by (auto simp: lit_parts_def Let_def split: if_splits)
  have "base = 2 \<Longrightarrow> p = 0" using pre nb by (auto simp: double_binary_def l strto_prefix_def Let_def split: if_splits)
  then have "mpz_set_str G u base = Some (int (digits_value b (drop p u)))"
    using set_str_literal [OF G d base pre _ all] by blast
  moreover have "c_str u = u" using nul u by (auto simp: c_str_id_iff dest: in_set_dropD)
  ultimately show ?thesis
    by (simp add: php_scylladb_parse_varint_def prep d u v gmp_arith_simps [OF G])
qed

lemma parse_varint_show:
  assumes G: "gmp_spec G" and "length (show_int v) < 2 ^ 31"
  shows "php_scylladb_parse_varint G (show_int v) = Ret v"
proof (rule parse_varint_literal [OF G assms(2) int_literal_show])
  show "\<not> double_binary (show_int v)"
    using lit_parts_digits [OF show_nat_digits]
    by (auto simp: double_binary_def show_int_def split: if_splits)
qed

section \<open>Decimal round trip\<close>

lemma c_isdigit_xdigit: "c_isdigit c \<Longrightarrow> c_isxdigit c"
  by (simp add: c_isxdigit_def)

lemma scan_decimal_digits:
  assumes "list_all c_isdigit xs"
  shows "scan_decimal (P @ xs @ R) (length P + length xs + k) (length P) dot =
    scan_decimal (P @ xs @ R) (length P + length xs + k) (length P + length xs) dot"
  using assms
proof (induction xs arbitrary: P)
  case (Cons x xs)
  have x: "char_at (P @ x # xs @ R) (length P) = x"
    using char_at_append_right [of P "(x # xs) @ R" 0] by simp
  have "scan_decimal (P @ (x # xs) @ R) (length P + length (x # xs) + k) (length P) dot =
      scan_decimal (P @ (x # xs) @ R) (length P + length (x # xs) + k) (Suc (length P)) dot"
    using Cons.prems c_isdigit_not [of x] c_isdigit_xdigit [of x]
    by (subst scan_decimal.simps) (simp add: x Let_def)
  also have "\<dots> = scan_decimal (P @ (x # xs) @ R) (length P + length (x # xs) + k) (length P + length (x # xs)) dot"
    using Cons.IH [of "P @ [x]"] Cons.prems by simp
  finally show ?case .
qed simp

text \<open>What the formatter writes after the sign: digits, perhaps a point and digits, perhaps an exponent.\<close>

definition decimal_tail :: "int option \<Rightarrow> string" where
  "decimal_tail e = (case e of None \<Rightarrow> [] | Some x \<Rightarrow> ''E'' @ show_int_plus x)"

definition decimal_fraction :: "string option \<Rightarrow> string" where
  "decimal_fraction f = (case f of None \<Rightarrow> [] | Some ds \<Rightarrow> ''.'' @ ds)"

lemma scan_decimal_tail:
  "scan_decimal (Q @ decimal_tail e) (length (Q @ decimal_tail e)) (length Q) dot = Ret (length Q, dot)"
proof (cases e)
  case None
  then show ?thesis by (subst scan_decimal.simps) (simp add: decimal_tail_def)
next
  case (Some x)
  have "char_at (Q @ decimal_tail e) (length Q) = CHR ''E''"
    using char_at_append_right [of Q "decimal_tail e" 0] by (simp add: Some decimal_tail_def)
  then show ?thesis by (subst scan_decimal.simps) (simp add: Let_def Some decimal_tail_def)
qed

lemma scan_decimal_mantissa:
  assumes I: "list_all c_isdigit I" and F: "\<And>ds. f = Some ds \<Longrightarrow> list_all c_isdigit ds"
    and s: "s = P @ I @ decimal_fraction f @ decimal_tail e"
  shows "scan_decimal s (length s) (length P) None =
    Ret (length (P @ I @ decimal_fraction f), if f = None then None else Some (length (P @ I)))"
proof (cases f)
  case None
  then show ?thesis
    using scan_decimal_digits [OF I, of P "decimal_tail e" "length (decimal_tail e)" None]
      scan_decimal_tail [of "P @ I" e None]
    by (simp add: s decimal_fraction_def add.assoc)
next
  case (Some ds)
  have dot: "char_at s (length P + length I) = CHR ''.''"
    using char_at_append_right [of "P @ I" "decimal_fraction f @ decimal_tail e" 0]
    by (simp add: s Some decimal_fraction_def)
  have "scan_decimal s (length s) (length P) None = scan_decimal s (length s) (length P + length I) None"
    using scan_decimal_digits [OF I, of P "decimal_fraction f @ decimal_tail e"
        "length (decimal_fraction f @ decimal_tail e)" None] by (simp add: s add.assoc)
  also have "\<dots> = scan_decimal s (length s) (length P + length I + 1) (Some (length P + length I))"
    by (subst scan_decimal.simps) (simp add: dot Let_def, simp add: s Some decimal_fraction_def)
  also have "\<dots> = scan_decimal s (length s) (length P + length I + 1 + length ds) (Some (length P + length I))"
    using scan_decimal_digits [OF F [OF Some], of "P @ I @ ''.''" "decimal_tail e" "length (decimal_tail e)"]
    by (simp add: s Some decimal_fraction_def add.assoc)
  also have "\<dots> = Ret (length P + length I + 1 + length ds, Some (length P + length I))"
    using scan_decimal_tail [of "P @ I @ ''.'' @ ds" e] by (simp add: s Some decimal_fraction_def add.assoc)
  finally show ?thesis by (simp add: Some decimal_fraction_def)
qed

lemma strtol_show_nat:
  assumes "fits_s 64 (int m)"
  shows "strtol (show_nat m) 10 = (int m, length (show_nat m), False)"
    and "strtol (CHR ''-'' # show_nat m) 10 = (- int m, Suc (length (show_nat m)), False)"
proof -
  have d: "\<not> c_isspace (char_at (show_nat m) 0)" "char_at (show_nat m) 0 \<noteq> CHR ''-''"
      "char_at (show_nat m) 0 \<noteq> CHR ''+''"
    using all_digits_at_not [OF show_nat_digits [of m], of 0] by auto
  have tw: "takeWhile (base_digit 10) (show_nat m) = show_nat m"
    using show_nat_base_digits [of m] by (simp add: takeWhile_eq_all_conv list_all_iff)
  have scan: "strto_scan (show_nat m) 10 = (False, m, length (show_nat m))"
    by (simp add: strto_scan_unsigned [OF d] strto_prefix_def tw Let_def del: takeWhile_eq_all_conv)
  then have "strto_scan (CHR ''-'' # show_nat m) 10 = (True, m, Suc (length (show_nat m)))"
    using strto_scan_sign [OF d, of "CHR ''-''" 10] by simp
  with scan assms show "strtol (show_nat m) 10 = (int m, length (show_nat m), False)"
    "strtol (CHR ''-'' # show_nat m) 10 = (- int m, Suc (length (show_nat m)), False)"
    by (simp_all add: strtol_def Let_def)
qed

lemma parse_exponent_show:
  assumes e: "fits_s 64 x" "fits_s 64 (- x)" and s: "s = Q @ decimal_tail (Some x)"
  shows "parse_exponent s (length s) (length Q) = Ret x"
proof -
  let ?ds = "show_nat (nat \<bar>x\<bar>)"
  define c where "c = (if x < 0 then CHR ''-'' else CHR ''+'')"
  have s': "s = (Q @ ''E'') @ c # ?ds" by (simp add: s decimal_tail_def show_int_plus_def c_def)
  have c: "char_at s (length Q + 1) = c"
    using char_at_append_right [of "Q @ ''E''" "c # ?ds" 0] by (simp add: s')
  have d: "char_at s (length Q + 2) = hd ?ds"
    using char_at_append_right [of "Q @ [CHR ''E'', c]" ?ds 0] by (cases ?ds) (simp_all add: s')
  have nul: "c_str ?ds = ?ds" "c_str (CHR ''-'' # ?ds) = CHR ''-'' # ?ds"
    using show_nat_NUL [of "nat \<bar>x\<bar>"] by (simp_all add: c_str_id_iff)
  have dr: "drop (length Q + 1) s = c # ?ds" "drop (length Q + 2) s = ?ds"
    by (simp_all add: s')
  have fit: "fits_s 64 (int (nat \<bar>x\<bar>))" using e by auto
  have len: "length s = length Q + 2 + length ?ds" "0 < length ?ds" by (simp_all add: s')
  show ?thesis
  proof (cases "x < 0")
    case True
    then have "c = CHR ''-''" by (simp add: c_def)
    then show ?thesis
      using c dr nul strtol_show_nat(2) [OF fit] len True by (simp add: parse_exponent_def Let_def)
  next
    case False
    then have "c = CHR ''+''" by (simp add: c_def)
    then show ?thesis
      using c d dr nul strtol_show_nat(1) [OF fit] len False show_nat_hd [of "nat \<bar>x\<bar>"]
      by (simp add: parse_exponent_def Let_def)
  qed
qed
lemma mpz_set_str_10:
  assumes "gmp_spec G" and "ds \<noteq> []" and "list_all c_isdigit ds"
  shows "mpz_set_str G ds 10 = Some (int (digits_value 10 ds))"
    and "mpz_set_str G (CHR ''-'' # ds) 10 = Some (- int (digits_value 10 ds))"
proof -
  have "list_all (base_digit 10) ds" using assms(3) by (simp add: list_all_iff base_digit_10)
  then show "mpz_set_str G ds 10 = Some (int (digits_value 10 ds))"
    "mpz_set_str G (CHR ''-'' # ds) 10 = Some (- int (digits_value 10 ds))"
    using assms(1,2) by (simp_all add: gmp_spec_def gmp_text_def set_str_digits_def)
qed

lemma decimal_rest_first:
  assumes "list_all c_isdigit I"
  shows "char_at (I @ decimal_fraction f @ decimal_tail e) 0 \<noteq> CHR ''b''"
    and "char_at (I @ decimal_fraction f @ decimal_tail e) 0 \<noteq> CHR ''x''"
  using assms c_isdigit_not(8,10)
  by (cases I; auto simp: decimal_fraction_def decimal_tail_def split: option.splits)+

text \<open>
  \<open>decimal_reads\<close> relates the parts of such a string to the unscaled magnitude and the scale.
\<close>

definition fraction_digits :: "string option \<Rightarrow> string" where
  "fraction_digits f = (case f of None \<Rightarrow> [] | Some ds \<Rightarrow> ds)"

definition exponent_value :: "int option \<Rightarrow> int" where
  "exponent_value e = (case e of None \<Rightarrow> 0 | Some x \<Rightarrow> x)"

definition decimal_reads :: "string \<Rightarrow> string option \<Rightarrow> int option \<Rightarrow> nat \<Rightarrow> int \<Rightarrow> bool" where
  "decimal_reads I f e m scale \<longleftrightarrow>
     I \<noteq> [] \<and> list_all c_isdigit (I @ fraction_digits f) \<and>
     digits_value 10 (I @ fraction_digits f) = m \<and>
     scale = int (length (fraction_digits f)) - exponent_value e"

definition decimal_text :: "bool \<Rightarrow> string \<Rightarrow> string option \<Rightarrow> int option \<Rightarrow> string" where
  "decimal_text neg I f e = (if neg then ''-'' else []) @ I @ decimal_fraction f @ decimal_tail e"

text \<open>
  Every string of this shape is read back. Without a point the first digit must not be 0, or the
  string is taken for an octal integer.
\<close>

lemma parse_decimal_shape:
  assumes G: "gmp_spec G" and r: "decimal_reads I f e m scale"
    and oct: "f = None \<Longrightarrow> hd I \<noteq> CHR ''0''"
    and e: "\<And>x. e = Some x \<Longrightarrow> fits_s 64 x \<and> fits_s 64 (- x)"
    and s: "s = decimal_text neg I f e" and len: "length s < 2 ^ 31" and fit: "fits_s 64 scale"
  shows "php_scylladb_parse_decimal G s = Ret (if neg then - int m else int m, scale)"
proof -
  define P where "P = (if neg then ''-'' else [])"
  define fs where "fs = fraction_digits f"
  have I: "I \<noteq> []" "list_all c_isdigit I" and F: "\<And>ds. f = Some ds \<Longrightarrow> list_all c_isdigit ds"
    and sc: "scale = int (length fs) - exponent_value e" and v: "digits_value 10 (I @ fs) = m"
    using r by (auto simp: decimal_reads_def fs_def fraction_digits_def)
  define Q where "Q = P @ I @ decimal_fraction f"
  have sP: "s = P @ I @ decimal_fraction f @ decimal_tail e" by (simp add: s P_def decimal_text_def)
  have sQ: "s = Q @ decimal_tail e" by (simp add: sP Q_def)
  have n: "zstr_int_len s = int (length s)" using len by (rule zstr_int_len_small)
  obtain d I' where dI: "I = d # I'" "c_isdigit d" using I by (cases I) auto
  have c0: "char_at s 0 = (if neg then CHR ''-'' else d)" by (simp add: s dI decimal_text_def)
  have start: "(if char_at s 0 = CHR ''+'' \<or> neg then 1 else 0) = length P"
    "char_at s 0 = CHR ''-'' \<longleftrightarrow> neg"
    using c0 c_isdigit_not [OF dI(2)] by (auto simp: P_def)
  have c1: "char_at s (length P) = d"
    using char_at_append_right [of P "I @ decimal_fraction f @ decimal_tail e" 0] by (simp add: sP dI)
  have "char_at s (length P + 1) = char_at (I' @ decimal_fraction f @ decimal_tail e) 0"
    using char_at_append_right [of P "I @ decimal_fraction f @ decimal_tail e" 1] by (simp add: sP dI)
  then have c2: "char_at s (length P + 1) \<noteq> CHR ''b''" "char_at s (length P + 1) \<noteq> CHR ''x''"
    using decimal_rest_first [of I' f e] I dI by simp_all
  have sl: "str_slice s (length P) (length (P @ I)) = I"
    "f = Some ds \<Longrightarrow> str_slice s (length (P @ I) + 1) (length Q) = ds" "f = None \<Longrightarrow> Q = P @ I" for ds
    by (simp_all add: str_slice_def sP Q_def decimal_fraction_def)
  have scan: "scan_decimal s (length s) (length P) None =
    Ret (length Q, if f = None then None else Some (length (P @ I)))"
    using scan_decimal_mantissa [OF I(2) F sP] by (simp add: Q_def)
  have dg: "I @ fs \<noteq> []" "list_all c_isdigit (I @ fs)" using I F by (auto simp: fs_def fraction_digits_def split: option.splits)
  note ms = mpz_set_str_10 [OF G dg]
  have ex: "parse_exponent s (length s) (length Q) = Ret x" if "e = Some x" for x
    using parse_exponent_show [of x s Q] e that sQ by auto
  have ql: "length Q < length s \<longleftrightarrow> e \<noteq> None" by (auto simp: sQ decimal_tail_def split: option.splits)
  have d0: "d = CHR ''0'' \<Longrightarrow> f \<noteq> None" using oct dI by auto
  have li: "int (length Q) - 1 - int (length (P @ I)) = int (length fs)" if "f \<noteq> None"
    using that by (auto simp: Q_def fs_def fraction_digits_def decimal_fraction_def)
  show ?thesis
    unfolding php_scylladb_parse_decimal_def n nat_int Let_def start(2) start(1) scan
    using c1 c2 d0 sl ms dI ex li fit sc v ql
    by (cases f; cases e) (auto simp: fs_def fraction_digits_def exponent_value_def)
qed

lemma digits_value_zeros: "digits_value 10 (replicate k CHR ''0'' @ ds) = digits_value 10 ds"
proof -
  have "dval CHR ''0'' = 0" by code_simp
  then have "digits_value 10 (replicate k CHR ''0'') = 0"
    by (induction k) (simp_all add: digits_value_Cons)
  then show ?thesis by (simp add: digits_value_append)
qed

lemma show_int_sign: "show_int v = (if v < 0 then ''-'' else []) @ show_nat (nat \<bar>v\<bar>)"
  by (simp add: show_int_def)

text \<open>What \<^verbatim>\<open>php_scylladb_format_decimal\<close> writes, sign and digits apart.\<close>

lemma format_decimal_eq:
  fixes v scale :: int
  assumes G: "gmp_spec G" and sc: "scale \<noteq> 0"
  defines "S \<equiv> (if v < 0 then ''-'' else [])" and "ds \<equiv> show_nat (nat \<bar>v\<bar>)"
  defines "point \<equiv> int (length ds) - scale"
  shows "php_scylladb_format_decimal G v scale =
    (if \<not> fits_s 64 point \<or> \<not> fits_s 64 (point - 1) then UB
     else if format_decimal_plain scale point then
       if point \<le> 0 then Ret (S @ ''0.'' @ replicate (nat (- point)) CHR ''0'' @ ds)
       else Ret (S @ take (nat point) ds @ ''.'' @ drop (nat point) ds)
     else if length ds = 1 then Ret (S @ ds @ ''E'' @ show_int_plus (point - 1))
     else Ret (S @ take 1 ds @ ''.'' @ drop 1 ds @ ''E'' @ show_int_plus (point - 1)))"
proof -
  define k where "k = length S"
  have k: "(if v < 0 then 1 else 0) = k" by (simp add: S_def k_def)
  have tmp: "mpz_get_str G 10 v = S @ ds" "(mpz_sgn G v < 0) = (v < 0)"
    using G by (simp_all add: gmp_get_str gmp_arith_simps show_int_sign S_def ds_def)
  have l: "length (S @ ds) - k = length ds" "drop k (S @ ds) = ds"
    "take (n + k) (S @ ds) = S @ take n ds" "drop (n + k) (S @ ds) = drop n ds"
    "take (k + n) (S @ ds) = S @ take n ds" "drop (k + n) (S @ ds) = drop n ds" for n
    by (simp_all add: k_def)
  show ?thesis
    unfolding php_scylladb_format_decimal_def Let_def tmp k l point_def [symmetric] S_def [symmetric]
    using sc by (simp only: if_False append_assoc)
qed

text \<open>
  The formatter's output in the shape the parser reads: \<open>decimal_reads\<close> relates the parts to the
  unscaled magnitude and the scale.
\<close>

lemma format_decimal_shape:
  assumes G: "gmp_spec G" and sc: "scale \<noteq> 0" and fmt: "php_scylladb_format_decimal G v scale = Ret s"
  defines "ds \<equiv> show_nat (nat \<bar>v\<bar>)"
  shows "\<exists>I f e. s = decimal_text (v < 0) I f e \<and> decimal_reads I f e (nat \<bar>v\<bar>) scale \<and>
    (f = None \<longrightarrow> I = ds \<and> (scale < 0 \<or> 6 < scale)) \<and>
    (e = None \<or> e = Some (int (length ds) - scale - 1) \<and> fits_s 64 (int (length ds) - scale - 1))"
proof -
  define point where "point = int (length ds) - scale"
  have ds: "list_all c_isdigit ds" "ds \<noteq> []" "digits_value 10 ds = nat \<bar>v\<bar>"
    by (simp_all add: ds_def show_nat_digits)
  note eq = format_decimal_eq [OF G sc, of v, folded ds_def, folded point_def]
  have fit: "fits_s 64 point" "fits_s 64 (point - 1)"
    using fmt unfolding eq by (auto simp del: fits_s_numeral split: if_splits)
  note defs = decimal_text_def decimal_fraction_def decimal_tail_def decimal_reads_def fraction_digits_def
    exponent_value_def
  consider (small) "format_decimal_plain scale point" "point \<le> 0" | (plain) "format_decimal_plain scale point" "0 < point"
    | (one) "\<not> format_decimal_plain scale point" "length ds = 1" | (sci) "\<not> format_decimal_plain scale point" "length ds \<noteq> 1"
    by linarith
  then show ?thesis
  proof cases
    case small
    have "c_isdigit CHR ''0''" by code_simp
    then show ?thesis
      using small fmt fit ds digits_value_zeros [of "Suc (nat (- point))" ds]
      by (intro exI [of _ "''0''"] exI [of _ "Some (replicate (nat (- point)) CHR ''0'' @ ds)"] exI [of _ None])
        (auto simp add: eq defs point_def list_all_iff simp del: fits_s_numeral)
  next
    case plain
    then have "0 < scale" by (simp add: format_decimal_plain_def)
    then show ?thesis
      using plain fmt fit ds
      by (intro exI [of _ "take (nat point) ds"] exI [of _ "Some (drop (nat point) ds)"] exI [of _ None])
        (simp add: eq defs point_def del: fits_s_numeral list_all_append)
  next
    case one
    then have "scale < 0 \<or> 6 < scale" using sc by (auto simp: format_decimal_plain_def point_def)
    then show ?thesis
      using one fmt fit ds
      by (intro exI [of _ ds] exI [of _ None] exI [of _ "Some (point - 1)"])
        (simp add: eq defs point_def del: fits_s_numeral)
  next
    case sci
    then show ?thesis
      using fmt fit ds
      by (intro exI [of _ "take 1 ds"] exI [of _ "Some (drop 1 ds)"] exI [of _ "Some (point - 1)"])
        (cases ds, simp_all add: eq defs point_def del: fits_s_numeral)
  qed
qed

text \<open>
  Property C19. A decimal survives formatting and parsing: whatever string
  \<^verbatim>\<open>php_scylladb_format_decimal\<close> writes for a value and a scale,
  \<^verbatim>\<open>php_scylladb_parse_decimal\<close> reads back as the same pair, for every non-zero
  value, and for zero when its scale is between 0 and 6.
\<close>

theorem decimal_round_trip:
  assumes G: "gmp_spec G" and fit: "fits_s 64 scale" and nz: "v \<noteq> 0 \<or> 0 \<le> scale \<and> scale \<le> 6"
    and fmt: "php_scylladb_format_decimal G v scale = Ret s" and len: "length s < 2 ^ 31"
  shows "php_scylladb_parse_decimal G s = Ret (v, scale)"
proof (cases "scale = 0")
  case False
  obtain I f e where s: "s = decimal_text (v < 0) I f e" and r: "decimal_reads I f e (nat \<bar>v\<bar>) scale"
    and oct: "f = None \<longrightarrow> I = show_nat (nat \<bar>v\<bar>) \<and> (scale < 0 \<or> 6 < scale)"
    and e: "e = None \<or> e = Some (int (length (show_nat (nat \<bar>v\<bar>))) - scale - 1) \<and>
      fits_s 64 (int (length (show_nat (nat \<bar>v\<bar>))) - scale - 1)"
    using format_decimal_shape [OF G False fmt] by blast
  have o: "f = None \<Longrightarrow> hd I \<noteq> CHR ''0''" using oct nz show_nat_leading [of "nat \<bar>v\<bar>"] by auto
  have "1 \<le> int (length (show_nat (nat \<bar>v\<bar>)))" by (simp add: Suc_leI)
  then have e': "\<And>x. e = Some x \<Longrightarrow> fits_s 64 x \<and> fits_s 64 (- x)" using e fit by auto
  show ?thesis
    using parse_decimal_shape [OF G r o e' s len fit] by simp
next
  case True
  then have s: "s = show_int v" using fmt G by (simp add: php_scylladb_format_decimal_def php_scylladb_format_integer_def gmp_get_str)
  show ?thesis
  proof (cases "v = 0")
    case True
    have "scan_decimal ''0'' 1 0 None = Ret (1, None)" by code_simp
    moreover have "php_scylladb_parse_varint G ''0'' = Ret 0"
      using parse_varint_show [OF G, of 0] by (simp add: show_int_def)
    ultimately show ?thesis
      using s True \<open>scale = 0\<close>
      by (simp add: php_scylladb_parse_decimal_def zstr_int_len_small show_int_def)
  next
    case False
    have "php_scylladb_parse_decimal G s = Ret (if v < 0 then - int (nat \<bar>v\<bar>) else int (nat \<bar>v\<bar>), 0)"
      by (rule parse_decimal_shape [OF G, of "show_nat (nat \<bar>v\<bar>)" None None])
        (use False len s in \<open>simp_all add: show_nat_digits show_nat_leading show_int_sign decimal_reads_def
            decimal_text_def decimal_fraction_def decimal_tail_def fraction_digits_def exponent_value_def\<close>)
    then show ?thesis using \<open>scale = 0\<close> by simp
  qed
qed

theorem decimal_round_trip_witness:
  "php_scylladb_format_decimal gmp_ref (-12345) 3 = Ret ''-12.345'' \<and>
   php_scylladb_parse_decimal gmp_ref ''-12.345'' = Ret (-12345, 3)"
proof -
  have f: "php_scylladb_format_decimal gmp_ref (-12345) 3 = Ret ''-12.345''" by code_simp
  then show ?thesis using decimal_round_trip [OF gmp_ref_spec _ _ f] by simp
qed

text \<open>
  Property C20. Zero with a scale outside 0 to 6 is written as \<^verbatim>\<open>0E\<close> and an exponent,
  which the parser takes for an octal integer and rejects, whatever the exponent.
\<close>

theorem decimal_zero_rejected:
  assumes G: "gmp_spec G" and fit: "fits_s 64 scale" and sc: "scale < 0 \<or> 6 < scale"
    and fmt: "php_scylladb_format_decimal G 0 scale = Ret s"
  shows "s = ''0E'' @ show_int_plus (- scale) \<and> throws InvalidArgumentException (php_scylladb_parse_decimal G s)"
proof
  have sc0: "scale \<noteq> 0" using sc by auto
  have np: "\<not> format_decimal_plain scale (1 - scale)" using sc by (auto simp: format_decimal_plain_def)
  show s: "s = ''0E'' @ show_int_plus (- scale)"
    using fmt np by (auto simp: format_decimal_eq [OF G sc0] split: if_splits)
  define t where "t = show_int_plus (- scale)"
  have st: "s = CHR ''0'' # CHR ''E'' # t" by (simp add: s t_def)
  have "length (show_nat (nat \<bar>scale\<bar>)) \<le> 20"
    by (rule show_nat_length_less) (use fit in auto)
  then have t: "NUL \<notin> set s" "length s < 2 ^ 31"
    using show_nat_NUL [of "nat \<bar>scale\<bar>"] by (auto simp: s show_int_plus_def)
  have lp: "lit_parts s = (False, 0, s)" by (simp add: lit_parts_def st Let_def c_isspace_def code_def)
  have "mpz_set_str G s 0 = mpz_set_str G s 8"
    using G set_str_base0D(3) [of G "CHR ''E'' # t"] by (simp add: st gmp_spec_def gmp_text_def)
  moreover have "set_str_rejects G" using G by (simp add: gmp_spec_def gmp_text_def)
  moreover have "\<not> base_digit 8 CHR ''E''" "\<not> c_isspace CHR ''E''" by code_simp+
  then have "mpz_set_str G s 8 = None" if "set_str_rejects G"
    using that unfolding set_str_rejects_def
    by (elim allE [of _ 8] allE [of _ s] allE [of _ "CHR ''E''"]) (simp add: st)
  ultimately have none: "mpz_set_str G s 0 = None" by simp
  have "c_str s = s" using t by (simp add: c_str_id_iff)
  moreover obtain pos where "prepare_string_conversion s = Ret (c_isdigit (char_at s 0), pos, False, 0)"
    "drop pos s = s" using prepare_lit [OF t lp] by metis
  ultimately have varint: "throws InvalidArgumentException (php_scylladb_parse_varint G s)"
    using none by (simp add: php_scylladb_parse_varint_def)
  have "scan_decimal s (length s) 0 None = Ret (1, None)"
    by (subst scan_decimal.simps, subst scan_decimal.simps)
      (simp add: st c_isxdigit_def c_isdigit_def code_def)
  moreover have "char_at s 0 = CHR ''0''" "char_at s (0 + 1) = CHR ''E''" by (simp_all add: st)
  ultimately have "php_scylladb_parse_decimal G s =
      bind_outcome (php_scylladb_parse_varint G s) (\<lambda>v. Ret (v, 0))"
    by (simp add: php_scylladb_parse_decimal_def zstr_int_len_small [OF t(2)])
  with varint show "throws InvalidArgumentException (php_scylladb_parse_decimal G s)"
    by (cases "php_scylladb_parse_varint G s") simp_all
qed

theorem decimal_zero_rejected_witness:
  "php_scylladb_format_decimal gmp_ref 0 10 = Ret ''0E-10'' \<and>
   throws InvalidArgumentException (php_scylladb_parse_decimal gmp_ref ''0E-10'')"
proof -
  have f: "php_scylladb_format_decimal gmp_ref 0 10 = Ret ''0E-10''" by code_simp
  have "throws InvalidArgumentException (php_scylladb_parse_decimal gmp_ref ''0E-10'')"
    by (rule decimal_zero_rejected [OF gmp_ref_spec _ _ f, THEN conjunct2]) simp_all
  with f show ?thesis by blast
qed

text \<open>
  Property C21. The buffer edits of \<^verbatim>\<open>php_scylladb_format_decimal\<close> stay inside the
  allocation: the text and its terminating NUL fit the size the buffer is grown to.
\<close>

theorem format_decimal_fits_buffer:
  assumes G: "gmp_spec G" and sc: "scale \<noteq> 0" and fmt: "php_scylladb_format_decimal G v scale = Ret s"
  shows "let len = length (show_nat (nat \<bar>v\<bar>)) in
    length s + 1 \<le> format_decimal_need (int len - scale) len (if v < 0 then 1 else 0)
      (format_decimal_plain scale (int len - scale))"
proof -
  define len where "len = length (show_nat (nat \<bar>v\<bar>))"
  have "length (show_nat (nat \<bar>int len - scale - 1\<bar>)) \<le> 20" if "fits_s 64 (int len - scale - 1)"
    by (rule show_nat_length_less) (use that in auto)
  then show ?thesis
    using fmt unfolding format_decimal_eq [OF G sc] len_def [symmetric] Let_def
    by (auto simp: format_decimal_need_def show_int_plus_def len_def min_def simp del: fits_s_numeral
        split: if_splits)
qed

theorem format_decimal_fits_buffer_witness:
  "php_scylladb_format_decimal gmp_ref (-5) 12 = Ret ''-5E-12'' \<and>
   length ''-5E-12'' + 1 \<le> format_decimal_need (1 - 12) 1 1 False"
proof -
  have f: "php_scylladb_format_decimal gmp_ref (-5) 12 = Ret ''-5E-12''" by code_simp
  have "show_nat 5 = ''5''" "\<not> format_decimal_plain 12 (1 - 12)" by code_simp+
  then show ?thesis using f format_decimal_fits_buffer [OF gmp_ref_spec _ f] by (simp add: Let_def)
qed

end
