(* ===== verification/Zval.thy ===== *)
theory Zval
  imports NumberParser "HOL-Library.List_Lexorder"
begin

text \<open>
  The values the extension handles. \<open>cass_value_type\<close> is the driver's type code,
  \<open>cass_type\<close> the struct \<^verbatim>\<open>php_scylladb_type\<close>, \<open>numeric\<close> the tagged
  union \<^verbatim>\<open>php_scylladb_numeric\<close> and \<open>zval\<close> a PHP value as the sources
  distinguish it: the scalar cases of \<^verbatim>\<open>Z_TYPE\<close>, and one constructor for each
  object class of the extension with the fields of its struct. PHP hash tables are association lists
  in insertion order. A double or float is its IEEE 754 bit pattern.
\<close>

section \<open>Types\<close>

datatype cass_value_type =
    CASS_VALUE_TYPE_CUSTOM
  | CASS_VALUE_TYPE_ASCII
  | CASS_VALUE_TYPE_BIGINT
  | CASS_VALUE_TYPE_BLOB
  | CASS_VALUE_TYPE_BOOLEAN
  | CASS_VALUE_TYPE_COUNTER
  | CASS_VALUE_TYPE_DECIMAL
  | CASS_VALUE_TYPE_DOUBLE
  | CASS_VALUE_TYPE_FLOAT
  | CASS_VALUE_TYPE_INT
  | CASS_VALUE_TYPE_TEXT
  | CASS_VALUE_TYPE_TIMESTAMP
  | CASS_VALUE_TYPE_UUID
  | CASS_VALUE_TYPE_VARCHAR
  | CASS_VALUE_TYPE_VARINT
  | CASS_VALUE_TYPE_TIMEUUID
  | CASS_VALUE_TYPE_INET
  | CASS_VALUE_TYPE_DATE
  | CASS_VALUE_TYPE_TIME
  | CASS_VALUE_TYPE_SMALL_INT
  | CASS_VALUE_TYPE_TINY_INT
  | CASS_VALUE_TYPE_DURATION
  | CASS_VALUE_TYPE_LIST
  | CASS_VALUE_TYPE_MAP
  | CASS_VALUE_TYPE_SET
  | CASS_VALUE_TYPE_UDT
  | CASS_VALUE_TYPE_TUPLE

datatype cass_type =
    T_Scalar cass_value_type
  | T_Custom string
  | T_List cass_type
  | T_Set cass_type
  | T_Map cass_type cass_type
  | T_Tuple "cass_type list"
  | T_Udt "string option" "string option" "(string \<times> cass_type) list"

section \<open>Values\<close>

datatype numeric =
    N_Bigint int
  | N_Decimal int int \<comment> \<open>unscaled value and scale\<close>
  | N_Float "32 word"
  | N_Varint int
  | N_Smallint int
  | N_Tinyint int

datatype zval =
    ZNull
  | ZFalse
  | ZTrue
  | ZLong int
  | ZDouble "64 word"
  | ZString string
  | ZArray "(string \<times> zval) list"
  | ZNumeric numeric
  | ZBlob "byte list"
  | ZInet "byte list"
  | ZDuration int int int \<comment> \<open>months, days, nanoseconds\<close>
  | ZCollection cass_type "zval list"
  | ZSet cass_type nat "zval list" \<comment> \<open>the number of buckets of its table, its elements in order\<close>
  | ZMap cass_type nat "(zval \<times> zval) list"
  | ZTuple cass_type "(nat \<times> zval) list"
  | ZUserType cass_type "(string \<times> zval) list"
  | ZUuid bool "64 word" "64 word" \<comment> \<open>a Timeuuid?, time and version, clock sequence and node\<close>
  | ZTimestamp int \<comment> \<open>milliseconds\<close>
  | ZDate int \<comment> \<open>the server's unsigned day number\<close>
  | ZTime int \<comment> \<open>nanoseconds\<close>
  | ZType cass_type
  | ZObject string \<comment> \<open>an object of any other class\<close>

section \<open>Names of classes\<close>

text \<open>Byte strings as \<^verbatim>\<open>strcmp\<close> and \<^verbatim>\<open>zend_binary_strcmp\<close> order them.\<close>

fun byte_compare :: "string \<Rightarrow> string \<Rightarrow> int" where
  "byte_compare [] [] = 0"
| "byte_compare [] (_ # _) = -1"
| "byte_compare (_ # _) [] = 1"
| "byte_compare (a # xs) (b # ys) =
     (if code a < code b then -1 else if code b < code a then 1 else byte_compare xs ys)"

lemma byte_compare_lex: "byte_compare s t = php_scylladb_compare (map code s) (map code t)"
proof (induction s t rule: byte_compare.induct)
  case (4 a xs b ys)
  then show ?case
    by (cases "code a" "code b" rule: linorder_cases) (auto simp: php_scylladb_compare_def)
qed (simp_all add: php_scylladb_compare_def)

interpretation byte_order: three_way byte_compare
  unfolding byte_compare_lex
  by unfold_locales (simp, rule php_scylladb_compare_flip, simp)

lemma byte_compare_zero [simp]: "byte_compare s t = 0 \<longleftrightarrow> s = t"
  using inj_map_eq_map [of code s t] by (simp add: byte_compare_lex inj_def)

end
