(* ===== verification/FixedInts.thy ===== *)
theory FixedInts
  imports Zval
begin

text \<open>
  The fixed-width integer classes: \<^verbatim>\<open>src/Numbers/Tinyint.c\<close>,
  \<^verbatim>\<open>src/Numbers/Smallint.c\<close> and \<^verbatim>\<open>src/Numbers/Bigint.c\<close>. A
  method takes the stored value of \<^verbatim>\<open>$this\<close> and its argument and gives the stored
  value of the returned object. Tinyint and Smallint are the same code at 8 and 16 bits: their C
  expressions are computed in \<^verbatim>\<open>int\<close> and narrowed on assignment.
\<close>

section \<open>Tinyint and Smallint: the shared bodies\<close>

text \<open>
  The narrow stored value after an assignment is \<open>cast_s w\<close> of the \<^verbatim>\<open>int\<close> result,
  which itself cannot overflow for operands of at most 16 bits.
\<close>

definition narrow_add :: "nat \<Rightarrow> int \<Rightarrow> int \<Rightarrow> int outcome" where
  "narrow_add w a b =
     (let r = cast_s w (a + b) in if r - b \<noteq> a then throw_range ''Sum is out of range'' else Ret r)"

definition narrow_sub :: "nat \<Rightarrow> int \<Rightarrow> int \<Rightarrow> int outcome" where
  "narrow_sub w a b =
     (let r = cast_s w (a - b) in if r + b \<noteq> a then throw_range ''Difference is out of range'' else Ret r)"

definition narrow_mul :: "nat \<Rightarrow> int \<Rightarrow> int \<Rightarrow> int outcome" where
  "narrow_mul w a b =
     (let r = cast_s w (a * b) in
      if b \<noteq> 0 \<and> c_div r b \<noteq> a then throw_range ''Product is out of range'' else Ret r)"

definition narrow_div :: "nat \<Rightarrow> int \<Rightarrow> int \<Rightarrow> int outcome" where
  "narrow_div w a b =
     (if b = 0 then Throw (Exn DivideByZeroException ''Cannot divide by zero'')
      else Ret (cast_s w (c_div a b)))"

definition narrow_mod :: "nat \<Rightarrow> int \<Rightarrow> int \<Rightarrow> int outcome" where
  "narrow_mod w a b =
     (if b = 0 then Throw (Exn DivideByZeroException ''Cannot modulo by zero'')
      else Ret (cast_s w (c_mod a b)))"

definition narrow_abs :: "nat \<Rightarrow> int \<Rightarrow> int outcome" where
  "narrow_abs w a =
     (if a = - (2 ^ (w - 1)) then throw_range ''Value doesn't exist''
      else Ret (if a < 0 then cast_s w (- a) else a))"

definition narrow_neg :: "nat \<Rightarrow> int \<Rightarrow> int outcome" where
  "narrow_neg w a =
     (if a = - (2 ^ (w - 1)) then throw_range ''Value doesn't exist'' else Ret (cast_s w (- a)))"

text \<open>\<open>sqrtl\<close> is the truncated result of the C library's square root.\<close>

definition narrow_sqrt :: "nat \<Rightarrow> (int \<Rightarrow> int) \<Rightarrow> int \<Rightarrow> int outcome" where
  "narrow_sqrt w sqrtl a =
     (if a < 0 then throw_range ''Cannot take a square root of a negative number''
      else Ret (cast_s w (sqrtl a)))"

text \<open>
  The constructor body for an argument that is not already of the class. The long is first cast to
  32 bits; the conversion of a double that does not fit 32 bits is undefined.
\<close>

definition narrow_check :: "nat \<Rightarrow> int \<Rightarrow> int outcome" where
  "narrow_check w number =
     (if number < - (2 ^ (w - 1)) \<or> 2 ^ (w - 1) - 1 < number then throw_range ''value must be between''
      else Ret (cast_s w number))"

definition narrow_init :: "nat \<Rightarrow> zval \<Rightarrow> int outcome" where
  "narrow_init w value =
     (case value of
        ZLong l \<Rightarrow> narrow_check w (cast_s 32 l)
      | ZDouble d \<Rightarrow> bind_outcome (dbl_to_int 32 d) (narrow_check w)
      | ZString s \<Rightarrow>
          bind_outcome (php_scylladb_parse_int s) (\<lambda>r.
            case r of None \<Rightarrow> throw_range ''value must be between'' | Some number \<Rightarrow> narrow_check w number)
      | _ \<Rightarrow> throw_arg ''a long, a double, a numeric string or an object of the class'')"

section \<open>Tinyint\<close>

definition tinyint_of :: "zval \<Rightarrow> int option" where
  "tinyint_of v = (case v of ZNumeric (N_Tinyint i) \<Rightarrow> Some i | _ \<Rightarrow> None)"

definition tinyint_arg :: "zval \<Rightarrow> (int \<Rightarrow> int outcome) \<Rightarrow> int outcome" where
  "tinyint_arg v f = (case tinyint_of v of Some i \<Rightarrow> f i | None \<Rightarrow> throw_arg ''a Tinyint'')"

definition php_scylladb_tinyint_init :: "zval \<Rightarrow> int outcome" where
  "php_scylladb_tinyint_init value =
     (case tinyint_of value of Some i \<Rightarrow> Ret i | None \<Rightarrow> narrow_init 8 value)"

definition tinyint_add :: "int \<Rightarrow> zval \<Rightarrow> int outcome" where
  "tinyint_add self addend = tinyint_arg addend (narrow_add 8 self)"

definition tinyint_sub :: "int \<Rightarrow> zval \<Rightarrow> int outcome" where
  "tinyint_sub self difference = tinyint_arg difference (narrow_sub 8 self)"

definition tinyint_mul :: "int \<Rightarrow> zval \<Rightarrow> int outcome" where
  "tinyint_mul self multiplier = tinyint_arg multiplier (narrow_mul 8 self)"

definition tinyint_div :: "int \<Rightarrow> zval \<Rightarrow> int outcome" where
  "tinyint_div self divisor = tinyint_arg divisor (narrow_div 8 self)"

definition tinyint_mod :: "int \<Rightarrow> zval \<Rightarrow> int outcome" where
  "tinyint_mod self divisor = tinyint_arg divisor (narrow_mod 8 self)"

definition tinyint_abs :: "int \<Rightarrow> int outcome" where
  "tinyint_abs self = narrow_abs 8 self"

definition tinyint_neg :: "int \<Rightarrow> int outcome" where
  "tinyint_neg self = narrow_neg 8 self"

definition tinyint_sqrt :: "(int \<Rightarrow> int) \<Rightarrow> int \<Rightarrow> int outcome" where
  "tinyint_sqrt sqrtl self = narrow_sqrt 8 sqrtl self"

definition tinyint_min :: int where "tinyint_min = - 128"

definition tinyint_max :: int where "tinyint_max = 127"

definition tinyint_to_string :: "int \<Rightarrow> string" where
  "tinyint_to_string self = show_int self"

text \<open>The comparison handler, for two objects of the class.\<close>

definition php_scylladb_tinyint_compare :: "int \<Rightarrow> int \<Rightarrow> int" where
  "php_scylladb_tinyint_compare a b = (if a = b then 0 else if a < b then -1 else 1)"

definition php_scylladb_tinyint_hash_value :: "int \<Rightarrow> 32 word" where
  "php_scylladb_tinyint_hash_value self = word_of_int (31 * 17 + self)"

section \<open>Smallint\<close>

definition smallint_of :: "zval \<Rightarrow> int option" where
  "smallint_of v = (case v of ZNumeric (N_Smallint i) \<Rightarrow> Some i | _ \<Rightarrow> None)"

definition smallint_arg :: "zval \<Rightarrow> (int \<Rightarrow> int outcome) \<Rightarrow> int outcome" where
  "smallint_arg v f = (case smallint_of v of Some i \<Rightarrow> f i | None \<Rightarrow> throw_arg ''a Smallint'')"

definition php_scylladb_smallint_init :: "zval \<Rightarrow> int outcome" where
  "php_scylladb_smallint_init value =
     (case smallint_of value of Some i \<Rightarrow> Ret i | None \<Rightarrow> narrow_init 16 value)"

definition smallint_add :: "int \<Rightarrow> zval \<Rightarrow> int outcome" where
  "smallint_add self addend = smallint_arg addend (narrow_add 16 self)"

definition smallint_sub :: "int \<Rightarrow> zval \<Rightarrow> int outcome" where
  "smallint_sub self difference = smallint_arg difference (narrow_sub 16 self)"

definition smallint_mul :: "int \<Rightarrow> zval \<Rightarrow> int outcome" where
  "smallint_mul self multiplier = smallint_arg multiplier (narrow_mul 16 self)"

definition smallint_div :: "int \<Rightarrow> zval \<Rightarrow> int outcome" where
  "smallint_div self divisor = smallint_arg divisor (narrow_div 16 self)"

definition smallint_mod :: "int \<Rightarrow> zval \<Rightarrow> int outcome" where
  "smallint_mod self divisor = smallint_arg divisor (narrow_mod 16 self)"

definition smallint_abs :: "int \<Rightarrow> int outcome" where
  "smallint_abs self = narrow_abs 16 self"

definition smallint_neg :: "int \<Rightarrow> int outcome" where
  "smallint_neg self = narrow_neg 16 self"

definition smallint_sqrt :: "(int \<Rightarrow> int) \<Rightarrow> int \<Rightarrow> int outcome" where
  "smallint_sqrt sqrtl self = narrow_sqrt 16 sqrtl self"

definition smallint_min :: int where "smallint_min = - 32768"

definition smallint_max :: int where "smallint_max = 32767"

definition smallint_to_string :: "int \<Rightarrow> string" where
  "smallint_to_string self = show_int self"

definition php_scylladb_smallint_compare :: "int \<Rightarrow> int \<Rightarrow> int" where
  "php_scylladb_smallint_compare a b = (if a = b then 0 else if a < b then -1 else 1)"

definition php_scylladb_smallint_hash_value :: "int \<Rightarrow> 32 word" where
  "php_scylladb_smallint_hash_value self = word_of_int (31 * 17 + self)"

section \<open>Bigint\<close>

text \<open>Signed 64-bit arithmetic: undefined outside the type.\<close>

definition int64_op :: "int \<Rightarrow> int outcome" where
  "int64_op v = (if fits_s 64 v then Ret v else UB)"

definition bigint_of :: "zval \<Rightarrow> int option" where
  "bigint_of v = (case v of ZNumeric (N_Bigint i) \<Rightarrow> Some i | _ \<Rightarrow> None)"

definition bigint_arg :: "zval \<Rightarrow> (int \<Rightarrow> int outcome) \<Rightarrow> int outcome" where
  "bigint_arg v f = (case bigint_of v of Some i \<Rightarrow> f i | None \<Rightarrow> throw_arg ''a Bigint'')"

text \<open>
  \<open>zend_dval_to_lval\<close> is the engine's conversion of a double. The bounds compared with are the
  doubles nearest to the 64-bit limits, \<open>2 ^ 63\<close> and \<open>- 2 ^ 63\<close>.
\<close>

definition php_scylladb_bigint_init :: "(64 word \<Rightarrow> int) \<Rightarrow> zval \<Rightarrow> int outcome" where
  "php_scylladb_bigint_init zend_dval_to_lval value =
     (case value of
        ZLong l \<Rightarrow> Ret (cast_s 64 l)
      | ZDouble d \<Rightarrow>
          if dbl_less 0x43E0000000000000 d \<or> dbl_less d 0xC3E0000000000000
          then throw_range ''value must be between''
          else Ret (zend_dval_to_lval d)
      | ZString s \<Rightarrow> php_scylladb_parse_bigint s
      | ZNumeric (N_Bigint b) \<Rightarrow> Ret b
      | _ \<Rightarrow> throw_arg ''a long, a double, a numeric string or a Bigint'')"

definition bigint_add :: "int \<Rightarrow> zval \<Rightarrow> int outcome" where
  "bigint_add self num = bigint_arg num (\<lambda>b. int64_op (self + b))"

definition bigint_sub :: "int \<Rightarrow> zval \<Rightarrow> int outcome" where
  "bigint_sub self num = bigint_arg num (\<lambda>b. int64_op (self - b))"

definition bigint_mul :: "int \<Rightarrow> zval \<Rightarrow> int outcome" where
  "bigint_mul self num = bigint_arg num (\<lambda>b. int64_op (self * b))"

definition bigint_div :: "int \<Rightarrow> zval \<Rightarrow> int outcome" where
  "bigint_div self num = bigint_arg num (\<lambda>b.
     if b = 0 then Throw (Exn DivideByZeroException ''Cannot divide by zero'')
     else int64_op (c_div self b))"

text \<open>C leaves \<open>a % b\<close> undefined when the quotient \<open>a / b\<close> is not representable.\<close>

definition bigint_mod :: "int \<Rightarrow> zval \<Rightarrow> int outcome" where
  "bigint_mod self num = bigint_arg num (\<lambda>b.
     if b = 0 then Throw (Exn DivideByZeroException ''Cannot modulo by zero'')
     else bind_outcome (int64_op (c_div self b)) (\<lambda>_. Ret (c_mod self b)))"

definition bigint_abs :: "int \<Rightarrow> int outcome" where
  "bigint_abs self =
     (if self = INT64_MIN then throw_range ''Value doesn't exist''
      else if self < 0 then int64_op (- self) else Ret self)"

definition bigint_neg :: "int \<Rightarrow> int outcome" where
  "bigint_neg self = int64_op (- self)"

definition bigint_sqrt :: "(int \<Rightarrow> int) \<Rightarrow> int \<Rightarrow> int outcome" where
  "bigint_sqrt sqrtl self =
     (if self < 0 then throw_range ''Cannot take a square root of a negative number''
      else int64_op (sqrtl self))"

definition bigint_min :: int where "bigint_min = INT64_MIN"

definition bigint_max :: int where "bigint_max = INT64_MAX"

definition bigint_to_string :: "int \<Rightarrow> string" where
  "bigint_to_string self = show_int self"

definition bigint_to_long :: "int \<Rightarrow> int" where
  "bigint_to_long self = cast_s 64 self"

definition php_scylladb_bigint_compare :: "int \<Rightarrow> int \<Rightarrow> int" where
  "php_scylladb_bigint_compare a b = (if a = b then 0 else if a < b then -1 else 1)"

text \<open>\<^verbatim>\<open>value ^ (value >> 32)\<close>, an arithmetic shift, cut to 32 bits.\<close>

definition php_scylladb_bigint_hash_value :: "int \<Rightarrow> 32 word" where
  "php_scylladb_bigint_hash_value v = word_of_int (xor v (drop_bit 32 v))"

section \<open>The contract of checked arithmetic\<close>

text \<open>
  What Tinyint and Smallint promise: on representable operands an operation gives the exact result
  if it is representable and a range exception otherwise. The laws users rely on (subtraction undoes
  addition, negation is an involution, results stay representable) follow from this alone.
\<close>

locale checked_arith =
  fixes rep :: "int \<Rightarrow> bool"
    and add sub mul :: "int \<Rightarrow> int \<Rightarrow> int outcome"
    and neg :: "int \<Rightarrow> int outcome"
  assumes add_exact: "rep a \<Longrightarrow> rep b \<Longrightarrow> rep (a + b) \<Longrightarrow> add a b = Ret (a + b)"
    and add_range: "rep a \<Longrightarrow> rep b \<Longrightarrow> \<not> rep (a + b) \<Longrightarrow> throws RangeException (add a b)"
    and sub_exact: "rep a \<Longrightarrow> rep b \<Longrightarrow> rep (a - b) \<Longrightarrow> sub a b = Ret (a - b)"
    and sub_range: "rep a \<Longrightarrow> rep b \<Longrightarrow> \<not> rep (a - b) \<Longrightarrow> throws RangeException (sub a b)"
    and mul_exact: "rep a \<Longrightarrow> rep b \<Longrightarrow> rep (a * b) \<Longrightarrow> mul a b = Ret (a * b)"
    and mul_range: "rep a \<Longrightarrow> rep b \<Longrightarrow> \<not> rep (a * b) \<Longrightarrow> throws RangeException (mul a b)"
    and neg_exact: "rep a \<Longrightarrow> rep (- a) \<Longrightarrow> neg a = Ret (- a)"
    and neg_range: "rep a \<Longrightarrow> \<not> rep (- a) \<Longrightarrow> throws RangeException (neg a)"
begin

lemma add_eq_Ret: "rep a \<Longrightarrow> rep b \<Longrightarrow> add a b = Ret c \<longleftrightarrow> rep c \<and> c = a + b"
  using add_exact [of a b] add_range [of a b] by (cases "rep (a + b)") auto

lemma sub_eq_Ret: "rep a \<Longrightarrow> rep b \<Longrightarrow> sub a b = Ret c \<longleftrightarrow> rep c \<and> c = a - b"
  using sub_exact [of a b] sub_range [of a b] by (cases "rep (a - b)") auto

lemma mul_eq_Ret: "rep a \<Longrightarrow> rep b \<Longrightarrow> mul a b = Ret c \<longleftrightarrow> rep c \<and> c = a * b"
  using mul_exact [of a b] mul_range [of a b] by (cases "rep (a * b)") auto

lemma neg_eq_Ret: "rep a \<Longrightarrow> neg a = Ret c \<longleftrightarrow> rep c \<and> c = - a"
  using neg_exact [of a] neg_range [of a] by (cases "rep (- a)") auto

lemma never_undefined:
  assumes "rep a" and "rep b"
  shows "defined (add a b)" "defined (sub a b)" "defined (mul a b)" "defined (neg a)"
  using assms add_exact add_range sub_exact sub_range mul_exact mul_range neg_exact neg_range
  by (metis defined_simps(1) defined_simps(2) outcome.exhaust throws_simps(3))+

lemma sub_undoes_add: "rep a \<Longrightarrow> rep b \<Longrightarrow> add a b = Ret c \<Longrightarrow> sub c b = Ret a"
  using add_eq_Ret [of a b c] sub_eq_Ret [of c b a] by auto

lemma neg_involution: "rep a \<Longrightarrow> neg a = Ret c \<Longrightarrow> neg c = Ret a"
  using neg_eq_Ret [of a c] neg_eq_Ret [of c a] by auto

lemma distributive:
  "rep a \<Longrightarrow> rep b \<Longrightarrow> rep c \<Longrightarrow> add b c = Ret d \<Longrightarrow> mul a d = Ret x \<Longrightarrow>
   mul a b = Ret y \<Longrightarrow> mul a c = Ret z \<Longrightarrow> add y z = Ret x"
  by (auto simp: add_eq_Ret mul_eq_Ret algebra_simps)

end

lemma narrow_add_exact: "narrow_add w a b = (if fits_s w (a + b) then Ret (a + b) else throw_range ''Sum is out of range'')"
proof -
  have "cast_s w (a + b) - b \<noteq> a \<longleftrightarrow> \<not> fits_s w (a + b)" using cast_s_id_iff [of w "a + b"] by linarith
  then show ?thesis by (auto simp: narrow_add_def Let_def cast_s_id)
qed

lemma narrow_sub_exact: "narrow_sub w a b = (if fits_s w (a - b) then Ret (a - b) else throw_range ''Difference is out of range'')"
proof -
  have "cast_s w (a - b) + b \<noteq> a \<longleftrightarrow> \<not> fits_s w (a - b)" using cast_s_id_iff [of w "a - b"] by linarith
  then show ?thesis by (auto simp: narrow_sub_def Let_def cast_s_id)
qed

lemma c_div_mult:
  assumes "b \<noteq> 0"
  shows "c_div (a * b) b = a"
proof -
  have "c_mod (a * b) b = 0" by (simp add: c_mod_def abs_mult)
  then have "c_div (a * b) b * b = a * b" using c_div_mod [of "a * b" b] by simp
  then show ?thesis using assms by simp
qed

lemma narrow_mul_exact:
  assumes "0 < w" and "fits_s w b"
  shows "narrow_mul w a b = (if fits_s w (a * b) then Ret (a * b) else throw_range ''Product is out of range'')"
proof (cases "fits_s w (a * b)")
  case True
  then show ?thesis by (cases "b = 0") (simp_all add: narrow_mul_def Let_def cast_s_id c_div_mult)
next
  case False
  define r where "r = cast_s w (a * b)"
  have b0: "b \<noteq> 0" using False by (auto simp: fits_s_def)
  have ne: "r \<noteq> a * b" using False cast_s_id_iff [of w "a * b"] by (simp add: r_def)
  have "c_div r b \<noteq> a"
  proof
    assume h: "c_div r b = a"
    have "a * b + c_mod r b = r" using c_div_mod [of r b] unfolding h .
    then have eq: "r - a * b = c_mod r b" by linarith
    have "\<bar>b\<bar> \<le> 2 ^ (w - 1)" using assms(2) by (auto simp: fits_s_def)
    also have "\<dots> < (2::int) ^ w" using assms(1) by (intro power_strict_increasing) auto
    finally have "\<bar>r - a * b\<bar> < 2 ^ w" using c_mod_abs_less [OF b0, of r] eq by linarith
    moreover have "2 ^ w dvd r - a * b"
      using cast_s_diff [OF assms(1), of "a * b"] by (simp add: r_def dvd_diff_commute)
    ultimately have "r - a * b = 0" using zdvd_not_zless [of "\<bar>r - a * b\<bar>" "2 ^ w"] by auto
    then show False using ne by simp
  qed
  then show ?thesis using False b0 by (simp add: narrow_mul_def Let_def r_def)
qed

lemma narrow_neg_exact:
  assumes "fits_s w a"
  shows "narrow_neg w a = (if fits_s w (- a) then Ret (- a) else throw_range ''Value doesn't exist'')"
  using assms by (auto simp: narrow_neg_def cast_s_id fits_s_def)

interpretation tiny: checked_arith "fits_s 8" "narrow_add 8" "narrow_sub 8" "narrow_mul 8" "narrow_neg 8"
  by unfold_locales
    (simp_all add: narrow_add_exact narrow_sub_exact narrow_mul_exact narrow_neg_exact del: fits_s_numeral)

interpretation small: checked_arith "fits_s 16" "narrow_add 16" "narrow_sub 16" "narrow_mul 16" "narrow_neg 16"
  by unfold_locales
    (simp_all add: narrow_add_exact narrow_sub_exact narrow_mul_exact narrow_neg_exact del: fits_s_numeral)

lemma tinyint_exact:
  assumes "fits_s 8 a" and "fits_s 8 b"
  shows "tinyint_add a (ZNumeric (N_Tinyint b)) = (if fits_s 8 (a + b) then Ret (a + b) else throw_range ''Sum is out of range'')"
    and "tinyint_sub a (ZNumeric (N_Tinyint b)) = (if fits_s 8 (a - b) then Ret (a - b) else throw_range ''Difference is out of range'')"
    and "tinyint_mul a (ZNumeric (N_Tinyint b)) = (if fits_s 8 (a * b) then Ret (a * b) else throw_range ''Product is out of range'')"
  using assms narrow_mul_exact [of 8 b a]
  by (simp_all add: tinyint_add_def tinyint_sub_def tinyint_mul_def tinyint_arg_def tinyint_of_def
      narrow_add_exact narrow_sub_exact del: fits_s_numeral)

lemma smallint_exact:
  assumes "fits_s 16 a" and "fits_s 16 b"
  shows "smallint_add a (ZNumeric (N_Smallint b)) = (if fits_s 16 (a + b) then Ret (a + b) else throw_range ''Sum is out of range'')"
    and "smallint_sub a (ZNumeric (N_Smallint b)) = (if fits_s 16 (a - b) then Ret (a - b) else throw_range ''Difference is out of range'')"
    and "smallint_mul a (ZNumeric (N_Smallint b)) = (if fits_s 16 (a * b) then Ret (a * b) else throw_range ''Product is out of range'')"
  using assms narrow_mul_exact [of 16 b a]
  by (simp_all add: smallint_add_def smallint_sub_def smallint_mul_def smallint_arg_def smallint_of_def
      narrow_add_exact narrow_sub_exact del: fits_s_numeral)

text \<open>
  Property C22. \<^verbatim>\<open>add\<close>, \<^verbatim>\<open>sub\<close> and \<^verbatim>\<open>mul\<close> of \<^verbatim>\<open>Tinyint\<close> and \<^verbatim>\<open>Smallint\<close> return the exact
  result when it fits 8 or 16 bits and throw a range exception otherwise, for every pair of stored
  values; subtraction undoes every addition that returned.
\<close>

theorem narrow_arith_exact:
  assumes "fits_s 8 a" and "fits_s 8 b" and "fits_s 16 c" and "fits_s 16 d"
  shows "tinyint_add a (ZNumeric (N_Tinyint b)) = (if fits_s 8 (a + b) then Ret (a + b) else throw_range ''Sum is out of range'') \<and>
    tinyint_sub a (ZNumeric (N_Tinyint b)) = (if fits_s 8 (a - b) then Ret (a - b) else throw_range ''Difference is out of range'') \<and>
    tinyint_mul a (ZNumeric (N_Tinyint b)) = (if fits_s 8 (a * b) then Ret (a * b) else throw_range ''Product is out of range'') \<and>
    smallint_add c (ZNumeric (N_Smallint d)) = (if fits_s 16 (c + d) then Ret (c + d) else throw_range ''Sum is out of range'') \<and>
    smallint_sub c (ZNumeric (N_Smallint d)) = (if fits_s 16 (c - d) then Ret (c - d) else throw_range ''Difference is out of range'') \<and>
    smallint_mul c (ZNumeric (N_Smallint d)) = (if fits_s 16 (c * d) then Ret (c * d) else throw_range ''Product is out of range'') \<and>
    (\<forall>e. tinyint_add a (ZNumeric (N_Tinyint b)) = Ret e \<longrightarrow> tinyint_sub e (ZNumeric (N_Tinyint b)) = Ret a) \<and>
    (\<forall>e. smallint_add c (ZNumeric (N_Smallint d)) = Ret e \<longrightarrow> smallint_sub e (ZNumeric (N_Smallint d)) = Ret c)"
  using assms tiny.sub_undoes_add [of a b] small.sub_undoes_add [of c d]
  by (simp add: tinyint_exact smallint_exact tinyint_sub_def tinyint_arg_def tinyint_of_def smallint_sub_def smallint_arg_def smallint_of_def
      narrow_add_exact narrow_sub_exact del: fits_s_numeral)

theorem narrow_arith_exact_witness:
  "tinyint_mul (-16) (ZNumeric (N_Tinyint 8)) = Ret (-128) \<and>
   tinyint_mul 16 (ZNumeric (N_Tinyint 8)) = throw_range ''Product is out of range'' \<and>
   smallint_add 30000 (ZNumeric (N_Smallint 2767)) = Ret 32767 \<and>
   smallint_sub 32767 (ZNumeric (N_Smallint 2767)) = Ret 30000 \<and>
   smallint_add 30000 (ZNumeric (N_Smallint 2768)) = throw_range ''Sum is out of range''"
  using narrow_arith_exact [of "-16" 8 30000 2767] narrow_arith_exact [of 16 8 30000 2768] by simp

lemma c_div_fits:
  assumes "fits_s w a" and "b \<noteq> 0"
  shows "fits_s w (c_div a b) \<longleftrightarrow> \<not> (a = - (2 ^ (w - 1)) \<and> b = -1)"
proof -
  define p :: int where "p = 2 ^ (w - 1)"
  have p: "1 \<le> p" "- p \<le> a" "a < p" using assms(1) by (auto simp: p_def fits_s_def)
  consider "b = 1" | "b = -1" | "2 \<le> \<bar>b\<bar>" using assms(2) by linarith
  then show ?thesis
  proof cases
    case 1
    then show ?thesis using assms(1) by (simp add: c_div_def sgn_mult_abs)
  next
    case 2
    then have "c_div a b = - a" by (simp add: c_div_def sgn_mult_abs)
    then show ?thesis using p 2 by (auto simp: fits_s_def p_def)
  next
    case 3
    have "\<bar>c_div a b\<bar> \<le> \<bar>a\<bar> div \<bar>b\<bar>"
      by (auto simp: c_div_def abs_mult abs_sgn_eq pos_imp_zdiv_nonneg_iff)
    also have "\<dots> \<le> \<bar>a\<bar> div 2" using 3 by (intro zdiv_mono2) auto
    also have "\<dots> < p" using p by linarith
    finally have "\<bar>c_div a b\<bar> < p" .
    then show ?thesis using 3 by (auto simp: fits_s_def p_def)
  qed
qed

text \<open>
  Property C23. Division of the narrow integers is exact except in one case: the minimum divided by
  -1 returns the minimum itself, with no exception, although the other operations report overflow.
\<close>

theorem narrow_div_exact:
  assumes "0 < w" and "fits_s w a" and "b \<noteq> 0"
  shows "narrow_div w a b = Ret (if a = - (2 ^ (w - 1)) \<and> b = -1 then a else c_div a b)"
proof (cases "a = - (2 ^ (w - 1)) \<and> b = -1")
  case True
  then have "c_div a b = 2 ^ (w - 1)" by (simp add: c_div_def)
  moreover have "cast_s w (2 ^ (w - 1)) = - (2 ^ (w - 1))"
    using assms(1) by (cases w) (simp_all add: cast_s_def signed_take_bit_eq_take_bit_minus bit_exp_iff)
  ultimately show ?thesis using True by (simp add: narrow_div_def)
next
  case False
  then have "fits_s w (c_div a b)" using c_div_fits [OF assms(2,3)] by simp
  then show ?thesis using False assms(3) by (auto simp: narrow_div_def cast_s_id)
qed

theorem narrow_div_exact_witness:
  "narrow_div 8 (-128) (-1) = Ret (-128) \<and> narrow_div 16 (-32767) 2 = Ret (-16383)"
  using narrow_div_exact [of 8 "-128" "-1"] narrow_div_exact [of 16 "-32767" 2]
  by (simp add: c_div_def)

text \<open>
  Property C24. The constructors of the narrow integers look at the low 32 bits of a long: a long is
  accepted, and stored as the value of those bits, exactly when that value fits the class.
\<close>

theorem narrow_init_long:
  assumes "0 < w" and "w \<le> 32"
  shows "narrow_init w (ZLong l) = Ret v \<longleftrightarrow> v = cast_s 32 l \<and> fits_s w (cast_s 32 l)"
proof -
  have "number < - (2 ^ (w - 1)) \<or> 2 ^ (w - 1) - 1 < number \<longleftrightarrow> \<not> fits_s w number" for number :: int
    by (auto simp: fits_s_def)
  then show ?thesis by (auto simp: narrow_init_def narrow_check_def cast_s_id)
qed

theorem narrow_init_long_witness:
  "narrow_init 8 (ZLong 4294967296) = Ret 0 \<and> narrow_init 8 (ZLong 127) = Ret 127"
  using narrow_init_long [of 8 4294967296 0] narrow_init_long [of 8 127 127] by (simp add: cast_s_def)

lemma narrow_check_ok: "fits_s w v \<Longrightarrow> narrow_check w v = Ret v"
  by (auto simp: narrow_check_def fits_s_def cast_s_id)

lemma parse_int_show:
  assumes "fits_s 16 v"
  shows "php_scylladb_parse_int (show_int v) = Ret (Some v)"
proof -
  have "fits_s 64 v" using assms by auto
  then have len: "length (show_int v) < 2 ^ 31" by (rule show_int_length)
  have "\<bar>v\<bar> mod 2 ^ 32 = \<bar>v\<bar>" "\<bar>v\<bar> < 2 ^ 64" using assms by auto
  then show ?thesis
    using parse_int_iff [OF len, of v] int_literal_show [of v] assms by (auto simp: sgn_mult_abs)
qed

lemma parse_bigint_show:
  assumes "fits_s 64 v"
  shows "php_scylladb_parse_bigint (show_int v) = Ret v"
  using parse_bigint_iff [OF show_int_length [OF assms], of v] int_literal_show [of v] assms by blast

text \<open>
  Property C25. Every fixed-width integer is restored by the constructor from its own text.
\<close>

theorem fixed_int_text_round_trip:
  "(fits_s 8 t \<longrightarrow> php_scylladb_tinyint_init (ZString (tinyint_to_string t)) = Ret t) \<and>
   (fits_s 16 s \<longrightarrow> php_scylladb_smallint_init (ZString (smallint_to_string s)) = Ret s) \<and>
   (fits_s 64 b \<longrightarrow> php_scylladb_bigint_init conv (ZString (bigint_to_string b)) = Ret b)"
proof (intro conjI impI)
  assume "fits_s 8 t"
  then show "php_scylladb_tinyint_init (ZString (tinyint_to_string t)) = Ret t"
    using parse_int_show [of t] narrow_check_ok [of 8 t]
    by (simp add: php_scylladb_tinyint_init_def tinyint_of_def narrow_init_def tinyint_to_string_def)
next
  assume "fits_s 16 s"
  then show "php_scylladb_smallint_init (ZString (smallint_to_string s)) = Ret s"
    using parse_int_show [of s] narrow_check_ok [of 16 s]
    by (simp add: php_scylladb_smallint_init_def smallint_of_def narrow_init_def smallint_to_string_def)
next
  assume "fits_s 64 b"
  then show "php_scylladb_bigint_init conv (ZString (bigint_to_string b)) = Ret b"
    using parse_bigint_show [of b] by (simp add: php_scylladb_bigint_init_def bigint_to_string_def)
qed

theorem fixed_int_text_round_trip_witness:
  "php_scylladb_tinyint_init (ZString (tinyint_to_string (-128))) = Ret (-128) \<and>
   php_scylladb_smallint_init (ZString (smallint_to_string 32767)) = Ret 32767 \<and>
   php_scylladb_bigint_init (\<lambda>_. 0) (ZString (bigint_to_string INT64_MIN)) = Ret INT64_MIN"
  using fixed_int_text_round_trip [of "-128" 32767 INT64_MIN "\<lambda>_. 0"] by simp



text \<open>The comparison handlers of the three classes are one coherent order.\<close>

lemma int_compare_eq: "(if a = b then 0 else if a < b then -1 else 1) = php_scylladb_compare a (b :: int)"
  by (simp add: php_scylladb_compare_def)

interpretation tinyint_order: three_way php_scylladb_tinyint_compare
  unfolding php_scylladb_tinyint_compare_def int_compare_eq
  by unfold_locales (simp, rule php_scylladb_compare_flip, simp)

interpretation bigint_order: three_way php_scylladb_bigint_compare
  unfolding php_scylladb_bigint_compare_def int_compare_eq
  by unfold_locales (simp, rule php_scylladb_compare_flip, simp)

interpretation smallint_order: three_way php_scylladb_smallint_compare
  unfolding php_scylladb_smallint_compare_def int_compare_eq
  by unfold_locales (simp, rule php_scylladb_compare_flip, simp)

end
