(* ===== verification/Hashing.thy ===== *)
theory Hashing
  imports FixedInts "HOL-Library.Product_Lexorder"
begin

text \<open>
  The hash and comparison primitives of \<^verbatim>\<open>src/Type/ValueHash.c\<close> and
  \<^verbatim>\<open>src/Type/ValueHash.h\<close> on which the \<^verbatim>\<open>hash_value\<close> and
  \<^verbatim>\<open>compare\<close> handlers are built, with the proof that the floating point comparison
  is a total order.
\<close>

section \<open>Primitives\<close>

definition php_scylladb_bigint_hash :: "int \<Rightarrow> 32 word" where
  "php_scylladb_bigint_hash value = word_of_int (xor value (drop_bit 32 value))"

definition php_scylladb_combine_hash :: "32 word \<Rightarrow> 32 word \<Rightarrow> 32 word" where
  "php_scylladb_combine_hash seed hashv =
     xor seed (hashv + 0x9e3779b9 + push_bit 6 seed + drop_bit 2 seed)"

text \<open>\<^verbatim>\<open>double_to_bits\<close>: one bit pattern for all NaNs.\<close>

definition double_to_bits :: "64 word \<Rightarrow> int" where
  "double_to_bits value = ieee_bits 52 11 0x7ff8000000000000 (unat value)"

definition double_hash :: "64 word \<Rightarrow> 32 word" where
  "double_hash value = php_scylladb_bigint_hash (double_to_bits value)"

definition double_compare :: "64 word \<Rightarrow> 64 word \<Rightarrow> int" where
  "double_compare d1 d2 =
     (if dbl_less d1 d2 then -1
      else if dbl_less d2 d1 then 1
      else php_scylladb_compare (double_to_bits d1) (double_to_bits d2))"

text \<open>\<^verbatim>\<open>php_scylladb_mpz_hash\<close> folds the 64-bit limbs, lowest first.\<close>

definition php_scylladb_mpz_hash :: "gmp \<Rightarrow> 32 word \<Rightarrow> int \<Rightarrow> 32 word" where
  "php_scylladb_mpz_hash G seed n =
     foldl (\<lambda>hashv i. php_scylladb_combine_hash hashv (php_scylladb_bigint_hash (sint (mpz_getlimbn G n i))))
       seed [0..<mpz_size G n]"

section \<open>Floating point order\<close>

text \<open>
  Sorting key of a floating point number: NaNs last and all equal, then by value, then by the signed
  bit pattern, which puts -0.0 before 0.0.
\<close>

definition ieee_key :: "nat \<Rightarrow> nat \<Rightarrow> nat \<Rightarrow> int \<times> int \<times> int" where
  "ieee_key mb eb n =
     (if ieee_isnan mb eb n then (1, 0, 0)
      else (0, ieee_scaled mb eb n, cast_s (Suc (mb + eb)) (int n)))"

lemma cast_s_top:
  assumes "n < 2 ^ Suc k"
  shows "cast_s (Suc k) (int n) = (if odd (n div 2 ^ k) then int n - 2 ^ Suc k else int n)"
proof -
  have "take_bit (Suc k) (int n) = int n"
    using assms by (simp add: take_bit_int_eq_self_iff) (metis of_nat_less_iff of_nat_numeral of_nat_power power_Suc)
  moreover have "int n div 2 ^ k = int (n div 2 ^ k)" by (simp add: of_nat_div)
  then have "bit (int n) k = odd (n div 2 ^ k)" by (simp add: bit_iff_odd)
  ultimately show ?thesis by (simp add: cast_s_def signed_take_bit_eq_take_bit_minus)
qed

lemma ieee_bits_below_nan:
  assumes "n < 2 ^ Suc (mb + eb)" and "\<not> ieee_isnan mb eb n"
  shows "cast_s (Suc (mb + eb)) (int n) \<le> (2 ^ eb - 1) * 2 ^ mb"
proof (cases "ieee_sign mb eb n")
  case True
  have "(int n :: int) < 2 ^ Suc (mb + eb)" using assms(1) by (metis of_nat_less_iff of_nat_numeral of_nat_power)
  moreover have "0 \<le> ((2::int) ^ eb - 1) * 2 ^ mb" by simp
  moreover have "cast_s (Suc (mb + eb)) (int n) = int n - 2 ^ Suc (mb + eb)"
    using True cast_s_top [OF assms(1)] unfolding ieee_sign_def by simp
  ultimately show ?thesis by linarith
next
  case False
  define e where "e = n div 2 ^ mb"
  have "n div 2 ^ (mb + eb) < 2" using assms(1) by (simp add: less_mult_imp_div_less mult.commute)
  then have z: "n div 2 ^ (mb + eb) = 0" using False by (auto simp: ieee_sign_def dest: less_2_cases)
  then have "e div 2 ^ eb = 0" by (simp add: e_def div_mult2_eq [symmetric] power_add)
  then have e: "e < 2 ^ eb" by (simp add: div_eq_0_iff)
  then have ee: "ieee_exp mb eb n = e" by (simp add: ieee_exp_def e_def)
  have n: "n = e * 2 ^ mb + n mod 2 ^ mb" unfolding e_def by (rule div_mult_mod_eq [symmetric])
  have "n \<le> (2 ^ eb - 1) * 2 ^ mb"
  proof (cases "e = 2 ^ eb - 1")
    case True
    then have "n mod 2 ^ mb = 0" using assms(2) ee by (simp add: ieee_isnan_def ieee_frac_def)
    then show ?thesis using n True by simp
  next
    case False
    then have "Suc e \<le> 2 ^ eb - 1" using e by simp
    then have "Suc e * 2 ^ mb \<le> (2 ^ eb - 1) * 2 ^ mb" by (rule mult_le_mono1)
    moreover have "n mod 2 ^ mb < 2 ^ mb" by simp
    ultimately show ?thesis using n unfolding mult_Suc by linarith
  qed
  then have "int n \<le> int ((2 ^ eb - 1) * 2 ^ mb)" by (simp only: of_nat_le_iff)
  also have "\<dots> = (2 ^ eb - 1) * 2 ^ mb" by (simp add: of_nat_diff)
  finally show ?thesis using cast_s_top [OF assms(1)] z by simp
qed

lemma ieee_compare_key:
  assumes "a < 2 ^ Suc (mb + eb)" and "b < 2 ^ Suc (mb + eb)" and "(2 ^ eb - 1) * 2 ^ mb < canon"
  shows "ieee_compare mb eb canon a b = php_scylladb_compare (ieee_key mb eb a) (ieee_key mb eb b)"
proof -
  have lt: "\<not> ieee_isnan mb eb n \<Longrightarrow> cast_s (Suc (mb + eb)) (int n) < canon" if "n < 2 ^ Suc (mb + eb)" for n
    using ieee_bits_below_nan [OF that] assms(3) by linarith
  show ?thesis
    using lt [OF assms(1)] lt [OF assms(2)]
    by (auto simp: ieee_compare_def ieee_less_def ieee_bits_def ieee_key_def php_scylladb_compare_def less_prod_def)
qed

lemma double_compare_key: "double_compare a b = php_scylladb_compare (ieee_key 52 11 (unat a)) (ieee_key 52 11 (unat b))"
proof -
  have "unat d < 2 ^ Suc (52 + 11)" for d :: "64 word" using unsigned_less [of d] by simp
  then show ?thesis
    using ieee_compare_key [of "unat a" 52 11 "unat b" "0x7ff8000000000000"]
    unfolding double_compare_def ieee_compare_def double_to_bits_def by simp
qed

interpretation double_order: three_way double_compare
  unfolding double_compare_key
  by unfold_locales (simp, rule php_scylladb_compare_flip, simp)

lemma cast_s_unat_inject: "cast_s 64 (int (unat a)) = cast_s 64 (int (unat b)) \<longleftrightarrow> a = (b :: 64 word)"
proof -
  have "cast_s 64 (int (unat d)) = sint d" for d :: "64 word"
    by (simp add: cast_s_def sint_uint)
  then show ?thesis by (metis signed_word_eqI)
qed

lemma double_compare_zero:
  "double_compare a b = 0 \<longleftrightarrow> a = b \<or> dbl_isnan a \<and> dbl_isnan b"
  using cast_s_unat_inject [of a b] by (auto simp: double_compare_key ieee_key_def)

text \<open>
  Property C27. \<^verbatim>\<open>double_compare\<close> is a total order on bit patterns: reflexive,
  antisymmetric and transitive in the three-way sense, equal exactly on identical patterns and on
  any two NaNs, and numbers it calls equal have equal hashes.
\<close>

theorem double_compare_total_order:
  "three_way double_compare \<and>
   (double_compare a b = 0 \<longleftrightarrow> a = b \<or> dbl_isnan a \<and> dbl_isnan b) \<and>
   (double_compare a b = 0 \<longrightarrow> double_hash a = double_hash b)"
proof (intro conjI impI)
  show "three_way double_compare" by (rule double_order.three_way_axioms)
  show "double_compare a b = 0 \<longleftrightarrow> a = b \<or> dbl_isnan a \<and> dbl_isnan b" by (rule double_compare_zero)
  assume "double_compare a b = 0"
  then show "double_hash a = double_hash b"
    by (auto simp: double_compare_zero double_hash_def double_to_bits_def ieee_bits_def)
qed

theorem double_compare_total_order_witness:
  "double_compare 0x7ff8000000000001 0xfff8000000000000 = 0 \<and>
   double_hash 0x7ff8000000000001 = double_hash 0xfff8000000000000 \<and>
   double_compare 0x8000000000000000 0 = -1"
proof -
  have z: "double_compare 0x7ff8000000000001 0xfff8000000000000 = 0"
    and n: "double_compare 0x8000000000000000 0 = -1" by code_simp+
  show ?thesis
    using z n double_compare_total_order [of "0x7ff8000000000001" "0xfff8000000000000"] by blast
qed

end
