(* ===== verification/BigNumbers.thy ===== *)
theory BigNumbers
  imports Hashing
begin

text \<open>
  The classes over GMP integers, \<^verbatim>\<open>src/Numbers/Varint.c\<close> and
  \<^verbatim>\<open>src/Numbers/Decimal.c\<close>, and the object handling of
  \<^verbatim>\<open>src/Numbers/Float.c\<close>. A decimal is its unscaled value and its scale.
  \<^verbatim>\<open>Decimal::add\<close> and \<^verbatim>\<open>sub\<close> write to their operands, so they
  act on a heap of decimal objects.
\<close>

section \<open>Varint\<close>

definition varint_of :: "zval \<Rightarrow> int option" where
  "varint_of v = (case v of ZNumeric (N_Varint i) \<Rightarrow> Some i | _ \<Rightarrow> None)"

definition varint_arg :: "zval \<Rightarrow> (int \<Rightarrow> int outcome) \<Rightarrow> int outcome" where
  "varint_arg v f = (case varint_of v of Some i \<Rightarrow> f i | None \<Rightarrow> throw_arg ''an instance of Varint'')"

definition varint_to_long :: "gmp \<Rightarrow> int \<Rightarrow> int outcome" where
  "varint_to_long G self =
     (if mpz_cmp_si G self INT64_MIN < 0 then throw_range ''Value is too small''
      else if mpz_cmp_si G self INT64_MAX > 0 then throw_range ''Value is too big''
      else Ret (mpz_get_si G self))"

definition varint_to_string :: "gmp \<Rightarrow> int \<Rightarrow> string" where
  "varint_to_string G self = php_scylladb_format_integer G self"

definition php_scylladb_varint_init :: "gmp \<Rightarrow> zval \<Rightarrow> int outcome" where
  "php_scylladb_varint_init G num =
     (case num of
        ZLong l \<Rightarrow> Ret l
      | ZDouble d \<Rightarrow> Ret (mpz_set_d G d)
      | ZString s \<Rightarrow> php_scylladb_parse_varint G s
      | ZNumeric (N_Varint i) \<Rightarrow> Ret i
      | _ \<Rightarrow> throw_arg ''a long, double, numeric string or a Varint instance'')"

definition varint_add :: "gmp \<Rightarrow> int \<Rightarrow> zval \<Rightarrow> int outcome" where
  "varint_add G self num = varint_arg num (\<lambda>b. Ret (mpz_add G self b))"

definition varint_sub :: "gmp \<Rightarrow> int \<Rightarrow> zval \<Rightarrow> int outcome" where
  "varint_sub G self num = varint_arg num (\<lambda>b. Ret (mpz_sub G self b))"

definition varint_mul :: "gmp \<Rightarrow> int \<Rightarrow> zval \<Rightarrow> int outcome" where
  "varint_mul G self num = varint_arg num (\<lambda>b. Ret (mpz_mul G self b))"

definition varint_div :: "gmp \<Rightarrow> int \<Rightarrow> zval \<Rightarrow> int outcome" where
  "varint_div G self num = varint_arg num (\<lambda>b.
     if mpz_sgn G b = 0 then Throw (Exn DivideByZeroException ''Cannot divide by zero'')
     else Ret (mpz_div G self b))"

definition varint_mod :: "gmp \<Rightarrow> int \<Rightarrow> zval \<Rightarrow> int outcome" where
  "varint_mod G self num = varint_arg num (\<lambda>b.
     if mpz_sgn G b = 0 then Throw (Exn DivideByZeroException ''Cannot modulo by zero'')
     else Ret (mpz_mod G self b))"

definition varint_abs :: "gmp \<Rightarrow> int \<Rightarrow> int outcome" where
  "varint_abs G self = Ret (mpz_abs G self)"

definition varint_neg :: "gmp \<Rightarrow> int \<Rightarrow> int outcome" where
  "varint_neg G self = Ret (mpz_neg G self)"

definition varint_sqrt :: "gmp \<Rightarrow> int \<Rightarrow> int outcome" where
  "varint_sqrt G self =
     (if mpz_sgn G self < 0 then throw_range ''Cannot take a square root of a negative number''
      else Ret (mpz_sqrt G self))"

definition php_scylladb_varint_compare :: "gmp \<Rightarrow> int \<Rightarrow> int \<Rightarrow> int" where
  "php_scylladb_varint_compare G a b = mpz_cmp G a b"

definition php_scylladb_varint_hash_value :: "gmp \<Rightarrow> int \<Rightarrow> 32 word" where
  "php_scylladb_varint_hash_value G self = php_scylladb_mpz_hash G 0 self"

section \<open>Decimal\<close>

record decimal =
  dec_value :: int
  dec_scale :: int

text \<open>
  \<^verbatim>\<open>from_double\<close>: mantissa and exponent from the bit pattern, trailing zero bits moved
  to a negative exponent, and \<open>2 ^ e\<close> for negative \<open>e\<close> rewritten as \<open>5 ^ - e / 10 ^ - e\<close>.
\<close>

function strip_zeros :: "int \<Rightarrow> int \<Rightarrow> int \<times> int" where
  "strip_zeros mantissa exponent =
     (if exponent < 0 \<and> even mantissa then strip_zeros (mantissa div 2) (exponent + 1)
      else (mantissa, exponent))"
  by pat_completeness auto
termination by (relation "measure (\<lambda>(m, e). nat (- e))") auto

declare strip_zeros.simps [simp del]

definition from_double :: "gmp \<Rightarrow> 64 word \<Rightarrow> decimal outcome" where
  "from_double G value =
     (let raw = sint value;
          mantissa0 = int (ieee_frac 52 (unat value));
          exponent0 = int (ieee_exp 52 11 (unat value));
          denormal = (exponent0 = 0);
          exponent1 = (if denormal then - 1022 else exponent0 - 1023) - 52;
          mantissa1 = (if denormal then mantissa0 else or mantissa0 (push_bit 52 1));
          (mantissa, exponent) = strip_zeros mantissa1 exponent1
      in case mpz_set_str G (show_int mantissa) 10 of
           None \<Rightarrow> UB
         | Some v0 \<Rightarrow>
             let v = (if raw < 0 then mpz_neg G v0 else v0)
             in if exponent < 0
                then Ret \<lparr>dec_value = mpz_mul G v (mpz_ui_pow_ui G 5 (nat (- exponent))), dec_scale = - exponent\<rparr>
                else Ret \<lparr>dec_value = mpz_mul_2exp G v (nat exponent), dec_scale = 0\<rparr>)"

definition php_scylladb_decimal_init :: "gmp \<Rightarrow> zval \<Rightarrow> decimal outcome" where
  "php_scylladb_decimal_init G value =
     (case value of
        ZLong l \<Rightarrow> Ret \<lparr>dec_value = l, dec_scale = 0\<rparr>
      | ZDouble d \<Rightarrow>
          if \<not> dbl_isfinite d then throw_arg ''Value of NaN or +/- infinity is not supported''
          else from_double G d
      | ZString s \<Rightarrow>
          bind_outcome (php_scylladb_parse_decimal G s) (\<lambda>(v, scale). Ret \<lparr>dec_value = v, dec_scale = scale\<rparr>)
      | ZNumeric (N_Decimal v scale) \<Rightarrow> Ret \<lparr>dec_value = v, dec_scale = scale\<rparr>
      | _ \<Rightarrow> throw_arg ''a long, a double, a numeric string or a Decimal'')"

definition decimal_to_string :: "gmp \<Rightarrow> decimal \<Rightarrow> string outcome" where
  "decimal_to_string G self = php_scylladb_format_decimal G (dec_value self) (dec_scale self)"

text \<open>
  The heap of decimal objects. \<open>align_decimals\<close> multiplies the value of the operand with the smaller
  scale in place and leaves its scale. The scale difference is computed on \<^verbatim>\<open>long\<close>.
\<close>

type_synonym dec_heap = "nat \<rightharpoonup> decimal"

definition align_decimals :: "gmp \<Rightarrow> dec_heap \<Rightarrow> nat \<Rightarrow> nat \<Rightarrow> dec_heap outcome" where
  "align_decimals G h lhs rhs =
     (case (h lhs, h rhs) of
        (Some l, Some r) \<Rightarrow>
          if dec_scale l < dec_scale r then
            if fits_s 64 (dec_scale r - dec_scale l) then
              Ret (h(lhs \<mapsto> l\<lparr>dec_value := mpz_mul G (dec_value l)
                    (mpz_ui_pow_ui G 10 (nat (dec_scale r - dec_scale l)))\<rparr>))
            else UB
          else if dec_scale r < dec_scale l then
            if fits_s 64 (dec_scale l - dec_scale r) then
              Ret (h(rhs \<mapsto> r\<lparr>dec_value := mpz_mul G (dec_value r)
                    (mpz_ui_pow_ui G 10 (nat (dec_scale l - dec_scale r)))\<rparr>))
            else UB
          else Ret h
      | _ \<Rightarrow> UB)"

text \<open>
  \<^verbatim>\<open>Decimal::add\<close> and \<^verbatim>\<open>sub\<close>: \<open>self\<close> and
  \<open>num\<close> are addresses (possibly the same), \<open>result\<close> the address of the new object; \<open>None\<close> is an
  argument that is not a decimal.
\<close>

definition decimal_combine ::
    "(int \<Rightarrow> int \<Rightarrow> int) \<Rightarrow> gmp \<Rightarrow> dec_heap \<Rightarrow> nat \<Rightarrow> nat option \<Rightarrow> nat \<Rightarrow> dec_heap outcome" where
  "decimal_combine f G h self arg result =
     (case arg of
        None \<Rightarrow> throw_arg ''a Decimal''
      | Some num \<Rightarrow>
          bind_outcome (align_decimals G h self num) (\<lambda>h'.
            case (h' self, h' num) of
              (Some a, Some b) \<Rightarrow>
                Ret (h'(result \<mapsto> \<lparr>dec_value = f (dec_value a) (dec_value b),
                                    dec_scale = max (dec_scale a) (dec_scale b)\<rparr>))
            | _ \<Rightarrow> UB))"

definition decimal_add :: "gmp \<Rightarrow> dec_heap \<Rightarrow> nat \<Rightarrow> nat option \<Rightarrow> nat \<Rightarrow> dec_heap outcome" where
  "decimal_add G = decimal_combine (mpz_add G) G"

definition decimal_sub :: "gmp \<Rightarrow> dec_heap \<Rightarrow> nat \<Rightarrow> nat option \<Rightarrow> nat \<Rightarrow> dec_heap outcome" where
  "decimal_sub G = decimal_combine (mpz_sub G) G"

definition decimal_mul :: "gmp \<Rightarrow> decimal \<Rightarrow> decimal option \<Rightarrow> decimal outcome" where
  "decimal_mul G a arg =
     (case arg of
        None \<Rightarrow> throw_arg ''a Decimal''
      | Some b \<Rightarrow>
          if fits_s 64 (dec_scale a + dec_scale b)
          then Ret \<lparr>dec_value = mpz_mul G (dec_value a) (dec_value b), dec_scale = dec_scale a + dec_scale b\<rparr>
          else UB)"

definition decimal_div :: "decimal outcome" where
  "decimal_div = Throw (Exn RuntimeException ''Not implemented'')"

definition decimal_mod :: "decimal outcome" where
  "decimal_mod = Throw (Exn RuntimeException ''Not implemented'')"

definition decimal_sqrt :: "decimal outcome" where
  "decimal_sqrt = Throw (Exn RuntimeException ''Not implemented'')"

definition decimal_abs :: "gmp \<Rightarrow> decimal \<Rightarrow> decimal" where
  "decimal_abs G a = \<lparr>dec_value = mpz_abs G (dec_value a), dec_scale = dec_scale a\<rparr>"

definition decimal_neg :: "gmp \<Rightarrow> decimal \<Rightarrow> decimal" where
  "decimal_neg G a = \<lparr>dec_value = mpz_neg G (dec_value a), dec_scale = dec_scale a\<rparr>"

definition php_scylladb_decimal_compare :: "gmp \<Rightarrow> decimal \<Rightarrow> decimal \<Rightarrow> int" where
  "php_scylladb_decimal_compare G a b =
     (if dec_scale a = dec_scale b then mpz_cmp G (dec_value a) (dec_value b)
      else if dec_scale a < dec_scale b then -1
      else 1)"

definition php_scylladb_decimal_hash_value :: "gmp \<Rightarrow> decimal \<Rightarrow> 32 word" where
  "php_scylladb_decimal_hash_value G self =
     php_scylladb_mpz_hash G (word_of_int (dec_scale self)) (dec_value self)"

section \<open>Float\<close>

text \<open>
  \<^verbatim>\<open>php_scylladb_float_init\<close>. \<open>of_long\<close> and \<open>of_double\<close> are the C conversions
  to \<^verbatim>\<open>float\<close>. For a Float argument the code fetches the object from
  \<^verbatim>\<open>return_value\<close> instead of \<^verbatim>\<open>value\<close>: as a constructor that is not
  an object, through \<^verbatim>\<open>Type::float()->create()\<close> it is the zero-initialised new object.
\<close>

definition php_scylladb_float_init ::
    "(int \<Rightarrow> 32 word) \<Rightarrow> (64 word \<Rightarrow> 32 word) \<Rightarrow> (string \<Rightarrow> 32 word \<times> nat \<times> bool) \<Rightarrow> bool \<Rightarrow> zval \<Rightarrow>
     32 word outcome" where
  "php_scylladb_float_init of_long of_double strtof as_constructor value =
     (case value of
        ZLong l \<Rightarrow> Ret (of_long l)
      | ZDouble d \<Rightarrow> Ret (of_double d)
      | ZString s \<Rightarrow> php_scylladb_parse_float strtof s
      | ZNumeric (N_Float f) \<Rightarrow> if as_constructor then UB else Ret 0
      | _ \<Rightarrow> throw_arg ''a long, double, numeric string or a Float instance'')"

definition float_to_bits :: "32 word \<Rightarrow> int" where
  "float_to_bits value = ieee_bits 23 8 0x7fc00000 (unat value)"

definition php_scylladb_float_compare :: "32 word \<Rightarrow> 32 word \<Rightarrow> int" where
  "php_scylladb_float_compare a b =
     (if ieee_less 23 8 (unat a) (unat b) then -1
      else if ieee_less 23 8 (unat b) (unat a) then 1
      else if float_to_bits a < float_to_bits b then -1
      else if float_to_bits b < float_to_bits a then 1 else 0)"

definition php_scylladb_float_hash_value :: "32 word \<Rightarrow> 32 word" where
  "php_scylladb_float_hash_value self = word_of_int (float_to_bits self)"

definition float_isNaN :: "32 word \<Rightarrow> bool" where
  "float_isNaN self = ieee_isnan 23 8 (unat self)"

definition float_isFinite :: "32 word \<Rightarrow> bool" where
  "float_isFinite self = ieee_isfinite 23 8 (unat self)"

definition float_isInfinite :: "32 word \<Rightarrow> bool" where
  "float_isInfinite self = (\<not> ieee_isfinite 23 8 (unat self) \<and> \<not> ieee_isnan 23 8 (unat self))"

section \<open>Properties\<close>

text \<open>
  Property C28. \<^verbatim>\<open>Varint::div\<close> rounds down and \<^verbatim>\<open>Varint::mod\<close>
  is never negative, so quotient and remainder recombine to the dividend exactly when the divisor is
  positive or divides the dividend: for a negative divisor that leaves a remainder the two methods
  disagree.
\<close>

theorem varint_div_mod:
  assumes G: "gmp_spec G" and b: "b \<noteq> 0"
    and q: "varint_div G a (ZNumeric (N_Varint b)) = Ret q" and r: "varint_mod G a (ZNumeric (N_Varint b)) = Ret r"
  shows "0 \<le> r \<and> r < \<bar>b\<bar> \<and> (q * b + r = a \<longleftrightarrow> 0 < b \<or> b dvd a)"
proof -
  have qr: "q = a div b" "r = a mod \<bar>b\<bar>"
    using q r b by (simp_all add: varint_div_def varint_mod_def varint_arg_def varint_of_def gmp_arith_simps [OF G] sgn_0_0)
  have "a div b * b + a mod b = a" by simp
  then have "q * b + r = a \<longleftrightarrow> a mod \<bar>b\<bar> = a mod b" unfolding qr by linarith
  also have "\<dots> \<longleftrightarrow> 0 < b \<or> b dvd a"
  proof (cases "0 < b")
    case False
    then have neg: "\<bar>b\<bar> = - b" "b < 0" using b by auto
    have "a mod b \<le> 0" "0 \<le> a mod \<bar>b\<bar>" using neg b by (auto simp: neg_mod_sign)
    then have "a mod \<bar>b\<bar> = a mod b \<Longrightarrow> b dvd a" by (simp add: dvd_eq_mod_eq_0)
    moreover have "b dvd a \<Longrightarrow> a mod \<bar>b\<bar> = a mod b" by (metis abs_dvd_iff dvd_imp_mod_0)
    ultimately show ?thesis using False by blast
  qed simp
  finally show ?thesis using b by (simp add: qr)
qed

theorem varint_div_mod_witness:
  "varint_div gmp_ref 7 (ZNumeric (N_Varint (-2))) = Ret (-4) \<and>
   varint_mod gmp_ref 7 (ZNumeric (N_Varint (-2))) = Ret 1 \<and> \<not> (-4) * (-2) + 1 = (7 :: int)"
proof -
  have q: "varint_div gmp_ref 7 (ZNumeric (N_Varint (-2))) = Ret (-4)"
    and r: "varint_mod gmp_ref 7 (ZNumeric (N_Varint (-2))) = Ret 1" by code_simp+
  show ?thesis using q r varint_div_mod [OF gmp_ref_spec _ q r] by simp
qed

text \<open>
  Property C29. A varint is restored by the constructor from its own text, and
  \<^verbatim>\<open>toInt\<close> returns its value when that fits 64 bits and throws a range exception
  otherwise.
\<close>

theorem varint_text_and_int:
  assumes G: "gmp_spec G" and len: "length (varint_to_string G v) < 2 ^ 31"
  shows "php_scylladb_varint_init G (ZString (varint_to_string G v)) = Ret v \<and>
    (if fits_s 64 v then varint_to_long G v = Ret v else throws RangeException (varint_to_long G v))"
proof -
  have t: "varint_to_string G v = show_int v"
    by (simp add: varint_to_string_def php_scylladb_format_integer_def gmp_get_str [OF G])
  have c: "mpz_cmp_si G v k < 0 \<longleftrightarrow> v < k" "0 < mpz_cmp_si G v k \<longleftrightarrow> k < v" for k
    using gmp_cmp_sgn(2) [OF G, of v k] by (auto simp: sgn_if split: if_splits)
  show ?thesis
    using parse_varint_show [OF G, of v] len
    by (auto simp: php_scylladb_varint_init_def t varint_to_long_def c gmp_arith_simps [OF G])
qed

theorem varint_text_and_int_witness:
  "php_scylladb_varint_init gmp_ref (ZString (varint_to_string gmp_ref (-9223372036854775809))) = Ret (-9223372036854775809) \<and>
   throws RangeException (varint_to_long gmp_ref (-9223372036854775809))"
proof -
  have "length (show_nat 9223372036854775809) \<le> 20" by (rule show_nat_length_less) simp_all
  then have "length (varint_to_string gmp_ref (-9223372036854775809)) < 2 ^ 31"
    by (simp add: varint_to_string_def php_scylladb_format_integer_def gmp_ref_def show_int_def)
  then show ?thesis using varint_text_and_int [OF gmp_ref_spec] by simp
qed

lemma strip_zeros_spec:
  assumes "strip_zeros m e = (m', e')" and "0 \<le> m"
  shows "e \<le> e' \<and> m = m' * 2 ^ nat (e' - e) \<and> 0 \<le> m' \<and> (e' \<le> 0 \<or> e' = e)"
  using assms
proof (induction m e rule: strip_zeros.induct)
  case (1 m e)
  show ?case
  proof (cases "e < 0 \<and> even m")
    case True
    then have "strip_zeros (m div 2) (e + 1) = (m', e')" using 1(2) by (subst (asm) strip_zeros.simps) simp
    then have ih: "e + 1 \<le> e'" "m div 2 = m' * 2 ^ nat (e' - (e + 1))" "0 \<le> m'" "e' \<le> 0 \<or> e' = e + 1"
      using 1(1) [OF True] 1(3) by auto
    have "nat (e' - e) = Suc (nat (e' - (e + 1)))" using ih(1) by simp
    moreover have "m = 2 * (m div 2)" using True by simp
    ultimately show ?thesis using ih True by auto
  next
    case False
    then show ?thesis using 1(2,3) by (subst (asm) strip_zeros.simps) auto
  qed
qed

lemma sint_negative_iff: "sint (d :: 64 word) < 0 \<longleftrightarrow> ieee_sign 52 11 (unat d)"
proof -
  have n: "unat d < 2 ^ Suc 63" using unsigned_less [of d] by simp
  have "sint d = cast_s (Suc 63) (int (unat d))" by (simp add: cast_s_def sint_uint)
  also have "\<dots> = (if odd (unat d div 2 ^ 63) then int (unat d) - 2 ^ Suc 63 else int (unat d))"
    by (rule cast_s_top [OF n])
  finally have "sint d < 0 \<longleftrightarrow> odd (unat d div 2 ^ 63)" using uint_bounded [of d] by (auto split: if_splits)
  then show ?thesis by (simp add: ieee_sign_def)
qed

lemma or_implicit_one: "f < 2 ^ 52 \<Longrightarrow> or (int f) (push_bit 52 1) = int f + 2 ^ 52"
proof -
  assume "f < 2 ^ 52"
  then have "take_bit 52 (int f) = int f" by (simp add: take_bit_int_eq_self_iff)
  then have "and (int f) (push_bit 52 1) = 0"
    by (metis bit_and_iff bit_push_bit_iff bit_take_bit_iff bit_eqI bit_0_eq bot_apply linorder_not_less bot_bool_def)
  then show ?thesis using plus_and_or [of "int f" "push_bit 52 1"] by (simp add: push_bit_eq_mult)
qed

text \<open>The fields \<^verbatim>\<open>from_double\<close> extracts, and the exact value they stand for.\<close>

lemma from_double_fields:
  defines "f \<equiv> \<lambda>d. int (ieee_frac 52 (unat d))" and "e \<equiv> \<lambda>d. int (ieee_exp 52 11 (unat d))"
  defines "m1 \<equiv> \<lambda>d. if e d = 0 then f d else or (f d) (push_bit 52 1)"
    and "e1 \<equiv> \<lambda>d. (if e d = 0 then - 1022 else e d - 1023) - 52"
    and "s \<equiv> \<lambda>d. if sint d < 0 then -1 else (1 :: int)"
  shows "dbl_scaled d = s d * m1 d * 2 ^ nat (e1 d + 1074)" and "0 \<le> m1 d" and "- 1074 \<le> e1 d"
proof -
  have "ieee_frac 52 (unat d) < 2 ^ 52" by (simp add: ieee_frac_def)
  then have m1: "m1 d = f d + (if e d = 0 then 0 else 2 ^ 52)"
    using or_implicit_one [of "ieee_frac 52 (unat d)"] by (simp add: m1_def f_def)
  then show "0 \<le> m1 d" by (simp add: f_def)
  show "- 1074 \<le> e1 d" by (simp add: e1_def e_def)
  have "nat (e d - 1) = ieee_exp 52 11 (unat d) - 1" by (simp add: e_def nat_diff_distrib)
  then show "dbl_scaled d = s d * m1 d * 2 ^ nat (e1 d + 1074)"
    by (auto simp: ieee_scaled_def Let_def s_def sint_negative_iff m1 e1_def f_def e_def algebra_simps)
qed

lemma from_double_value:
  assumes G: "gmp_spec G"
  obtains m E where "from_double G d =
      Ret (if E < 0 then \<lparr>dec_value = m * 5 ^ nat (- E), dec_scale = - E\<rparr>
           else \<lparr>dec_value = m * 2 ^ nat E, dec_scale = 0\<rparr>)"
    and "dbl_scaled d = m * 2 ^ nat (E + 1074)" and "- 1074 \<le> E"
proof -
  define e where "e = int (ieee_exp 52 11 (unat d))"
  define e1 where "e1 = (if e = 0 then - 1022 else e - 1023) - 52"
  define m1 where "m1 = (if e = 0 then int (ieee_frac 52 (unat d)) else or (int (ieee_frac 52 (unat d))) (push_bit 52 1))"
  define s :: int where "s = (if sint d < 0 then -1 else 1)"
  note fields = from_double_fields [of d, folded e_def, folded e1_def m1_def s_def]
  obtain n E where st: "strip_zeros m1 e1 = (n, E)" by (cases "strip_zeros m1 e1")
  have z: "e1 \<le> E" "m1 = n * 2 ^ nat (E - e1)" "0 \<le> n"
    using strip_zeros_spec [OF st fields(2)] by auto
  have "nat (E + 1074) = nat (E - e1) + nat (e1 + 1074)" using z(1) fields(3) by simp
  then have sc: "dbl_scaled d = (s * n) * 2 ^ nat (E + 1074)" by (simp add: fields(1) z(2) power_add)
  have "mpz_set_str G (show_int n) 10 = Some n"
    using mpz_set_str_10(1) [OF G show_nat_not_Nil show_nat_digits, of "nat n"] z(3) by (simp add: show_int_def)
  then have "from_double G d =
      Ret (if E < 0 then \<lparr>dec_value = (s * n) * 5 ^ nat (- E), dec_scale = - E\<rparr>
           else \<lparr>dec_value = (s * n) * 2 ^ nat E, dec_scale = 0\<rparr>)"
    by (simp add: from_double_def Let_def e_def [symmetric] e1_def [symmetric] m1_def [symmetric] st s_def
        gmp_arith_simps [OF G])
  then show thesis using that [of E "s * n"] sc z(1) fields(3) by linarith
qed

text \<open>
  Property C30. A decimal built from a finite double has exactly the double's value: unscaled value
  times \<open>10 ^ - scale\<close>, compared here in units of the smallest subnormal, with a scale between 0 and
  1074.
\<close>

theorem from_double_exact:
  assumes G: "gmp_spec G" and fin: "dbl_isfinite d"
  shows "\<exists>x. php_scylladb_decimal_init G (ZDouble d) = Ret x \<and> 0 \<le> dec_scale x \<and> dec_scale x \<le> 1074 \<and>
    dec_value x * 2 ^ 1074 = dbl_scaled d * 10 ^ nat (dec_scale x)"
proof -
  obtain m E where fd: "from_double G d =
      Ret (if E < 0 then \<lparr>dec_value = m * 5 ^ nat (- E), dec_scale = - E\<rparr>
           else \<lparr>dec_value = m * 2 ^ nat E, dec_scale = 0\<rparr>)"
    and sc: "dbl_scaled d = m * 2 ^ nat (E + 1074)" and E: "- 1074 \<le> E"
    using from_double_value [OF G] by metis
  have init: "php_scylladb_decimal_init G (ZDouble d) = from_double G d"
    using fin by (simp add: php_scylladb_decimal_init_def)
  show ?thesis
  proof (cases "E < 0")
    case True
    have "(1074::nat) = nat (- E) + nat (E + 1074)" using E True by simp
    then have "(2::int) ^ 1074 = 2 ^ nat (- E) * 2 ^ nat (E + 1074)" by (metis power_add)
    moreover have "(10::int) ^ nat (- E) = 5 ^ nat (- E) * 2 ^ nat (- E)" by (simp flip: power_mult_distrib)
    ultimately show ?thesis using True E by (simp add: init fd sc del: power_numeral)
  next
    case False
    then have "nat (E + 1074) = nat E + 1074" by simp
    then have "(2::int) ^ nat (E + 1074) = 2 ^ nat E * 2 ^ 1074" by (metis power_add)
    then show ?thesis using False by (simp add: init fd sc del: power_numeral)
  qed
qed

theorem from_double_exact_witness:
  "php_scylladb_decimal_init gmp_ref (ZDouble 0xBFE0000000000000) = Ret \<lparr>dec_value = - 5, dec_scale = 1\<rparr> \<and>
   (- 5) * 2 ^ 1074 = dbl_scaled 0xBFE0000000000000 * 10 ^ nat 1"
proof -
  have fin: "dbl_isfinite 0xBFE0000000000000" by code_simp
  have i: "php_scylladb_decimal_init gmp_ref (ZDouble 0xBFE0000000000000) =
    Ret \<lparr>dec_value = - 5, dec_scale = 1\<rparr>" by code_simp
  obtain x where x: "php_scylladb_decimal_init gmp_ref (ZDouble 0xBFE0000000000000) = Ret x"
    "dec_value x * 2 ^ 1074 = dbl_scaled 0xBFE0000000000000 * 10 ^ nat (dec_scale x)"
    using from_double_exact [OF gmp_ref_spec fin] by blast
  have "x = \<lparr>dec_value = - 5, dec_scale = 1\<rparr>" using x(1) i by (simp only: outcome.inject)
  then show ?thesis using i x(2) by (simp only: decimal.select_convs simp_thms)
qed

lemma align_decimals_cases:
  assumes G: "gmp_spec G" and a: "h x = Some a" and b: "h y = Some b"
    and fit: "fits_s 64 (dec_scale b - dec_scale a)" "fits_s 64 (dec_scale a - dec_scale b)"
  shows "align_decimals G h x y = Ret (
    if dec_scale a < dec_scale b then h(x \<mapsto> a\<lparr>dec_value := dec_value a * 10 ^ nat (dec_scale b - dec_scale a)\<rparr>)
    else if dec_scale b < dec_scale a then h(y \<mapsto> b\<lparr>dec_value := dec_value b * 10 ^ nat (dec_scale a - dec_scale b)\<rparr>)
    else h)"
  using fit by (simp add: align_decimals_def a b gmp_arith_simps [OF G] del: fits_s_numeral)

definition aligned_value :: "decimal \<Rightarrow> decimal \<Rightarrow> int" where
  "aligned_value a b = dec_value a * 10 ^ nat (max (dec_scale a) (dec_scale b) - dec_scale a)"

lemma decimal_combine_result:
  assumes G: "gmp_spec G" and a: "h x = Some a" and b: "h y = Some b" and z: "z \<noteq> x" "z \<noteq> y"
    and fit: "fits_s 64 (dec_scale b - dec_scale a)" "fits_s 64 (dec_scale a - dec_scale b)"
  shows "\<exists>h'. decimal_combine f G h x (Some y) z = Ret h' \<and>
    h' z = Some \<lparr>dec_value = f (aligned_value a b) (aligned_value b a), dec_scale = max (dec_scale a) (dec_scale b)\<rparr> \<and>
    h' x = Some (a\<lparr>dec_value := aligned_value a b\<rparr>) \<and> h' y = Some (b\<lparr>dec_value := aligned_value b a\<rparr>) \<and>
    (\<forall>p. p \<notin> {x, y, z} \<longrightarrow> h' p = h p)"
proof -
  have xy: "dec_scale a \<noteq> dec_scale b \<Longrightarrow> x \<noteq> y" using a b by auto
  show ?thesis
  proof (cases "dec_scale a" "dec_scale b" rule: linorder_cases)
    case less
    then show ?thesis
      using align_decimals_cases [OF G a b fit] a b z xy
      by (auto simp: decimal_combine_def aligned_value_def max_def)
  next
    case equal
    then show ?thesis
      using align_decimals_cases [OF G a b fit] a b z
      by (auto simp: decimal_combine_def aligned_value_def)
  next
    case greater
    then show ?thesis
      using align_decimals_cases [OF G a b fit] a b z xy
      by (auto simp: decimal_combine_def aligned_value_def max_def)
  qed
qed

lemma aligned_value_unchanged:
  "a\<lparr>dec_value := aligned_value a b\<rparr> = a \<longleftrightarrow> dec_scale b \<le> dec_scale a \<or> dec_value a = 0"
proof (cases "dec_scale b \<le> dec_scale a")
  case False
  then obtain k where k: "nat (dec_scale b - dec_scale a) = Suc k" by (cases "nat (dec_scale b - dec_scale a)") auto
  have "(10::int) ^ Suc k \<noteq> 1" using one_less_power [of "10::int" "Suc k"] by simp
  then show ?thesis using False k by (cases a) (auto simp: aligned_value_def max_def)
qed (simp add: aligned_value_def max_def)

text \<open>
  Property C31. \<^verbatim>\<open>Decimal::add\<close> stores the exact sum in the new object, on the
  larger scale, also when both operands are the same object; but it scales the operand with the
  smaller scale in place without adjusting its scale, so that operand's value changes unless the
  scales agree or it is zero.
\<close>

theorem decimal_add_result:
  assumes "gmp_spec G" and "h x = Some a" and "h y = Some b" and "z \<noteq> x" and "z \<noteq> y"
    and "fits_s 64 (dec_scale b - dec_scale a)" and "fits_s 64 (dec_scale a - dec_scale b)"
  shows "\<exists>h'. decimal_add G h x (Some y) z = Ret h' \<and>
    h' z = Some \<lparr>dec_value = aligned_value a b + aligned_value b a, dec_scale = max (dec_scale a) (dec_scale b)\<rparr> \<and>
    (h' x = h x \<longleftrightarrow> dec_scale b \<le> dec_scale a \<or> dec_value a = 0) \<and>
    (h' y = h y \<longleftrightarrow> dec_scale a \<le> dec_scale b \<or> dec_value b = 0)"
  using decimal_combine_result [OF assms, of "mpz_add G"] aligned_value_unchanged [of a b]
    aligned_value_unchanged [of b a]
  by (auto simp: decimal_add_def gmp_arith_simps [OF assms(1)] assms(2,3))

theorem decimal_add_result_witness:
  "\<exists>h'. decimal_add gmp_ref [0 \<mapsto> \<lparr>dec_value = 1, dec_scale = 0\<rparr>, 1 \<mapsto> \<lparr>dec_value = 25, dec_scale = 2\<rparr>] 0 (Some 1) 2 = Ret h' \<and>
    h' 2 = Some \<lparr>dec_value = 125, dec_scale = 2\<rparr> \<and> h' 0 \<noteq> Some \<lparr>dec_value = 1, dec_scale = 0\<rparr>"
  using decimal_add_result [OF gmp_ref_spec, of "[0 \<mapsto> \<lparr>dec_value = 1, dec_scale = 0\<rparr>, 1 \<mapsto> \<lparr>dec_value = 25, dec_scale = 2\<rparr>]"
      0 "\<lparr>dec_value = 1, dec_scale = 0\<rparr>" 1 "\<lparr>dec_value = 25, dec_scale = 2\<rparr>" 2]
  by (auto simp: aligned_value_def)



lemma float_compare_key:
  "php_scylladb_float_compare a b = php_scylladb_compare (ieee_key 23 8 (unat a)) (ieee_key 23 8 (unat b))"
proof -
  have "unat d < 2 ^ Suc (23 + 8)" for d :: "32 word" using unsigned_less [of d] by simp
  then show ?thesis
    using ieee_compare_key [of "unat a" 23 8 "unat b" "0x7fc00000"]
    unfolding php_scylladb_float_compare_def ieee_compare_def float_to_bits_def php_scylladb_compare_def by simp
qed

interpretation float_order: three_way php_scylladb_float_compare
  unfolding float_compare_key
  by unfold_locales (simp, rule php_scylladb_compare_flip, simp)

lemma cast_s_unat_inject_32: "cast_s 32 (int (unat a)) = cast_s 32 (int (unat b)) \<longleftrightarrow> a = (b :: 32 word)"
proof -
  have "cast_s 32 (int (unat d)) = sint d" for d :: "32 word"
    by (simp add: cast_s_def sint_uint)
  then show ?thesis by (metis signed_word_eqI)
qed

lemma float_compare_zero:
  "php_scylladb_float_compare a b = 0 \<longleftrightarrow> a = b \<or> float_isNaN a \<and> float_isNaN b"
  using cast_s_unat_inject_32 [of a b] by (auto simp: float_compare_key ieee_key_def float_isNaN_def)

text \<open>
  Property C33. \<^verbatim>\<open>php_scylladb_float_compare\<close> is a coherent order, equal exactly on
  identical bit patterns and on any two NaNs, and Floats it calls equal have equal hashes: a NaN and
  both zeros can be keys of a map.
\<close>

theorem float_compare_total_order:
  "three_way php_scylladb_float_compare \<and>
   (php_scylladb_float_compare a b = 0 \<longleftrightarrow> a = b \<or> float_isNaN a \<and> float_isNaN b) \<and>
   (php_scylladb_float_compare a b = 0 \<longrightarrow> php_scylladb_float_hash_value a = php_scylladb_float_hash_value b)"
proof (intro conjI impI)
  show "three_way php_scylladb_float_compare" by (rule float_order.three_way_axioms)
  show "php_scylladb_float_compare a b = 0 \<longleftrightarrow> a = b \<or> float_isNaN a \<and> float_isNaN b"
    by (rule float_compare_zero)
  assume "php_scylladb_float_compare a b = 0"
  then show "php_scylladb_float_hash_value a = php_scylladb_float_hash_value b"
    by (auto simp: float_compare_zero php_scylladb_float_hash_value_def float_to_bits_def ieee_bits_def
        float_isNaN_def)
qed

theorem float_compare_total_order_witness:
  "php_scylladb_float_compare 0x7fc00001 0xffc00000 = 0 \<and>
   php_scylladb_float_hash_value 0x7fc00001 = php_scylladb_float_hash_value 0xffc00000"
proof -
  have z: "php_scylladb_float_compare 0x7fc00001 0xffc00000 = 0" by code_simp
  show ?thesis using z float_compare_total_order [of "0x7fc00001" "0xffc00000"] by blast
qed

end
