(* ===== verification/InetUtil.thy ===== *)
theory InetUtil
  imports NumberParser
begin

text \<open>
  \<^verbatim>\<open>src/InetUtil.c\<close>: the parser and printer of IP addresses. The parser is the loop
  over \<^verbatim>\<open>enum inet_parser_state\<close>; a run is a sequence of applications of
  \<open>inet_step\<close>, one per token. Reads beyond the terminating NUL and writes outside the 16-byte
  array are explicit (\<open>Undef\<close>), and are shown never to happen.
\<close>

section \<open>Tokens and states\<close>

datatype ip_address_token_type = TOKEN_END | TOKEN_COLON | TOKEN_DOT | TOKEN_HEX | TOKEN_DEC | TOKEN_ILLEGAL

datatype inet_parser_state =
    STATE_START | STATE_FIELD | STATE_COMPRESSED | STATE_AFTERHEX | STATE_AFTERDEC
  | STATE_IPV4BYTE | STATE_IPV4DOT | STATE_AFTERCOLON | STATE_END

definition ip_address_describe_token :: "ip_address_token_type \<Rightarrow> string" where
  "ip_address_describe_token ty =
     (case ty of TOKEN_END \<Rightarrow> ''end of address'' | TOKEN_COLON \<Rightarrow> ''colon'' | TOKEN_DOT \<Rightarrow> ''dot''
      | TOKEN_HEX \<Rightarrow> ''hex address field'' | TOKEN_DEC \<Rightarrow> ''address field''
      | TOKEN_ILLEGAL \<Rightarrow> ''illegal character'')"

text \<open>The token at an index and its text: up to four hexadecimal digits in lower case, or one character.\<close>

definition ip_address_tokenize :: "string \<Rightarrow> nat \<Rightarrow> ip_address_token_type \<times> string" where
  "ip_address_tokenize s i =
     (let ch = char_at s i in
      if c_isxdigit ch then
        let ds = takeWhile c_isxdigit (take 4 (drop i s))
        in (if list_all c_isdigit ds then TOKEN_DEC else TOKEN_HEX, map c_tolower ds)
      else
        (if ch = NUL then TOKEN_END
         else if ch = CHR '':'' then TOKEN_COLON
         else if ch = CHR ''.'' then TOKEN_DOT
         else TOKEN_ILLEGAL, [ch]))"

record inet_st =
  ip_state :: inet_parser_state
  in_ptr :: nat
  token_len :: int
  prev_token_len :: int
  ip_pos :: int
  compress_pos :: int
  ipv4_pos :: int
  ip_address :: "byte list"
  ip_domain :: nat

datatype 'a flow = Continue 'a | Break 'a | Stop exn | Undef

abbreviation CASS_INET_V6_LENGTH :: int where "CASS_INET_V6_LENGTH \<equiv> 16"
abbreviation CASS_INET_V4_LENGTH :: int where "CASS_INET_V4_LENGTH \<equiv> 4"

definition expecting :: "ip_address_token_type \<Rightarrow> string \<Rightarrow> 'a flow" where
  "expecting ty what =
     Stop (Exn InvalidArgumentException (''Unexpected '' @ ip_address_describe_token ty @ '', expected '' @ what))"

text \<open>A store into the address array.\<close>

definition put_byte :: "int \<Rightarrow> int \<Rightarrow> byte list \<Rightarrow> byte list option" where
  "put_byte i v xs = (if 0 \<le> i \<and> i < int (length xs) then Some (xs[nat i := word_of_int v]) else None)"

section \<open>One iteration of the loop\<close>

definition on_compressed :: "ip_address_token_type \<Rightarrow> inet_st \<Rightarrow> inet_st flow" where
  "on_compressed ty \<sigma> =
     (if ty = TOKEN_COLON then
        if compress_pos \<sigma> \<noteq> -1 then Stop (Exn InvalidArgumentException ''Duplicate double colon block'')
        else Continue (\<sigma>\<lparr>compress_pos := (if ip_pos \<sigma> = -1 then 0 else ip_pos \<sigma> + 1), ip_state := STATE_FIELD\<rparr>)
      else expecting ty ''a colon'')"

definition on_field :: "ip_address_token_type \<Rightarrow> string \<Rightarrow> inet_st \<Rightarrow> inet_st flow" where
  "on_field ty token \<sigma> =
     (if ty = TOKEN_END \<and> ip_pos \<sigma> + 1 = compress_pos \<sigma> then Break \<sigma>
      else if ty \<noteq> TOKEN_HEX \<and> ty \<noteq> TOKEN_DEC then expecting ty ''an address field''
      else
        let \<sigma>1 = \<sigma>\<lparr>ip_state := (if ty = TOKEN_HEX then STATE_AFTERHEX else STATE_AFTERDEC)\<rparr>
        in if ip_pos \<sigma> + 3 > CASS_INET_V6_LENGTH then Break (\<sigma>1\<lparr>ip_pos := ip_pos \<sigma> + 2\<rparr>)
           else
             let field = fst (strtoul token 16);
                 hi = drop_bit 8 (and field 0xff00);
                 lo = and field 0x00ff
             in case put_byte (ip_pos \<sigma> + 1) hi (ip_address \<sigma>) of
                  None \<Rightarrow> Undef
                | Some a \<Rightarrow>
                    (case put_byte (ip_pos \<sigma> + 2) lo a of
                       None \<Rightarrow> Undef
                     | Some b \<Rightarrow> Continue (\<sigma>1\<lparr>ip_pos := ip_pos \<sigma> + 2, ip_address := b\<rparr>)))"

definition on_afterhex :: "ip_address_token_type \<Rightarrow> inet_st \<Rightarrow> inet_st flow" where
  "on_afterhex ty \<sigma> =
     (if ty = TOKEN_END then Break \<sigma>
      else if ty = TOKEN_COLON then Continue (\<sigma>\<lparr>ip_state := STATE_AFTERCOLON\<rparr>)
      else expecting ty ''a colon'')"

text \<open>
  A dot after a decimal field: the two bytes stored for the field are erased and reading goes back to
  the start of the field.
\<close>

definition on_afterdec :: "ip_address_token_type \<Rightarrow> inet_st \<Rightarrow> inet_st flow" where
  "on_afterdec ty \<sigma> =
     (if ty = TOKEN_END then Break \<sigma>
      else if ty = TOKEN_COLON then Continue (\<sigma>\<lparr>ip_state := STATE_AFTERCOLON\<rparr>)
      else if ty = TOKEN_DOT then
        if ip_pos \<sigma> < 1 then expecting ty ''an address field''
        else case put_byte (ip_pos \<sigma>) 0 (ip_address \<sigma>) of
            None \<Rightarrow> Undef
          | Some a \<Rightarrow>
              (case put_byte (ip_pos \<sigma> - 1) 0 a of
                 None \<Rightarrow> Undef
               | Some b \<Rightarrow>
                   if prev_token_len \<sigma> + 1 \<le> int (in_ptr \<sigma>) \<and> 0 \<le> prev_token_len \<sigma> then
                     Continue (\<sigma>\<lparr>ip_pos := ip_pos \<sigma> - 2, ip_address := b,
                       in_ptr := in_ptr \<sigma> - nat (prev_token_len \<sigma> + 1),
                       ip_state := STATE_IPV4BYTE, ipv4_pos := 0\<rparr>)
                   else Undef)
      else expecting ty ''a colon or a dot'')"

definition on_ipv4byte :: "ip_address_token_type \<Rightarrow> string \<Rightarrow> inet_st \<Rightarrow> inet_st flow" where
  "on_ipv4byte ty token \<sigma> =
     (if ty \<noteq> TOKEN_DEC then expecting ty ''an IPv4 address byte (0 - 255)''
      else if token_len \<sigma> > 1 \<and> char_at token 0 = CHR ''0''
      then Stop (Exn InvalidArgumentException ''Illegal IPv4 character (no leading zeroes are allowed)'')
      else
        let ipv4_byte = fst (strtol token 10) in
        if ipv4_byte < 0 \<or> ipv4_byte > 255
        then Stop (Exn InvalidArgumentException ''Illegal IPv4 segment value (expected: 0 - 255)'')
        else if ip_pos \<sigma> + 2 > CASS_INET_V6_LENGTH then Break (\<sigma>\<lparr>ip_pos := ip_pos \<sigma> + 1\<rparr>)
        else case put_byte (ip_pos \<sigma> + 1) ipv4_byte (ip_address \<sigma>) of
            None \<Rightarrow> Undef
          | Some a \<Rightarrow>
              let \<sigma>1 = \<sigma>\<lparr>ipv4_pos := ipv4_pos \<sigma> + 1, ip_pos := ip_pos \<sigma> + 1, ip_address := a\<rparr>
              in if ipv4_pos \<sigma>1 = CASS_INET_V4_LENGTH
                 then Continue (\<sigma>1\<lparr>ip_state := STATE_END,
                        ip_domain := (if compress_pos \<sigma>1 = -1 \<and> ip_pos \<sigma>1 + 1 = CASS_INET_V4_LENGTH
                                      then 1 else ip_domain \<sigma>1)\<rparr>)
                 else Continue (\<sigma>1\<lparr>ip_state := STATE_IPV4DOT\<rparr>))"

definition on_ipv4dot :: "ip_address_token_type \<Rightarrow> inet_st \<Rightarrow> inet_st flow" where
  "on_ipv4dot ty \<sigma> =
     (if ty = TOKEN_DOT then Continue (\<sigma>\<lparr>ip_state := STATE_IPV4BYTE\<rparr>) else expecting ty ''a dot'')"

definition on_end :: "ip_address_token_type \<Rightarrow> inet_st \<Rightarrow> inet_st flow" where
  "on_end ty \<sigma> = (if ty = TOKEN_END then Break \<sigma> else expecting ty ''the end of address'')"

definition inet_dispatch :: "ip_address_token_type \<Rightarrow> string \<Rightarrow> inet_st \<Rightarrow> inet_st flow" where
  "inet_dispatch ty token \<sigma> =
     (if ip_state \<sigma> = STATE_START \<and> ty = TOKEN_COLON then Continue (\<sigma>\<lparr>ip_state := STATE_COMPRESSED\<rparr>)
      else if ip_state \<sigma> = STATE_START \<and> ty \<noteq> TOKEN_HEX \<and> ty \<noteq> TOKEN_DEC
      then expecting ty ''an address field or a colon''
      else
        let st = (if ip_state \<sigma> = STATE_START then STATE_FIELD
                  else if ip_state \<sigma> = STATE_AFTERCOLON
                  then (if ty = TOKEN_COLON then STATE_COMPRESSED else STATE_FIELD)
                  else ip_state \<sigma>);
            \<sigma>1 = \<sigma>\<lparr>ip_state := st\<rparr>
        in case st of
             STATE_COMPRESSED \<Rightarrow> on_compressed ty \<sigma>1
           | STATE_FIELD \<Rightarrow> on_field ty token \<sigma>1
           | STATE_AFTERHEX \<Rightarrow> on_afterhex ty \<sigma>1
           | STATE_AFTERDEC \<Rightarrow> on_afterdec ty \<sigma>1
           | STATE_IPV4BYTE \<Rightarrow> on_ipv4byte ty token \<sigma>1
           | STATE_IPV4DOT \<Rightarrow> on_ipv4dot ty \<sigma>1
           | STATE_END \<Rightarrow> on_end ty \<sigma>1
           | _ \<Rightarrow> Continue \<sigma>1)"

definition inet_step :: "string \<Rightarrow> inet_st \<Rightarrow> inet_st flow" where
  "inet_step s \<sigma> =
     (if length s < in_ptr \<sigma> then Undef
      else
        let (ty, token) = ip_address_tokenize s (in_ptr \<sigma>);
            \<sigma>0 = \<sigma>\<lparr>prev_token_len := (if token_len \<sigma> > -1 then token_len \<sigma> else prev_token_len \<sigma>),
                   token_len := int (length token), in_ptr := in_ptr \<sigma> + length token\<rparr>
        in if ty = TOKEN_ILLEGAL then Stop (Exn InvalidArgumentException ''Illegal character'')
           else inet_dispatch ty token \<sigma>0)"

section \<open>The loop\<close>

text \<open>
  Every iteration consumes a token; only the step into the IPv4 states moves backwards, and it is
  taken at most once.
\<close>

definition ip_phase :: "inet_parser_state \<Rightarrow> nat" where
  "ip_phase st = (if st \<in> {STATE_IPV4BYTE, STATE_IPV4DOT, STATE_END} then 0 else 1)"

definition ip_measure :: "string \<Rightarrow> inet_st \<Rightarrow> nat \<times> nat" where
  "ip_measure s \<sigma> = (ip_phase (ip_state \<sigma>), length s + 1 - in_ptr \<sigma>)"

lemma tokenize_length: "snd (ip_address_tokenize s i) \<noteq> []"
proof (cases "c_isxdigit (char_at s i)")
  case True
  moreover have "\<not> c_isxdigit NUL" by code_simp
  ultimately have "i < length s" "c_isxdigit (s ! i)" by (auto simp: char_at_def split: if_splits)
  then have "take 4 (drop i s) = s ! i # take 3 (drop (Suc i) s)"
    by (simp add: Cons_nth_drop_Suc [symmetric])
  then show ?thesis using \<open>c_isxdigit (s ! i)\<close> True by (simp add: ip_address_tokenize_def)
qed (simp add: ip_address_tokenize_def Let_def)

lemmas ip_step_defs =
  inet_step_def inet_dispatch_def on_compressed_def on_field_def on_afterhex_def on_afterdec_def
  on_ipv4byte_def on_ipv4dot_def on_end_def expecting_def

lemma dispatch_continue:
  "inet_dispatch ty token \<sigma> = Continue \<sigma>' \<Longrightarrow>
   (in_ptr \<sigma>' = in_ptr \<sigma> \<and> ip_phase (ip_state \<sigma>') \<le> ip_phase (ip_state \<sigma>)) \<or>
   (ip_phase (ip_state \<sigma>') = 0 \<and> ip_phase (ip_state \<sigma>) = 1)"
  unfolding inet_dispatch_def Let_def
  by (cases "ip_state \<sigma>"; cases ty)
    (auto simp: ip_step_defs Let_def ip_phase_def split: if_splits option.splits)

lemma step_decreases:
  assumes "inet_step s \<sigma> = Continue \<sigma>'"
  shows "(ip_measure s \<sigma>', ip_measure s \<sigma>) \<in> less_than <*lex*> less_than"
proof -
  obtain ty token where tk: "ip_address_tokenize s (in_ptr \<sigma>) = (ty, token)" by fastforce
  define \<sigma>0 where "\<sigma>0 = \<sigma>\<lparr>prev_token_len := (if token_len \<sigma> > -1 then token_len \<sigma> else prev_token_len \<sigma>),
    token_len := int (length token), in_ptr := in_ptr \<sigma> + length token\<rparr>"
  have "0 < length token" using tokenize_length [of s "in_ptr \<sigma>"] tk by simp
  moreover have "in_ptr \<sigma> \<le> length s" and d: "inet_dispatch ty token \<sigma>0 = Continue \<sigma>'"
    using assms by (auto simp: inet_step_def tk \<sigma>0_def Let_def split: if_splits)
  ultimately show ?thesis
    using dispatch_continue [OF d] by (auto simp: ip_measure_def \<sigma>0_def intro!: diff_less_mono2)
qed

function inet_run :: "string \<Rightarrow> inet_st \<Rightarrow> inet_st flow" where
  "inet_run s \<sigma> = (case inet_step s \<sigma> of Continue \<sigma>' \<Rightarrow> inet_run s \<sigma>' | r \<Rightarrow> r)"
  by pat_completeness auto
termination
  by (relation "inv_image (less_than <*lex*> less_than) (\<lambda>(s, \<sigma>). ip_measure s \<sigma>)")
    (auto intro: wf_lex_prod simp: step_decreases simp del: in_lex_prod)

declare inet_run.simps [simp del]

section \<open>After the loop\<close>

text \<open>The bytes after \<^verbatim>\<open>::\<close> move to the end of the array, from the last one on.\<close>

function inet_move :: "int \<Rightarrow> int \<Rightarrow> int \<Rightarrow> byte list \<Rightarrow> byte list outcome" where
  "inet_move cpos move_len i a =
     (if i < move_len then
        let src_pos = cpos + move_len - i - 1;
            dst_pos = CASS_INET_V6_LENGTH - i - 1
        in if 0 \<le> src_pos \<and> src_pos < CASS_INET_V6_LENGTH \<and> 0 \<le> dst_pos \<and> dst_pos < CASS_INET_V6_LENGTH
           then inet_move cpos move_len (i + 1) ((a[nat dst_pos := a ! nat src_pos])[nat src_pos := 0])
           else Throw (Exn InvalidArgumentException ''Index out of bounds'')
      else Ret a)"
  by pat_completeness auto
termination by (relation "measure (\<lambda>(c, m, i, a). nat (m - i))") auto

declare inet_move.simps [simp del]

definition inet_finish :: "inet_st \<Rightarrow> byte list outcome" where
  "inet_finish \<sigma> =
     (if ip_domain \<sigma> = 0 \<and> compress_pos \<sigma> \<noteq> -1 then
        if ip_pos \<sigma> + 1 \<ge> CASS_INET_V6_LENGTH
        then Throw (Exn InvalidArgumentException ''Compressed zeroes in an address with all bytes'')
        else let p = ip_pos \<sigma> + 1
             in if p \<noteq> compress_pos \<sigma> then inet_move (compress_pos \<sigma>) (p - compress_pos \<sigma>) 0 (ip_address \<sigma>)
                else Ret (ip_address \<sigma>)
      else if ip_domain \<sigma> = 0 then
        if ip_pos \<sigma> + 1 < CASS_INET_V6_LENGTH then Throw (Exn InvalidArgumentException ''Too few bytes'')
        else if ip_pos \<sigma> + 1 > CASS_INET_V6_LENGTH then Throw (Exn InvalidArgumentException ''Too many bytes'')
        else Ret (ip_address \<sigma>)
      else Ret (take 4 (ip_address \<sigma>)))"

definition inet_init :: inet_st where
  "inet_init =
     \<lparr>ip_state = STATE_START, in_ptr = 0, token_len = -1, prev_token_len = 0, ip_pos = -1,
      compress_pos = -1, ipv4_pos = -1, ip_address = replicate 16 0, ip_domain = 0\<rparr>"

text \<open>The result is the bytes of the \<^verbatim>\<open>CassInet\<close>: 16, or 4.\<close>

definition php_scylladb_parse_ip_address :: "string \<Rightarrow> byte list outcome" where
  "php_scylladb_parse_ip_address s =
     (if length s \<noteq> strlen s then Throw (Exn InvalidArgumentException ''NUL byte in an IP address'')
      else if 49 < length s then Throw (Exn InvalidArgumentException ''The IP address is too long'')
      else case inet_run s inet_init of
          Break \<sigma> \<Rightarrow> inet_finish \<sigma>
        | Stop e \<Rightarrow> Throw e
        | _ \<Rightarrow> UB)"

text \<open>\<^verbatim>\<open>%x\<close>, and the printer.\<close>

definition xdigit_char :: "nat \<Rightarrow> char" where
  "xdigit_char d = (if d < 10 then digit_char d else char_of (87 + d))"

fun show_hex :: "nat \<Rightarrow> string" where
  "show_hex n = (if n < 16 then [xdigit_char n] else show_hex (n div 16) @ [xdigit_char (n mod 16)])"

declare show_hex.simps [simp del]

definition php_scylladb_format_address :: "byte list \<Rightarrow> string" where
  "php_scylladb_format_address a =
     (if 4 < length a
      then join_sep '':'' (map (\<lambda>k. show_hex (unat (a ! (2 * k)) * 256 + unat (a ! (2 * k + 1)))) [0..<8])
      else join_sep ''.'' (map (\<lambda>k. show_nat (unat (a ! k))) [0..<4]))"

section \<open>Safety of the loop\<close>

definition ip_ok :: "string \<Rightarrow> inet_st \<Rightarrow> bool" where
  "ip_ok s \<sigma> \<longleftrightarrow>
     length (ip_address \<sigma>) = 16 \<and> in_ptr \<sigma> \<le> length s \<and> ip_domain \<sigma> \<le> 1 \<and>
     -1 \<le> ip_pos \<sigma> \<and> ip_pos \<sigma> \<le> 15 \<and> -1 \<le> compress_pos \<sigma> \<and> compress_pos \<sigma> \<le> ip_pos \<sigma> + 1 \<and>
     (ip_state \<sigma> \<in> {STATE_AFTERHEX, STATE_AFTERDEC} \<longrightarrow> 1 \<le> ip_pos \<sigma> \<and> compress_pos \<sigma> \<le> ip_pos \<sigma> - 1) \<and>
     (ip_state \<sigma> = STATE_AFTERDEC \<longrightarrow> 0 \<le> token_len \<sigma> \<and> token_len \<sigma> \<le> int (in_ptr \<sigma>))"

definition ip_done :: "inet_st \<Rightarrow> bool" where
  "ip_done \<sigma> \<longleftrightarrow> length (ip_address \<sigma>) = 16 \<and> ip_domain \<sigma> \<le> 1 \<and> -1 \<le> ip_pos \<sigma> \<and> -1 \<le> compress_pos \<sigma> \<and>
     compress_pos \<sigma> \<le> ip_pos \<sigma> + 1"

definition parser_exn :: "exn \<Rightarrow> bool" where
  "parser_exn e \<longleftrightarrow> exn_cls e = InvalidArgumentException \<and> exn_msg e \<noteq> ''Index out of bounds''"

fun flow_ok :: "('a \<Rightarrow> bool) \<Rightarrow> ('a \<Rightarrow> bool) \<Rightarrow> 'a flow \<Rightarrow> bool" where
  "flow_ok P Q (Continue \<sigma>) = P \<sigma>"
| "flow_ok P Q (Break \<sigma>) = Q \<sigma>"
| "flow_ok P Q (Stop e) = parser_exn e"
| "flow_ok P Q Undef = False"

lemma tokenize_end:
  assumes "NUL \<notin> set s" and "i \<le> length s" and "ip_address_tokenize s i = (ty, token)"
  shows "i + length token \<le> length s \<or> ty = TOKEN_END"
proof -
  have "\<not> c_isxdigit NUL" by code_simp
  moreover have "i + length (takeWhile c_isxdigit (take 4 (drop i s))) \<le> length s"
    using assms(2) length_takeWhile_le [of c_isxdigit "take 4 (drop i s)"]
    by (simp add: le_diff_conv2 add.commute)
  ultimately show ?thesis
    using assms by (auto simp: ip_address_tokenize_def Let_def char_at_def split: if_splits)
qed

text \<open>
  One token: from a state with the token's length still to be entered (\<open>q\<close> is the previous token's
  length) the dispatch keeps the invariant.
\<close>

lemma dispatch_ok:
  assumes ok: "ip_ok s \<sigma>" and tk: "token \<noteq> []" and r: "in_ptr \<sigma> + length token \<le> length s \<or> ty = TOKEN_END"
    and l: "token_len \<sigma> > -1 \<Longrightarrow> q = token_len \<sigma>"
  shows "flow_ok (ip_ok s) ip_done (inet_dispatch ty token
    (\<sigma>\<lparr>prev_token_len := q, token_len := int (length token), in_ptr := in_ptr \<sigma> + length token\<rparr>))"
proof -
  have "1 \<le> int (length token)" using tk by (cases token) auto
  with assms show ?thesis
  by (cases "ip_state \<sigma>"; cases ty)
    (auto simp: inet_dispatch_def ip_step_defs Let_def put_byte_def ip_ok_def ip_done_def
      parser_exn_def)
qed

lemma step_ok:
  assumes "NUL \<notin> set s" and "ip_ok s \<sigma>"
  shows "flow_ok (ip_ok s) ip_done (inet_step s \<sigma>)"
proof -
  obtain ty token where tk: "ip_address_tokenize s (in_ptr \<sigma>) = (ty, token)" by fastforce
  have le: "in_ptr \<sigma> \<le> length s" using assms(2) by (simp add: ip_ok_def)
  have "token \<noteq> []" using tokenize_length [of s "in_ptr \<sigma>"] tk by simp
  from dispatch_ok [OF assms(2) this tokenize_end [OF assms(1) le tk]] show ?thesis
    using le by (simp add: inet_step_def tk Let_def parser_exn_def)
qed


lemma run_ok: "NUL \<notin> set s \<Longrightarrow> ip_ok s \<sigma> \<Longrightarrow> flow_ok (\<lambda>_. False) ip_done (inet_run s \<sigma>)"
proof (induction s \<sigma> rule: inet_run.induct)
  case (1 s \<sigma>)
  then show ?case
    using step_ok [OF 1(2,3)] by (subst inet_run.simps) (auto split: flow.split)
qed

text \<open>
  The moves: the bytes \<open>v\<close> still to move end up before the ones already moved, and leave zeroes behind.
\<close>

lemma inet_move_bytes:
  assumes "length u + length v + Suc k + length z = 16"
  shows "inet_move (int (length u)) (int (length v + length z)) (int (length z)) (u @ v @ replicate (Suc k) 0 @ z) =
    Ret (u @ replicate (Suc k) 0 @ v @ z)"
  using assms
proof (induction v arbitrary: z rule: rev_induct)
  case Nil
  then show ?case by (subst inet_move.simps) simp
next
  case (snoc b v)
  let ?a = "u @ (v @ [b]) @ replicate (Suc k) 0 @ z"
  let ?src = "length u + length v" and ?dst = "length u + Suc (length v) + k"
  have r: "replicate (Suc k) 0 = replicate k 0 @ [0 :: byte]" by (simp add: replicate_append_same)
  have "?a[?dst := ?a ! ?src] = u @ v @ b # replicate k 0 @ b # z"
    unfolding r by (simp add: nth_append list_update_append)
  then have "(?a[?dst := ?a ! ?src])[?src := 0] = u @ v @ replicate (Suc k) 0 @ b # z"
    by (simp add: list_update_append)
  moreover have "nat (16 - int (length z) - 1) = ?dst" using snoc.prems by simp
  ultimately show ?case
    using snoc.IH [of "b # z"] snoc.prems
    by (subst inet_move.simps) (simp add: nat_add_distrib ac_simps)
qed

lemma inet_move_length:
  "length a = 16 \<Longrightarrow> 0 \<le> c \<Longrightarrow> 0 \<le> i \<Longrightarrow> c + m \<le> 16 \<Longrightarrow> \<exists>b. inet_move c m i a = Ret b \<and> length b = 16"
proof (induction c m i a rule: inet_move.induct)
  case (1 c m i a)
  then show ?case by (subst inet_move.simps) (simp add: Let_def)
qed

lemma finish_ok:
  assumes "ip_done \<sigma>"
  shows "case inet_finish \<sigma> of Ret b \<Rightarrow> length b = 4 \<or> length b = 16 | Throw e \<Rightarrow> parser_exn e | UB \<Rightarrow> False"
  using assms inet_move_length [of "ip_address \<sigma>" "compress_pos \<sigma>" 0 "ip_pos \<sigma> + 1 - compress_pos \<sigma>"]
  by (auto simp: ip_done_def inet_finish_def Let_def parser_exn_def split: if_splits)

lemma strlen_NUL: "length s = strlen s \<longleftrightarrow> NUL \<notin> set s"
  using strlen_eq_iff [of s] by auto

text \<open>
  Property C9. On every string \<^verbatim>\<open>php_scylladb_parse_ip_address\<close> stops without undefined
  behaviour: it never reads past the terminating NUL (also when it goes back to read a decimal field
  as an IPv4 byte), never stores outside the 16-byte array, and returns 4 or 16 bytes or an exception,
  which is never the one of its own bounds check.
\<close>

theorem parse_ip_address_safe:
  "case php_scylladb_parse_ip_address s of
     Ret a \<Rightarrow> length a = 4 \<or> length a = 16
   | Throw e \<Rightarrow> parser_exn e
   | UB \<Rightarrow> False"
proof (cases "NUL \<in> set s \<or> 49 < length s")
  case True
  then show ?thesis using strlen_NUL [of s] by (auto simp: php_scylladb_parse_ip_address_def parser_exn_def)
next
  case False
  have "ip_ok s inet_init" by (simp add: ip_ok_def inet_init_def)
  then show ?thesis
    using run_ok [of s inet_init] False strlen_NUL [of s]
    by (cases "inet_run s inet_init") (simp_all add: php_scylladb_parse_ip_address_def finish_ok)
qed

section \<open>Reading back what the printer writes\<close>

lemma xdigit_char_props:
  assumes "d < 16"
  shows "c_isxdigit (xdigit_char d)" "c_tolower (xdigit_char d) = xdigit_char d"
    "base_digit 16 (xdigit_char d)" "dval (xdigit_char d) = d"
  using assms
  by (auto simp: xdigit_char_def digit_char_def c_isxdigit_def c_isdigit_def c_tolower_def c_isupper_def
      c_islower_def base_digit_def dval_def digit_val_def code_def)

lemma show_hex_not_Nil [simp]: "show_hex n \<noteq> []"
  by (subst show_hex.simps) simp

lemma show_hex_chars: "set (show_hex n) \<subseteq> xdigit_char ` {..<16}"
proof (induction n rule: show_hex.induct)
  case (1 n)
  then show ?case by (subst show_hex.simps) auto
qed

lemma show_hex_xdigits:
  "list_all c_isxdigit (show_hex n)" "map c_tolower (show_hex n) = show_hex n"
  "list_all (base_digit 16) (show_hex n)"
proof -
  have h: "\<exists>d<16. c = xdigit_char d" if "c \<in> set (show_hex n)" for c
    using show_hex_chars [of n] that by auto
  show "list_all c_isxdigit (show_hex n)" "map c_tolower (show_hex n) = show_hex n"
    "list_all (base_digit 16) (show_hex n)"
    using h xdigit_char_props by (auto simp: list_all_iff intro!: map_idI)
qed

lemma digits_value_show_hex [simp]: "digits_value 16 (show_hex n) = n"
proof (induction n rule: show_hex.induct)
  case (1 n)
  then show ?case
    by (subst show_hex.simps) (auto simp: digits_value_def xdigit_char_props)
qed

lemma show_hex_length: "n < 16 ^ Suc k \<Longrightarrow> length (show_hex n) \<le> Suc k"
proof (induction k arbitrary: n)
  case (Suc k)
  then have "n div 16 < 16 ^ Suc k" by (simp add: div_less_iff_less_mult mult.commute)
  with Suc.IH [of "n div 16"] show ?case by (subst show_hex.simps) simp
qed (simp add: show_hex.simps)

lemma c_isxdigit_not: "c_isxdigit c \<Longrightarrow> \<not> c_isspace c \<and> c \<noteq> CHR ''-'' \<and> c \<noteq> CHR ''+''"
  by (auto simp: c_isxdigit_def c_isdigit_def c_isspace_def code_def)

lemma strto_scan_digits:
  assumes "ds \<noteq> []" and "list_all c_isxdigit ds" and "list_all (base_digit b) ds"
    and "b = 10 \<or> b = 16"
  shows "strto_scan ds b = (False, digits_value b ds, length ds)"
proof -
  have h: "c_isxdigit (char_at ds 0)" using assms(1,2) by (cases ds) auto
  have "\<not> base_digit b (CHR ''x'')" "\<not> base_digit b (CHR ''X'')" using assms(4) by (auto simp: base_digit_def digit_val_def c_isdigit_def c_islower_def c_isupper_def code_def)
  then have "char_at ds 1 \<noteq> CHR ''x'' \<and> char_at ds 1 \<noteq> CHR ''X''"
    using assms(3) by (auto simp: char_at_def list_all_iff dest!: nth_mem split: if_splits)
  then have "strto_prefix b ds = (b, 0)" using assms(4) by (auto simp: strto_prefix_def Let_def)
  moreover have tw: "takeWhile (base_digit b) ds = ds" using assms(3) by (simp add: list_all_iff)
  ultimately show ?thesis
    using c_isxdigit_not [OF h] assms(1) by (subst strto_scan_unsigned) (simp_all add: tw)
qed

lemma strtoul_show_hex: "n < 65536 \<Longrightarrow> fst (strtoul (show_hex n) 16) = int n"
  using strto_scan_digits [of "show_hex n" 16] show_hex_xdigits [of n] by (simp add: strtoul_def)

lemma strtol_show_small: "n < 65536 \<Longrightarrow> fst (strtol (show_nat n) 10) = int n"
proof -
  assume "n < 65536"
  moreover have "list_all c_isxdigit (show_nat n)" using show_nat_digits [of n] by (simp add: list_all_iff c_isxdigit_def)
  ultimately show ?thesis
    using strto_scan_digits [of "show_nat n" 10] show_nat_base_digits [of n] by (simp add: strtol_def)
qed

text \<open>The token read in front of a rest that starts with no digit.\<close>

lemma tokenize_digits:
  assumes "ds \<noteq> []" and "list_all c_isxdigit ds" and "map c_tolower ds = ds" and "length ds \<le> 4"
    and "\<not> c_isxdigit (char_at r 0)"
  shows "ip_address_tokenize (p @ ds @ r) (length p) =
    (if list_all c_isdigit ds then TOKEN_DEC else TOKEN_HEX, ds)"
proof -
  have "take 4 (ds @ r) = ds @ take (4 - length ds) r" using assms(4) by simp
  moreover have "takeWhile c_isxdigit (take k r) = []" for k
    using assms(5) by (cases r; cases k) auto
  ultimately have "takeWhile c_isxdigit (take 4 (ds @ r)) = ds"
    using assms(2) by (simp add: list_all_iff takeWhile_append2)
  moreover have "c_isxdigit (char_at (p @ ds @ r) (length p))"
    using assms(1,2) char_at_append_right [of p "ds @ r" 0] by (cases ds) auto
  ultimately show ?thesis using assms(3) by (simp add: ip_address_tokenize_def Let_def)
qed

lemma tokenize_char:
  "\<not> c_isxdigit c \<Longrightarrow> ip_address_tokenize (p @ c # r) (length p) =
    (if c = NUL then TOKEN_END else if c = CHR '':'' then TOKEN_COLON
     else if c = CHR ''.'' then TOKEN_DOT else TOKEN_ILLEGAL, [c])"
  using char_at_append_right [of p "c # r" 0] by (simp add: ip_address_tokenize_def Let_def)

lemma tokenize_at_end: "ip_address_tokenize p (length p) = (TOKEN_END, [NUL])"
proof -
  have "\<not> c_isxdigit NUL" by code_simp
  then show ?thesis by (simp add: ip_address_tokenize_def Let_def char_at_def)
qed

text \<open>A 16-bit field and its two bytes.\<close>

definition field_value :: "byte \<times> byte \<Rightarrow> nat" where
  "field_value ab = unat (fst ab) * 256 + unat (snd ab)"

lemma unat_byte_less: "unat (b :: byte) < 256"
  using unsigned_less [of b] by simp

lemma field_value_less: "field_value ab < 65536"
  using unat_byte_less [of "fst ab"] unat_byte_less [of "snd ab"] by (simp add: field_value_def)

lemma field_value_bytes:
  "word_of_int (and (drop_bit 8 (int (field_value (a, b)))) 0xff) = a"
  "word_of_int (and (int (field_value (a, b))) 0xff) = b"
proof -
  have lo: "and x 0xff = x mod 256" for x :: int
    using take_bit_eq_mask [of 8 x] by (simp add: mask_eq_exp_minus_1 take_bit_eq_mod)
  have "uint a < 256" "uint b < 256"
    using unsigned_less [where 'a = int and w = a] unsigned_less [where 'a = int and w = b] by simp_all
  then show "word_of_int (and (drop_bit 8 (int (field_value (a, b)))) 0xff) = a"
    "word_of_int (and (int (field_value (a, b))) 0xff) = b"
    by (simp_all add: lo field_value_def drop_bit_eq_div)
qed

text \<open>Steps over one token of the printed text.\<close>

lemma step_field:
  fixes a b :: byte
  assumes st: "ip_state \<sigma> \<in> {STATE_START, STATE_FIELD, STATE_AFTERCOLON}"
    and at: "in_ptr \<sigma> = length p" and pos: "ip_pos \<sigma> = int n - 1" and len: "n + 2 \<le> 16"
    and sixteen: "length (ip_address \<sigma>) = 16" and r: "\<not> c_isxdigit (char_at r 0)"
  defines "d \<equiv> show_hex (field_value (a, b))"
  shows "\<exists>\<sigma>'. inet_step (p @ d @ r) \<sigma> = Continue \<sigma>' \<and>
    ip_state \<sigma>' = (if list_all c_isdigit d then STATE_AFTERDEC else STATE_AFTERHEX) \<and>
    in_ptr \<sigma>' = length (p @ d) \<and> ip_pos \<sigma>' = int (n + 2) - 1 \<and> token_len \<sigma>' = int (length d) \<and>
    ip_address \<sigma>' = (ip_address \<sigma>)[n := a, Suc n := b] \<and>
    compress_pos \<sigma>' = compress_pos \<sigma> \<and> ip_domain \<sigma>' = ip_domain \<sigma>"
proof -
  have "length d \<le> 4"
    using show_hex_length [of "field_value (a, b)" 3] field_value_less [of "(a, b)"] by (simp add: d_def)
  then have tk: "ip_address_tokenize (p @ d @ r) (length p) = (if list_all c_isdigit d then TOKEN_DEC else TOKEN_HEX, d)"
    unfolding d_def by (intro tokenize_digits show_hex_xdigits r) simp_all
  have v: "fst (strtoul d 16) = int (field_value (a, b))"
    unfolding d_def by (rule strtoul_show_hex) (rule field_value_less)
  have put: "put_byte (int n) (and (drop_bit 8 (int (field_value (a, b)))) 0xff) (ip_address \<sigma>) = Some ((ip_address \<sigma>)[n := a])"
    "put_byte (1 + int n) (and (int (field_value (a, b))) 0xff) ((ip_address \<sigma>)[n := a]) = Some ((ip_address \<sigma>)[n := a, Suc n := b])"
    using len sixteen by (simp_all add: put_byte_def field_value_bytes nat_add_distrib)
  have ts: "list_all c_isdigit d \<Longrightarrow> ?thesis" "\<not> list_all c_isdigit d \<Longrightarrow> ?thesis"
    using st len
    by (auto simp: inet_step_def at tk inet_dispatch_def on_field_def v Let_def pos put)
  then show ?thesis by blast
qed

lemma step_colon:
  assumes "ip_state \<sigma> \<in> {STATE_AFTERHEX, STATE_AFTERDEC}" and "in_ptr \<sigma> = length p"
  shows "\<exists>\<sigma>'. inet_step (p @ CHR '':'' # r) \<sigma> = Continue \<sigma>' \<and> ip_state \<sigma>' = STATE_AFTERCOLON \<and>
    in_ptr \<sigma>' = length (p @ '':'') \<and> ip_pos \<sigma>' = ip_pos \<sigma> \<and> ip_address \<sigma>' = ip_address \<sigma> \<and>
    compress_pos \<sigma>' = compress_pos \<sigma> \<and> ip_domain \<sigma>' = ip_domain \<sigma>"
proof -
  have "\<not> c_isxdigit (CHR '':'')" by code_simp
  then show ?thesis
    using assms
    by (auto simp: inet_step_def tokenize_char inet_dispatch_def on_afterhex_def on_afterdec_def Let_def)
qed

lemma step_end:
  assumes "ip_state \<sigma> \<in> {STATE_AFTERHEX, STATE_AFTERDEC, STATE_END} \<or>
      ip_state \<sigma> = STATE_FIELD \<and> ip_pos \<sigma> + 1 = compress_pos \<sigma>"
    and "in_ptr \<sigma> = length s"
  shows "\<exists>\<sigma>'. inet_step s \<sigma> = Break \<sigma>' \<and> ip_pos \<sigma>' = ip_pos \<sigma> \<and> ip_address \<sigma>' = ip_address \<sigma> \<and>
    compress_pos \<sigma>' = compress_pos \<sigma> \<and> ip_domain \<sigma>' = ip_domain \<sigma>"
  using assms
  by (auto simp: inet_step_def tokenize_at_end inet_dispatch_def on_afterhex_def on_afterdec_def on_end_def
      on_field_def Let_def)


text \<open>
  A run over the fields of an address: the fields' bytes are stored from index \<open>n\<close> on, and the run
  stands behind the last field.
\<close>

definition fields_text :: "(byte \<times> byte) list \<Rightarrow> string" where
  "fields_text fs = join_sep '':'' (map (\<lambda>f. show_hex (field_value f)) fs)"

definition fields_bytes :: "(byte \<times> byte) list \<Rightarrow> byte list" where
  "fields_bytes fs = concat (map (\<lambda>(a, b). [a, b]) fs)"

lemma fields_bytes_simps [simp]:
  "fields_bytes [] = []" "fields_bytes ((a, b) # fs) = a # b # fields_bytes fs"
  by (simp_all add: fields_bytes_def)

lemma fields_bytes_length [simp]: "length (fields_bytes fs) = 2 * length fs"
  by (induction fs) auto

lemma fields_text_simps [simp]:
  "fields_text [] = []" "fields_text [f] = show_hex (field_value f)"
  "fields_text (f # g # fs) = show_hex (field_value f) @ CHR '':'' # fields_text (g # fs)"
  by (simp_all add: fields_text_def)

definition store_bytes :: "nat \<Rightarrow> byte list \<Rightarrow> byte list \<Rightarrow> byte list" where
  "store_bytes n bs xs = take n xs @ bs @ drop (n + length bs) xs"

lemma store_bytes_Nil [simp]: "store_bytes n [] xs = xs"
  by (simp add: store_bytes_def)

lemma store_bytes_two:
  assumes "n + 2 + length bs \<le> length xs"
  shows "store_bytes (n + 2) bs (xs[n := a, Suc n := b]) = store_bytes n (a # b # bs) xs"
proof -
  obtain x y w where "drop n xs = x # y # w"
    using assms by (metis Cons_nth_drop_Suc Suc_le_eq add_2_eq_Suc' add_leD1 less_SucI Suc_less_eq le_imp_less_Suc)
  then have xs: "xs = take n xs @ x # y # w" by (metis append_take_drop_id)
  define u where "u = take n xs"
  have "xs = u @ x # y # w" and len: "length u = n" using xs assms by (simp_all add: u_def)
  then show ?thesis by (simp add: store_bytes_def list_update_append Suc_diff_le)
qed

lemma run_continue: "inet_step s \<sigma> = Continue \<sigma>' \<Longrightarrow> inet_run s \<sigma> = inet_run s \<sigma>'"
  by (subst inet_run.simps) simp

lemma run_break: "inet_step s \<sigma> = Break \<sigma>' \<Longrightarrow> inet_run s \<sigma> = Break \<sigma>'"
  by (subst inet_run.simps) simp

lemma run_fields:
  assumes "fs \<noteq> []" and "ip_state \<sigma> \<in> {STATE_START, STATE_FIELD, STATE_AFTERCOLON}"
    and "in_ptr \<sigma> = length p" and "ip_pos \<sigma> = int n - 1" and "n + 2 * length fs \<le> 16"
    and "length (ip_address \<sigma>) = 16" and "\<not> c_isxdigit (char_at r 0)"
  shows "\<exists>\<sigma>'. inet_run (p @ fields_text fs @ r) \<sigma> = inet_run (p @ fields_text fs @ r) \<sigma>' \<and>
    ip_state \<sigma>' \<in> {STATE_AFTERHEX, STATE_AFTERDEC} \<and> in_ptr \<sigma>' = length (p @ fields_text fs) \<and>
    ip_pos \<sigma>' = int (n + 2 * length fs) - 1 \<and> ip_address \<sigma>' = store_bytes n (fields_bytes fs) (ip_address \<sigma>) \<and>
    compress_pos \<sigma>' = compress_pos \<sigma> \<and> ip_domain \<sigma>' = ip_domain \<sigma>"
  using assms
proof (induction fs arbitrary: \<sigma> p n rule: list_nonempty_induct)
  case (single f)
  obtain a b where f: "f = (a, b)" by fastforce
  obtain \<sigma>' where "inet_step (p @ fields_text [f] @ r) \<sigma> = Continue \<sigma>'" "ip_state \<sigma>' \<in> {STATE_AFTERHEX, STATE_AFTERDEC}"
    "in_ptr \<sigma>' = length (p @ fields_text [f])" "ip_pos \<sigma>' = int (n + 2) - 1"
    "ip_address \<sigma>' = (ip_address \<sigma>)[n := a, Suc n := b]"
    "compress_pos \<sigma>' = compress_pos \<sigma>" "ip_domain \<sigma>' = ip_domain \<sigma>"
    using step_field [of \<sigma> p n r a b] single by (auto simp: f split: if_splits)
  then show ?case
    using store_bytes_two [of n "[]" "ip_address \<sigma>" a b] single run_continue
    by (intro exI [of _ \<sigma>']) (simp add: f)
next
  case (cons f fs)
  obtain a b where f: "f = (a, b)" by fastforce
  obtain g gs where fs: "fs = g # gs" using cons(1) by (cases fs) auto
  let ?d = "show_hex (field_value (a, b))"
  let ?s = "p @ ?d @ CHR '':'' # fields_text fs @ r"
  have "\<not> c_isxdigit (CHR '':'')" by code_simp
  then obtain \<sigma>1 where 1: "inet_step ?s \<sigma> = Continue \<sigma>1" "ip_state \<sigma>1 \<in> {STATE_AFTERHEX, STATE_AFTERDEC}"
    "in_ptr \<sigma>1 = length (p @ ?d)" "ip_pos \<sigma>1 = int (n + 2) - 1" "ip_address \<sigma>1 = (ip_address \<sigma>)[n := a, Suc n := b]"
    "compress_pos \<sigma>1 = compress_pos \<sigma>" "ip_domain \<sigma>1 = ip_domain \<sigma>"
    using step_field [of \<sigma> p n "CHR '':'' # fields_text fs @ r" a b] cons.prems by (auto split: if_splits)
  obtain \<sigma>2 where 2: "inet_step ?s \<sigma>1 = Continue \<sigma>2" "ip_state \<sigma>2 = STATE_AFTERCOLON"
    "in_ptr \<sigma>2 = length (p @ ?d @ '':'')" "ip_pos \<sigma>2 = ip_pos \<sigma>1" "ip_address \<sigma>2 = ip_address \<sigma>1"
    "compress_pos \<sigma>2 = compress_pos \<sigma>1" "ip_domain \<sigma>2 = ip_domain \<sigma>1"
    using step_colon [OF 1(2,3), of "fields_text fs @ r"] by auto
  obtain \<sigma>3 where 3: "inet_run ?s \<sigma>2 = inet_run ?s \<sigma>3"
    "ip_state \<sigma>3 \<in> {STATE_AFTERHEX, STATE_AFTERDEC}" "in_ptr \<sigma>3 = length (p @ ?d @ '':'' @ fields_text fs)"
    "ip_pos \<sigma>3 = int (n + 2 + 2 * length fs) - 1" "ip_address \<sigma>3 = store_bytes (n + 2) (fields_bytes fs) (ip_address \<sigma>2)"
    "compress_pos \<sigma>3 = compress_pos \<sigma>2" "ip_domain \<sigma>3 = ip_domain \<sigma>2"
    using cons.IH [of \<sigma>2 "p @ ?d @ '':''" "n + 2"] 1 2 cons.prems by auto
  have "ip_address \<sigma>3 = store_bytes n (fields_bytes (f # fs)) (ip_address \<sigma>)"
    using 1(5) 2(5) 3(5) cons.prems store_bytes_two [of n "fields_bytes fs" "ip_address \<sigma>" a b] by (simp add: f)
  moreover have "fields_text (f # fs) = ?d @ '':'' @ fields_text fs" by (simp add: f fs)
  ultimately show ?case
    using 3 1(6,7) 2(6,7) run_continue [OF 1(1)] run_continue [OF 2(1)] by (intro exI [of _ \<sigma>3]) simp
qed


text \<open>The pair of colons, at the start of the address or behind a field.\<close>

lemma run_compressed:
  assumes "ip_state \<sigma> \<in> {STATE_START, STATE_AFTERHEX, STATE_AFTERDEC}" and "in_ptr \<sigma> = length p"
    and "compress_pos \<sigma> = -1" and "ip_pos \<sigma> = int n - 1"
  shows "\<exists>\<sigma>'. inet_run (p @ ''::'' @ r) \<sigma> = inet_run (p @ ''::'' @ r) \<sigma>' \<and> ip_state \<sigma>' = STATE_FIELD \<and>
    in_ptr \<sigma>' = length (p @ ''::'') \<and> ip_pos \<sigma>' = ip_pos \<sigma> \<and> ip_address \<sigma>' = ip_address \<sigma> \<and>
    compress_pos \<sigma>' = int n \<and> ip_domain \<sigma>' = ip_domain \<sigma>"
proof -
  let ?s = "p @ ''::'' @ r"
  have x: "\<not> c_isxdigit (CHR '':'')" by code_simp
  obtain \<sigma>1 where 1: "inet_step ?s \<sigma> = Continue \<sigma>1" "ip_state \<sigma>1 \<in> {STATE_COMPRESSED, STATE_AFTERCOLON}"
    "in_ptr \<sigma>1 = length (p @ '':'')" "ip_pos \<sigma>1 = ip_pos \<sigma>" "ip_address \<sigma>1 = ip_address \<sigma>"
    "compress_pos \<sigma>1 = compress_pos \<sigma>" "ip_domain \<sigma>1 = ip_domain \<sigma>"
    using assms tokenize_char [OF x, of p "CHR '':'' # r"]
    by (auto simp: inet_step_def inet_dispatch_def on_afterhex_def on_afterdec_def Let_def)
  obtain \<sigma>2 where "inet_step ?s \<sigma>1 = Continue \<sigma>2" "ip_state \<sigma>2 = STATE_FIELD"
    "in_ptr \<sigma>2 = length (p @ ''::'')" "ip_pos \<sigma>2 = ip_pos \<sigma>" "ip_address \<sigma>2 = ip_address \<sigma>"
    "compress_pos \<sigma>2 = int n" "ip_domain \<sigma>2 = ip_domain \<sigma>"
    using 1(2-) assms(3,4) tokenize_char [OF x, of "p @ '':''" r]
    by (auto simp: inet_step_def inet_dispatch_def on_compressed_def Let_def)
  then show ?thesis using run_continue [OF 1(1)] run_continue by (intro exI [of _ \<sigma>2]) simp
qed

lemma finish_cong:
  "ip_pos \<sigma>' = ip_pos \<sigma> \<Longrightarrow> ip_address \<sigma>' = ip_address \<sigma> \<Longrightarrow> compress_pos \<sigma>' = compress_pos \<sigma> \<Longrightarrow>
   ip_domain \<sigma>' = ip_domain \<sigma> \<Longrightarrow> inet_finish \<sigma>' = inet_finish \<sigma>"
  by (simp add: inet_finish_def Let_def)

lemma run_break_end:
  assumes "ip_state \<sigma> \<in> {STATE_AFTERHEX, STATE_AFTERDEC, STATE_END} \<or>
      ip_state \<sigma> = STATE_FIELD \<and> ip_pos \<sigma> + 1 = compress_pos \<sigma>"
    and "in_ptr \<sigma> = length s"
  shows "\<exists>\<sigma>'. inet_run s \<sigma> = Break \<sigma>' \<and> inet_finish \<sigma>' = inet_finish \<sigma>"
proof -
  obtain \<sigma>' where "inet_step s \<sigma> = Break \<sigma>'" "ip_pos \<sigma>' = ip_pos \<sigma>" "ip_address \<sigma>' = ip_address \<sigma>"
    "compress_pos \<sigma>' = compress_pos \<sigma>" "ip_domain \<sigma>' = ip_domain \<sigma>"
    using step_end [OF assms] by blast
  then show ?thesis using run_break [of s \<sigma> \<sigma>'] finish_cong [of \<sigma>' \<sigma>] by simp
qed

lemma fields_text_NUL: "NUL \<notin> set (fields_text fs)"
proof (induction fs rule: induct_list012)
  case (2 f)
  have "\<not> c_isxdigit NUL" by code_simp
  then show ?case using show_hex_xdigits(1) [of "field_value f"] by (auto simp: list_all_iff)
next
  case (3 f g fs)
  have "\<not> c_isxdigit NUL" by code_simp
  then show ?case using 3 show_hex_xdigits(1) [of "field_value f"] by (auto simp: list_all_iff)
qed simp

lemma fields_text_length: "length (fields_text fs) \<le> 5 * length fs - 1"
proof (induction fs rule: induct_list012)
  case (2 f)
  then show ?case using show_hex_length [of "field_value f" 3] field_value_less [of f] by simp
next
  case (3 f g fs)
  then show ?case using show_hex_length [of "field_value f" 3] field_value_less [of f] by simp
qed simp

lemma parse_run:
  assumes "NUL \<notin> set s" and "length s \<le> 49" and "inet_run s inet_init = Break \<sigma>"
  shows "php_scylladb_parse_ip_address s = inet_finish \<sigma>"
  using assms strlen_NUL [of s] by (simp add: php_scylladb_parse_ip_address_def)

lemma store_bytes_zeroes:
  "store_bytes (length u) bs (u @ replicate k 0) = u @ bs @ replicate (k - length bs) 0"
  by (simp add: store_bytes_def)

lemma run_prefix:
  assumes "2 * length fs \<le> 16" and "\<not> c_isxdigit (char_at r 0)"
  shows "\<exists>\<sigma>'. inet_run (fields_text fs @ r) inet_init = inet_run (fields_text fs @ r) \<sigma>' \<and>
    ip_state \<sigma>' \<in> (if fs = [] then {STATE_START} else {STATE_AFTERHEX, STATE_AFTERDEC}) \<and>
    in_ptr \<sigma>' = length (fields_text fs) \<and> ip_pos \<sigma>' = int (2 * length fs) - 1 \<and>
    ip_address \<sigma>' = fields_bytes fs @ replicate (16 - 2 * length fs) 0 \<and>
    compress_pos \<sigma>' = -1 \<and> ip_domain \<sigma>' = 0"
proof (cases "fs = []")
  case True
  then show ?thesis by (intro exI [of _ inet_init]) (simp add: inet_init_def)
next
  case False
  then show ?thesis
    using run_fields [of fs inet_init "[]" 0 r] assms store_bytes_zeroes [of "[]" "fields_bytes fs" 16]
    by (simp add: inet_init_def)
qed

lemma run_suffix:
  assumes "length u + 2 * length gs \<le> 16" and "ip_state \<sigma> = STATE_FIELD" and "in_ptr \<sigma> = length p"
    and "ip_pos \<sigma> = int (length u) - 1" and "compress_pos \<sigma> = int (length u)" and "ip_domain \<sigma> = 0"
    and "ip_address \<sigma> = u @ replicate (16 - length u) 0"
  shows "\<exists>\<sigma>'. inet_run (p @ fields_text gs) \<sigma> = Break \<sigma>' \<and>
    inet_finish \<sigma>' = inet_finish (\<sigma>\<lparr>ip_pos := int (length u + 2 * length gs) - 1,
      ip_address := u @ fields_bytes gs @ replicate (16 - length u - 2 * length gs) 0\<rparr>)"
    (is "\<exists>\<sigma>'. _ \<and> _ = inet_finish ?\<sigma>")
proof (cases "gs = []")
  case True
  have "inet_finish \<sigma> = inet_finish ?\<sigma>" using assms True by (intro finish_cong) simp_all
  then show ?thesis using run_break_end [of \<sigma> p] assms True by simp
next
  case False
  have "\<not> c_isxdigit NUL" by code_simp
  then obtain \<sigma>1 where 1: "inet_run (p @ fields_text gs) \<sigma> = inet_run (p @ fields_text gs) \<sigma>1"
    "ip_state \<sigma>1 \<in> {STATE_AFTERHEX, STATE_AFTERDEC}" "in_ptr \<sigma>1 = length (p @ fields_text gs)"
    "ip_pos \<sigma>1 = int (length u + 2 * length gs) - 1"
    "ip_address \<sigma>1 = u @ fields_bytes gs @ replicate (16 - length u - 2 * length gs) 0"
    "compress_pos \<sigma>1 = compress_pos \<sigma>" "ip_domain \<sigma>1 = ip_domain \<sigma>"
    using run_fields [of gs \<sigma> p "length u" "[]"] False assms
      store_bytes_zeroes [of u "fields_bytes gs" "16 - length u"] by auto
  then have "inet_finish \<sigma>1 = inet_finish ?\<sigma>" by (intro finish_cong) simp_all
  then show ?thesis using run_break_end [of \<sigma>1 "p @ fields_text gs"] 1 by auto
qed

lemma finish_compressed:
  assumes "ip_domain \<sigma> = 0" and "compress_pos \<sigma> = int (length u)" and "ip_pos \<sigma> = int (length u + length v) - 1"
    and "ip_address \<sigma> = u @ v @ replicate k 0" and "length u + length v + k = 16" and "k \<noteq> 0"
  shows "inet_finish \<sigma> = Ret (u @ replicate k 0 @ v)"
proof -
  obtain m where "k = Suc m" using assms(6) by (cases k) auto
  then show ?thesis
    using assms inet_move_bytes [of u v m "[]"] by (cases "v = []") (auto simp: inet_finish_def Let_def)
qed



lemma parse_ipv6_full:
  assumes len: "length fs = 8"
  shows "php_scylladb_parse_ip_address (fields_text fs) = Ret (fields_bytes fs)"
proof -
  have "\<not> c_isxdigit NUL" by code_simp
  moreover have ne: "fs \<noteq> []" using len by auto
  ultimately obtain \<sigma>1 where 1: "inet_run (fields_text fs) inet_init = inet_run (fields_text fs) \<sigma>1"
    "ip_state \<sigma>1 \<in> {STATE_AFTERHEX, STATE_AFTERDEC}" "in_ptr \<sigma>1 = length (fields_text fs)"
    "ip_pos \<sigma>1 = int (2 * length fs) - 1" "ip_address \<sigma>1 = fields_bytes fs" "compress_pos \<sigma>1 = -1" "ip_domain \<sigma>1 = 0"
    using run_prefix [of fs "[]"] len by auto
  then obtain \<sigma>2 where "inet_run (fields_text fs) inet_init = Break \<sigma>2" "inet_finish \<sigma>2 = inet_finish \<sigma>1"
    using run_break_end [of \<sigma>1 "fields_text fs"] by auto
  moreover have "length (fields_text fs) \<le> 49" using len fields_text_length [of fs] by simp
  ultimately show ?thesis
    using parse_run [of "fields_text fs"] fields_text_NUL [of fs] 1(4-) len by (simp add: inet_finish_def)
qed


text \<open>The dotted form.\<close>

lemma show_nat_byte: "length (show_nat (unat (b :: byte))) \<le> 3"
  using show_nat_length_less [of "unat b" 3] unat_byte_less [of b] by simp

lemma show_nat_xdigits: "list_all c_isxdigit (show_nat n)" "map c_tolower (show_nat n) = show_nat n"
proof -
  have "c_tolower c = c" if "c_isdigit c" for c
    using that by (auto simp: c_tolower_def c_isdigit_def c_isupper_def)
  then show "list_all c_isxdigit (show_nat n)" "map c_tolower (show_nat n) = show_nat n"
    using show_nat_digits [of n] by (auto simp: list_all_iff c_isxdigit_def intro!: map_idI)
qed

lemma tokenize_byte:
  "\<not> c_isxdigit (char_at r 0) \<Longrightarrow>
   ip_address_tokenize (p @ show_nat (unat (b :: byte)) @ r) (length p) = (TOKEN_DEC, show_nat (unat b))"
  using tokenize_digits [of "show_nat (unat b)" r p] show_nat_xdigits [of "unat b"] show_nat_byte [of b] show_nat_digits [of "unat b"]
  by simp

lemma step_ipv4byte:
  assumes st: "ip_state \<sigma> = STATE_IPV4BYTE" and at: "in_ptr \<sigma> = length p" and n: "n < 4" "ip_pos \<sigma> = int n - 1" "ipv4_pos \<sigma> = int n"
    and a: "length (ip_address \<sigma>) = 16" and r: "\<not> c_isxdigit (char_at r 0)" and c: "compress_pos \<sigma> = -1"
  shows "\<exists>\<sigma>'. inet_step (p @ show_nat (unat b) @ r) \<sigma> = Continue \<sigma>' \<and>
    ip_state \<sigma>' = (if n = 3 then STATE_END else STATE_IPV4DOT) \<and> in_ptr \<sigma>' = length (p @ show_nat (unat b)) \<and>
    ip_pos \<sigma>' = int (Suc n) - 1 \<and> ipv4_pos \<sigma>' = int (Suc n) \<and> ip_address \<sigma>' = (ip_address \<sigma>)[n := b] \<and> compress_pos \<sigma>' = -1 \<and>
    ip_domain \<sigma>' = (if n = 3 then 1 else ip_domain \<sigma>)"
proof -
  have v: "fst (strtol (show_nat (unat b)) 10) = uint b" using strtol_show_small [of "unat b"] unat_byte_less [of b] by simp
  have le: "0 \<le> uint b" "uint b \<le> 255" using unsigned_less [where 'a = int and w = b] by simp_all
  have z: "Suc 0 < length (show_nat (unat b)) \<Longrightarrow> char_at (show_nat (unat b)) 0 \<noteq> CHR ''0''"
  proof (cases "unat b = 0")
    case False
    then show ?thesis using show_nat_leading [of "unat b"] by (cases "show_nat (unat b)") auto
  qed simp
  have "nat (int n) = n" by simp
  then show ?thesis
    using st n a c le
    by (simp add: inet_step_def at tokenize_byte [OF r] inet_dispatch_def on_ipv4byte_def v z Let_def put_byte_def)
qed


definition dotted_text :: "byte list \<Rightarrow> string" where
  "dotted_text bs = join_sep ''.'' (map (\<lambda>b. show_nat (unat b)) bs)"

lemma dotted_text_simps [simp]:
  "dotted_text [b] = show_nat (unat b)"
  "dotted_text (b # c # bs) = show_nat (unat b) @ CHR ''.'' # dotted_text (c # bs)"
  by (simp_all add: dotted_text_def)

lemma step_ipv4dot:
  assumes "ip_state \<sigma> = STATE_IPV4DOT" and "in_ptr \<sigma> = length p"
  shows "\<exists>\<sigma>'. inet_step (p @ CHR ''.'' # r) \<sigma> = Continue \<sigma>' \<and> ip_state \<sigma>' = STATE_IPV4BYTE \<and>
    in_ptr \<sigma>' = length (p @ ''.'') \<and> ip_pos \<sigma>' = ip_pos \<sigma> \<and> ipv4_pos \<sigma>' = ipv4_pos \<sigma> \<and>
    ip_address \<sigma>' = ip_address \<sigma> \<and> compress_pos \<sigma>' = compress_pos \<sigma> \<and> ip_domain \<sigma>' = ip_domain \<sigma>"
proof -
  have "\<not> c_isxdigit (CHR ''.'')" by code_simp
  then show ?thesis
    using assms by (simp add: inet_step_def tokenize_char inet_dispatch_def on_ipv4dot_def Let_def)
qed

lemma run_ipv4_bytes:
  assumes "bs \<noteq> []" and "ip_state \<sigma> = STATE_IPV4BYTE" and "in_ptr \<sigma> = length p" and "n + length bs = 4"
    and "ip_pos \<sigma> = int n - 1" and "ipv4_pos \<sigma> = int n" and "length (ip_address \<sigma>) = 16" and "compress_pos \<sigma> = -1"
  shows "\<exists>\<sigma>'. inet_run (p @ dotted_text bs) \<sigma> = Break \<sigma>' \<and> inet_finish \<sigma>' = Ret (take n (ip_address \<sigma>) @ bs)"
  using assms
proof (induction bs arbitrary: \<sigma> p n rule: list_nonempty_induct)
  case (single b)
  have "\<not> c_isxdigit NUL" by code_simp
  then obtain \<sigma>1 where 1: "inet_step (p @ dotted_text [b]) \<sigma> = Continue \<sigma>1" "ip_state \<sigma>1 = STATE_END"
    "in_ptr \<sigma>1 = length (p @ dotted_text [b])" "ip_address \<sigma>1 = (ip_address \<sigma>)[3 := b]" "ip_domain \<sigma>1 = 1"
    using step_ipv4byte [of \<sigma> p n "[]" b] single by auto
  have "inet_finish \<sigma>1 = Ret (take 3 (ip_address \<sigma>) @ [b])"
    using single 1 take_Suc_conv_app_nth [of 3 "(ip_address \<sigma>)[3 := b]"] by (simp add: inet_finish_def eval_nat_numeral)
  then show ?case using run_break_end [of \<sigma>1] run_continue [OF 1(1)] 1 single by auto
next
  case (cons b bs)
  obtain c cs where bs: "bs = c # cs" using cons(1) by (cases bs) auto
  let ?s = "p @ dotted_text (b # bs)" and ?d = "show_nat (unat b)"
  have s: "?s = p @ ?d @ CHR ''.'' # dotted_text bs" by (simp add: bs)
  have n: "n < 3" using cons.prems(3) by (simp add: bs)
  have "\<not> c_isxdigit (CHR ''.'')" by code_simp
  then obtain \<sigma>1 where 1: "inet_step ?s \<sigma> = Continue \<sigma>1" "ip_state \<sigma>1 = STATE_IPV4DOT" "in_ptr \<sigma>1 = length (p @ ?d)"
    "ip_pos \<sigma>1 = int (Suc n) - 1" "ipv4_pos \<sigma>1 = int (Suc n)" "ip_address \<sigma>1 = (ip_address \<sigma>)[n := b]" "compress_pos \<sigma>1 = -1"
    unfolding s using step_ipv4byte [of \<sigma> p n "CHR ''.'' # dotted_text bs" b] cons.prems n by auto
  obtain \<sigma>2 where 2: "inet_step ?s \<sigma>1 = Continue \<sigma>2" "ip_state \<sigma>2 = STATE_IPV4BYTE" "in_ptr \<sigma>2 = length (p @ ?d @ ''.'')"
    "ip_pos \<sigma>2 = int (Suc n) - 1" "ipv4_pos \<sigma>2 = int (Suc n)" "ip_address \<sigma>2 = (ip_address \<sigma>)[n := b]" "compress_pos \<sigma>2 = -1"
    unfolding s using step_ipv4dot [OF 1(2,3), of "dotted_text bs"] 1(4-) by auto
  have "take (Suc n) (ip_address \<sigma>2) = take n (ip_address \<sigma>) @ [b]"
    using 2(6) cons.prems n by (simp add: take_Suc_conv_app_nth)
  moreover have "\<exists>\<sigma>'. inet_run ((p @ ?d @ ''.'') @ dotted_text bs) \<sigma>2 = Break \<sigma>' \<and> inet_finish \<sigma>' = Ret (take (Suc n) (ip_address \<sigma>2) @ bs)"
    using 2 cons.prems by (intro cons.IH) auto
  ultimately show ?case using run_continue [OF 1(1)] run_continue [OF 2(1)] by (simp add: s)
qed

text \<open>
  The first byte of a dotted address is read as an IPv6 field first; the dot behind it undoes that.
\<close>

lemma run_rollback:
  assumes s: "s = show_nat (unat (b :: byte)) @ CHR ''.'' # r"
  shows "\<exists>\<sigma>. inet_run s inet_init = inet_run s \<sigma> \<and> ip_state \<sigma> = STATE_IPV4BYTE \<and> in_ptr \<sigma> = 0 \<and> ip_pos \<sigma> = -1 \<and>
    ipv4_pos \<sigma> = 0 \<and> length (ip_address \<sigma>) = 16 \<and> compress_pos \<sigma> = -1"
proof -
  let ?d = "show_nat (unat b)"
  have x: "\<not> c_isxdigit (CHR ''.'')" by code_simp
  have tk: "ip_address_tokenize s 0 = (TOKEN_DEC, ?d)" using tokenize_byte [of "CHR ''.'' # r" "[]" b] x by (simp add: s)
  obtain \<sigma>1 where 1: "inet_step s inet_init = Continue \<sigma>1" "ip_state \<sigma>1 = STATE_AFTERDEC" "in_ptr \<sigma>1 = length ?d"
    "token_len \<sigma>1 = int (length ?d)" "ip_pos \<sigma>1 = 1" "length (ip_address \<sigma>1) = 16" "compress_pos \<sigma>1 = -1"
    by (simp add: inet_step_def inet_init_def tk inet_dispatch_def on_field_def Let_def put_byte_def)
  obtain \<sigma>2 where "inet_step s \<sigma>1 = Continue \<sigma>2" "ip_state \<sigma>2 = STATE_IPV4BYTE" "in_ptr \<sigma>2 = 0" "ip_pos \<sigma>2 = -1"
    "ipv4_pos \<sigma>2 = 0" "length (ip_address \<sigma>2) = 16" "compress_pos \<sigma>2 = -1"
    using 1(2-) tokenize_char [OF x, of ?d r]
    by (simp add: inet_step_def s inet_dispatch_def on_afterdec_def Let_def put_byte_def)
  then show ?thesis using run_continue [OF 1(1)] run_continue [of s \<sigma>1 \<sigma>2] by auto
qed

lemma parse_ipv4:
  assumes "length a = 4"
  shows "php_scylladb_parse_ip_address (dotted_text a) = Ret a"
proof -
  obtain b c d e where a: "a = [b, c, d, e]" using assms by (auto simp: length_Suc_conv eval_nat_numeral)
  let ?s = "dotted_text a"
  obtain \<sigma> where \<sigma>: "inet_run ?s inet_init = inet_run ?s \<sigma>" "ip_state \<sigma> = STATE_IPV4BYTE" "in_ptr \<sigma> = 0" "ip_pos \<sigma> = -1"
    "ipv4_pos \<sigma> = 0" "length (ip_address \<sigma>) = 16" "compress_pos \<sigma> = -1"
    using run_rollback [of ?s b "dotted_text [c, d, e]"] by (auto simp: a)
  then obtain \<sigma>' where "inet_run ?s inet_init = Break \<sigma>'" "inet_finish \<sigma>' = Ret a"
    using run_ipv4_bytes [of a \<sigma> "[]" 0] assms by (auto simp: a)
  moreover have "NUL \<notin> set ?s" using show_nat_NUL by (auto simp: a)
  moreover have "length ?s \<le> 49"
    using show_nat_byte [of b] show_nat_byte [of c] show_nat_byte [of d] show_nat_byte [of e] by (simp add: a)
  ultimately show ?thesis using parse_run [of ?s] by simp
qed

text \<open>
  Property C10. Every address the printer writes is read back as the same bytes, for the 4 bytes of an
  IPv4 address and the 16 bytes of an IPv6 address.
\<close>

theorem ip_address_round_trip:
  assumes "length a = 4 \<or> length a = 16"
  shows "php_scylladb_parse_ip_address (php_scylladb_format_address a) = Ret a"
proof (cases "length a = 4")
  case True
  then have "map (\<lambda>b. show_nat (unat b)) a = map (\<lambda>k. show_nat (unat (a ! k))) [0..<4]"
    by (intro nth_equalityI) auto
  then have "php_scylladb_format_address a = dotted_text a"
    using True by (simp add: php_scylladb_format_address_def dotted_text_def)
  then show ?thesis using parse_ipv4 [OF True] by simp
next
  case False
  define fs where "fs = map (\<lambda>k. (a ! (2 * k), a ! (2 * k + 1))) [0..<8]"
  have "length a = 16" using assms False by simp
  moreover from this have "fields_bytes fs = a"
    by (intro nth_equalityI) (auto simp: fs_def fields_bytes_def upt_rec eval_nat_numeral less_Suc_eq)
  moreover have "php_scylladb_format_address a = fields_text fs"
    using \<open>length a = 16\<close> by (simp add: php_scylladb_format_address_def fields_text_def fs_def field_value_def comp_def)
  ultimately show ?thesis using parse_ipv6_full [of fs] by (simp add: fs_def)
qed

theorem ip_address_round_trip_witness:
  "php_scylladb_parse_ip_address (php_scylladb_format_address [127, 0, 0, 1]) = Ret [127, 0, 0, 1]"
  using ip_address_round_trip [of "[127, 0, 0, 1]"] by simp

end
