(* ===== verification/Types.thy ===== *)
theory Types
  imports Zval
begin

text \<open>
  \<^verbatim>\<open>src/Type/TypeFactory.c\<close> and \<^verbatim>\<open>src/Type.c\<close>: comparing, printing and building
  type descriptors. \<open>cass_type\<close> is a type object all of whose components are set. The numeric
  codes of \<^verbatim>\<open>CassValueType\<close> belong to the C driver and are the parameter \<open>vt\<close>.
\<close>

section \<open>Codes and names\<close>

fun type_of :: "cass_type \<Rightarrow> cass_value_type" where
  "type_of (T_Scalar c) = c"
| "type_of (T_Custom _) = CASS_VALUE_TYPE_CUSTOM"
| "type_of (T_List _) = CASS_VALUE_TYPE_LIST"
| "type_of (T_Set _) = CASS_VALUE_TYPE_SET"
| "type_of (T_Map _ _) = CASS_VALUE_TYPE_MAP"
| "type_of (T_Tuple _) = CASS_VALUE_TYPE_TUPLE"
| "type_of (T_Udt _ _ _) = CASS_VALUE_TYPE_UDT"

text \<open>\<^verbatim>\<open>PHP_SCYLLADB_SCALAR_TYPES_MAP\<close>: the scalar types, in the order of the macro.\<close>

definition scalar_types_map :: "(string \<times> cass_value_type) list" where
  "scalar_types_map =
     [(''ascii'', CASS_VALUE_TYPE_ASCII), (''bigint'', CASS_VALUE_TYPE_BIGINT),
      (''smallint'', CASS_VALUE_TYPE_SMALL_INT), (''tinyint'', CASS_VALUE_TYPE_TINY_INT),
      (''blob'', CASS_VALUE_TYPE_BLOB), (''boolean'', CASS_VALUE_TYPE_BOOLEAN),
      (''counter'', CASS_VALUE_TYPE_COUNTER), (''decimal'', CASS_VALUE_TYPE_DECIMAL),
      (''double'', CASS_VALUE_TYPE_DOUBLE), (''duration'', CASS_VALUE_TYPE_DURATION),
      (''float'', CASS_VALUE_TYPE_FLOAT), (''int'', CASS_VALUE_TYPE_INT),
      (''text'', CASS_VALUE_TYPE_TEXT), (''timestamp'', CASS_VALUE_TYPE_TIMESTAMP),
      (''date'', CASS_VALUE_TYPE_DATE), (''time'', CASS_VALUE_TYPE_TIME),
      (''uuid'', CASS_VALUE_TYPE_UUID), (''varchar'', CASS_VALUE_TYPE_VARCHAR),
      (''varint'', CASS_VALUE_TYPE_VARINT), (''timeuuid'', CASS_VALUE_TYPE_TIMEUUID),
      (''inet'', CASS_VALUE_TYPE_INET)]"

definition scalar_name :: "cass_value_type \<Rightarrow> string option" where
  "scalar_name c = map_of (map (\<lambda>(n, d). (d, n)) scalar_types_map) c"

definition php_scylladb_scalar_type_name :: "cass_value_type \<Rightarrow> string" where
  "php_scylladb_scalar_type_name c = (case scalar_name c of Some n \<Rightarrow> n | None \<Rightarrow> ''invalid'')"

text \<open>Type objects as the constructors make them: a scalar object has a scalar code.\<close>

fun wf_type :: "cass_type \<Rightarrow> bool" where
  "wf_type (T_Scalar c) = (scalar_name c \<noteq> None)"
| "wf_type (T_Custom _) = True"
| "wf_type (T_List t) = wf_type t"
| "wf_type (T_Set t) = wf_type t"
| "wf_type (T_Map k v) = (wf_type k \<and> wf_type v)"
| "wf_type (T_Tuple ts) = list_all wf_type ts"
| "wf_type (T_Udt _ _ fs) = list_all (\<lambda>f. wf_type (snd f)) fs"

section \<open>Comparison\<close>

definition php5to7_string_compare :: "string \<Rightarrow> string \<Rightarrow> int" where
  "php5to7_string_compare s t =
     (if length s \<noteq> length t then (if length s < length t then -1 else 1) else byte_compare s t)"

definition udt_name_compare :: "string option \<Rightarrow> string option \<Rightarrow> int" where
  "udt_name_compare s t =
     (case s of None \<Rightarrow> 0 | Some a \<Rightarrow> (case t of None \<Rightarrow> 0 | Some b \<Rightarrow> php5to7_string_compare a b))"

definition is_string_type :: "cass_value_type \<Rightarrow> bool" where
  "is_string_type c \<longleftrightarrow> c = CASS_VALUE_TYPE_VARCHAR \<or> c = CASS_VALUE_TYPE_TEXT"

text \<open>The three loops walk both sides in step; the lengths are compared before.\<close>

fun php_scylladb_type_compare :: "(cass_value_type \<Rightarrow> nat) \<Rightarrow> cass_type \<Rightarrow> cass_type \<Rightarrow> int"
and tuple_compare :: "(cass_value_type \<Rightarrow> nat) \<Rightarrow> cass_type list \<Rightarrow> cass_type list \<Rightarrow> int"
and user_type_compare :: "(cass_value_type \<Rightarrow> nat) \<Rightarrow> (string \<times> cass_type) list \<Rightarrow> (string \<times> cass_type) list \<Rightarrow> int"
where
  "php_scylladb_type_compare vt (T_List a) (T_List b) = php_scylladb_type_compare vt a b"
| "php_scylladb_type_compare vt (T_Set a) (T_Set b) = php_scylladb_type_compare vt a b"
| "php_scylladb_type_compare vt (T_Map k v) (T_Map k' v') =
     (let r = php_scylladb_type_compare vt k k' in if r \<noteq> 0 then r else php_scylladb_type_compare vt v v')"
| "php_scylladb_type_compare vt (T_Tuple ts) (T_Tuple us) =
     (if length ts \<noteq> length us then (if length ts < length us then -1 else 1) else tuple_compare vt ts us)"
| "php_scylladb_type_compare vt (T_Udt ks n fs) (T_Udt ks' n' gs) =
     (let r = udt_name_compare ks ks' in if r \<noteq> 0 then r else
      let r = udt_name_compare n n' in if r \<noteq> 0 then r else
      if length fs \<noteq> length gs then (if length fs < length gs then -1 else 1)
      else user_type_compare vt fs gs)"
| "php_scylladb_type_compare vt t u =
     (if type_of t \<noteq> type_of u then
        if is_string_type (type_of t) \<and> is_string_type (type_of u) then 0
        else if vt (type_of t) < vt (type_of u) then -1 else 1
      else 0)"
| "tuple_compare vt (t # ts) (u # us) =
     (let r = php_scylladb_type_compare vt t u in if r \<noteq> 0 then r else tuple_compare vt ts us)"
| "tuple_compare vt _ _ = 0"
| "user_type_compare vt ((n, t) # fs) ((m, u) # gs) =
     (let r = php5to7_string_compare n m in if r \<noteq> 0 then r else
      let r = php_scylladb_type_compare vt t u in if r \<noteq> 0 then r else user_type_compare vt fs gs)"
| "user_type_compare vt _ _ = 0"

section \<open>Text\<close>

fun php_scylladb_type_string :: "cass_type \<Rightarrow> string" where
  "php_scylladb_type_string (T_Scalar c) = (case scalar_name c of Some n \<Rightarrow> n | None \<Rightarrow> ''invalid'')"
| "php_scylladb_type_string (T_Custom _) = ''invalid''"
| "php_scylladb_type_string (T_List t) = ''list<'' @ php_scylladb_type_string t @ ''>''"
| "php_scylladb_type_string (T_Set t) = ''set<'' @ php_scylladb_type_string t @ ''>''"
| "php_scylladb_type_string (T_Map k v) =
     ''map<'' @ php_scylladb_type_string k @ '', '' @ php_scylladb_type_string v @ ''>''"
| "php_scylladb_type_string (T_Tuple ts) = ''tuple<'' @ join_sep '', '' (map php_scylladb_type_string ts) @ ''>''"
| "php_scylladb_type_string (T_Udt ks n fs) =
     (case n of
        Some name \<Rightarrow> (case ks of Some k \<Rightarrow> k @ ''.'' | None \<Rightarrow> []) @ name
      | None \<Rightarrow> ''userType<'' @ join_sep '', '' (map (\<lambda>(m, t). m @ '':'' @ php_scylladb_type_string t) fs) @ ''>'')"

section \<open>The order of types\<close>

text \<open>
  On the types that are written in one way only (no alias, no custom class, user types with both names)
  the comparison is the lexicographic order of a code. The code of a type is self-delimiting, so the
  order of a sequence is decided by the first difference.
\<close>

fun canonical :: "cass_type \<Rightarrow> bool" where
  "canonical (T_Scalar c) = (scalar_name c \<noteq> None \<and> c \<noteq> CASS_VALUE_TYPE_TEXT)"
| "canonical (T_Custom _) = False"
| "canonical (T_List t) = canonical t"
| "canonical (T_Set t) = canonical t"
| "canonical (T_Map k v) = (canonical k \<and> canonical v)"
| "canonical (T_Tuple ts) = list_all canonical ts"
| "canonical (T_Udt ks n fs) = (ks \<noteq> None \<and> n \<noteq> None \<and> list_all (\<lambda>f. canonical (snd f)) fs)"

definition string_code :: "string \<Rightarrow> nat list" where
  "string_code s = length s # map code s"

fun type_code :: "(cass_value_type \<Rightarrow> nat) \<Rightarrow> cass_type \<Rightarrow> nat list" where
  "type_code vt (T_Scalar c) = [vt c]"
| "type_code vt (T_Custom s) = [vt CASS_VALUE_TYPE_CUSTOM]"
| "type_code vt (T_List t) = vt CASS_VALUE_TYPE_LIST # type_code vt t"
| "type_code vt (T_Set t) = vt CASS_VALUE_TYPE_SET # type_code vt t"
| "type_code vt (T_Map k v) = vt CASS_VALUE_TYPE_MAP # type_code vt k @ type_code vt v"
| "type_code vt (T_Tuple ts) = vt CASS_VALUE_TYPE_TUPLE # length ts # concat (map (type_code vt) ts)"
| "type_code vt (T_Udt ks n fs) = vt CASS_VALUE_TYPE_UDT # string_code (the ks) @ string_code (the n) @
     length fs # concat (map (\<lambda>(m, t). string_code m @ type_code vt t) fs)"

definition then_compare :: "int \<Rightarrow> int \<Rightarrow> int" where
  "then_compare r s = (if r \<noteq> 0 then r else s)"

lemma compare_Cons:
  "php_scylladb_compare (a # x) (b # y) = then_compare (php_scylladb_compare a b) (php_scylladb_compare x y)"
  for a b :: nat
  by (auto simp: php_scylladb_compare_def then_compare_def)

lemma then_compare_assoc: "then_compare (then_compare r s) t = then_compare r (then_compare s t)"
  by (simp add: then_compare_def)

lemma then_compare_simps [simp]: "then_compare 0 s = s" "then_compare r 0 = r"
  by (simp_all add: then_compare_def)

lemma compare_same [simp]: "php_scylladb_compare a a = 0"
  by (simp add: php_scylladb_compare_def)

lemma compare_map_append:
  "length s = length t \<Longrightarrow> php_scylladb_compare (map code s @ x) (map code t @ y) =
    then_compare (byte_compare s t) (php_scylladb_compare x y)"
  by (induction s t rule: list_induct2)
    (simp_all add: compare_Cons then_compare_assoc, auto simp: php_scylladb_compare_def then_compare_def)

lemma string_code_compare:
  "php_scylladb_compare (string_code s @ x) (string_code t @ y) =
    then_compare (php5to7_string_compare s t) (php_scylladb_compare x y)"
proof (cases "length s = length t")
  case True
  then show ?thesis
    by (simp add: string_code_def compare_Cons compare_map_append php5to7_string_compare_def)
next
  case False
  then show ?thesis
    by (simp add: string_code_def compare_Cons php5to7_string_compare_def php_scylladb_compare_def then_compare_def)
qed

lemma length_compare:
  "(if length xs \<noteq> length ys then (if length xs < length ys then -1 else 1) else r) =
    then_compare (php_scylladb_compare (length xs) (length ys)) r"
  by (simp add: php_scylladb_compare_def then_compare_def)

lemma let_then_compare: "(let r = a in if r \<noteq> 0 then r else b) = then_compare a b"
  by (simp add: then_compare_def Let_def)

lemma then_compare_cong: "r = r' \<Longrightarrow> (r' = 0 \<Longrightarrow> s = s') \<Longrightarrow> then_compare r s = then_compare r' s'"
  by (simp add: then_compare_def)

lemma scalar_name_composite [simp]:
  "scalar_name CASS_VALUE_TYPE_LIST = None" "scalar_name CASS_VALUE_TYPE_SET = None"
  "scalar_name CASS_VALUE_TYPE_MAP = None" "scalar_name CASS_VALUE_TYPE_TUPLE = None"
  "scalar_name CASS_VALUE_TYPE_UDT = None" "scalar_name CASS_VALUE_TYPE_CUSTOM = None"
  by code_simp+

lemma type_code_hd: "\<exists>r. type_code vt t = vt (type_of t) # r"
  by (cases t) auto

lemma compare_types_differ:
  assumes "inj vt" and "canonical t" and "canonical u" and "type_of t \<noteq> type_of u"
  shows "php_scylladb_type_compare vt t u = php_scylladb_compare (vt (type_of t)) (vt (type_of u))"
    and "php_scylladb_compare (vt (type_of t)) (vt (type_of u)) \<noteq> 0"
proof -
  have "vt (type_of t) \<noteq> vt (type_of u)" using assms(1,4) by (auto dest: injD)
  then show "php_scylladb_compare (vt (type_of t)) (vt (type_of u)) \<noteq> 0" by (simp add: php_scylladb_compare_def)
  show "php_scylladb_type_compare vt t u = php_scylladb_compare (vt (type_of t)) (vt (type_of u))"
    using assms(2-4) \<open>vt (type_of t) \<noteq> _\<close>
    by (cases t; cases u) (auto simp: php_scylladb_compare_def is_string_type_def)
qed

lemma tuple_code_compare:
  assumes "\<And>t u x y. t \<in> set ts \<Longrightarrow> canonical t \<Longrightarrow> canonical u \<Longrightarrow>
      php_scylladb_compare (type_code vt t @ x) (type_code vt u @ y) =
      then_compare (php_scylladb_type_compare vt t u) (php_scylladb_compare x y)"
    and "length ts = length us" and "list_all canonical ts" and "list_all canonical us"
  shows "php_scylladb_compare (concat (map (type_code vt) ts) @ x) (concat (map (type_code vt) us) @ y) =
      then_compare (tuple_compare vt ts us) (php_scylladb_compare x y)"
  using assms(2,1,3,4)
  by (induction ts us rule: list_induct2) (simp_all add: let_then_compare then_compare_assoc)

lemma user_type_code_compare:
  assumes "\<And>t u x y. t \<in> snd ` set fs \<Longrightarrow> canonical t \<Longrightarrow> canonical u \<Longrightarrow>
      php_scylladb_compare (type_code vt t @ x) (type_code vt u @ y) =
      then_compare (php_scylladb_type_compare vt t u) (php_scylladb_compare x y)"
    and "length fs = length gs" and "list_all (\<lambda>f. canonical (snd f)) fs" and "list_all (\<lambda>f. canonical (snd f)) gs"
  shows "php_scylladb_compare (concat (map (\<lambda>(m, t). string_code m @ type_code vt t) fs) @ x)
        (concat (map (\<lambda>(m, t). string_code m @ type_code vt t) gs) @ y) =
      then_compare (user_type_compare vt fs gs) (php_scylladb_compare x y)"
  using assms(2,1,3,4)
proof (induction fs gs rule: list_induct2)
  case (Cons f fs g gs)
  obtain n t m u where "f = (n, t)" "g = (m, u)" by fastforce
  then show ?case
    using Cons by (simp add: let_then_compare then_compare_assoc string_code_compare)
qed simp

lemma type_code_differ:
  assumes "inj vt" and "canonical t" and "canonical u" and "type_of t \<noteq> type_of u"
  shows "php_scylladb_compare (type_code vt t @ x) (type_code vt u @ y) =
      then_compare (php_scylladb_type_compare vt t u) (php_scylladb_compare x y)"
proof -
  obtain r r' where "type_code vt t = vt (type_of t) # r" "type_code vt u = vt (type_of u) # r'"
    using type_code_hd by metis
  then show ?thesis using compare_types_differ [OF assms] by (simp add: compare_Cons then_compare_def)
qed

lemma canonical_of_type:
  assumes "canonical u"
  shows "type_of u = CASS_VALUE_TYPE_LIST \<Longrightarrow> \<exists>v. u = T_List v" "type_of u = CASS_VALUE_TYPE_SET \<Longrightarrow> \<exists>v. u = T_Set v"
    "type_of u = CASS_VALUE_TYPE_MAP \<Longrightarrow> \<exists>k v. u = T_Map k v" "type_of u = CASS_VALUE_TYPE_TUPLE \<Longrightarrow> \<exists>us. u = T_Tuple us"
    "type_of u = CASS_VALUE_TYPE_UDT \<Longrightarrow> \<exists>ks n gs. u = T_Udt (Some ks) (Some n) gs"
    "scalar_name (type_of u) \<noteq> None \<Longrightarrow> u = T_Scalar (type_of u)"
  using assms by (cases u; auto)+

lemma type_code_compare:
  assumes vt: "inj vt"
  shows "canonical t \<Longrightarrow> canonical u \<Longrightarrow> php_scylladb_compare (type_code vt t @ x) (type_code vt u @ y) =
      then_compare (php_scylladb_type_compare vt t u) (php_scylladb_compare x y)"
proof (induction t arbitrary: u x y)
  case (T_Scalar c)
  then show ?case
    using type_code_differ [OF vt T_Scalar] canonical_of_type(6) [OF T_Scalar(2)]
    by (cases "type_of u = c") (auto simp: compare_Cons)
next
  case (T_Custom n)
  then show ?case by simp
next
  case (T_List t)
  then show ?case
    using type_code_differ [OF vt T_List.prems] canonical_of_type(1) [OF T_List.prems(2)]
    by (cases "type_of u = CASS_VALUE_TYPE_LIST") (auto simp: compare_Cons)
next
  case (T_Set t)
  then show ?case
    using type_code_differ [OF vt T_Set.prems] canonical_of_type(2) [OF T_Set.prems(2)]
    by (cases "type_of u = CASS_VALUE_TYPE_SET") (auto simp: compare_Cons)
next
  case (T_Map k v)
  then show ?case
    using type_code_differ [OF vt T_Map.prems] canonical_of_type(3) [OF T_Map.prems(2)]
    by (cases "type_of u = CASS_VALUE_TYPE_MAP") (auto simp: compare_Cons let_then_compare then_compare_assoc)
next
  case (T_Tuple ts)
  then show ?case
    using type_code_differ [OF vt T_Tuple.prems] canonical_of_type(4) [OF T_Tuple.prems(2)]
    by (cases "type_of u = CASS_VALUE_TYPE_TUPLE")
      (auto simp: compare_Cons length_compare then_compare_assoc intro!: then_compare_cong tuple_code_compare)
next
  case (T_Udt ks n fs)
  have "php_scylladb_compare (type_code vt t @ x) (type_code vt u @ y) =
      then_compare (php_scylladb_type_compare vt t u) (php_scylladb_compare x y)"
    if "t \<in> snd ` set fs" "canonical t" "canonical u" for t u x y
    using T_Udt.IH that by (auto simp: snds.simps)
  note fields = user_type_code_compare [OF this]
  show ?case
    using T_Udt.prems type_code_differ [OF vt T_Udt.prems] canonical_of_type(5) [OF T_Udt.prems(2)]
    by (cases "type_of u = CASS_VALUE_TYPE_UDT")
      (auto simp: compare_Cons string_code_compare length_compare let_then_compare then_compare_assoc
        udt_name_compare_def fields intro!: then_compare_cong)
qed

lemma type_compare_code:
  "inj vt \<Longrightarrow> canonical t \<Longrightarrow> canonical u \<Longrightarrow>
   php_scylladb_type_compare vt t u = php_scylladb_compare (type_code vt t) (type_code vt u)"
  using type_code_compare [of vt t u "[]" "[]"] by simp


lemma string_compare_zero: "php5to7_string_compare s t = 0 \<longleftrightarrow> s = t"
  by (auto simp: php5to7_string_compare_def)

lemma type_compare_refl: "php_scylladb_type_compare vt t t = 0"
proof (induction t)
  case (T_Tuple ts)
  have "tuple_compare vt us us = 0" if "set us \<subseteq> set ts" for us
    using that T_Tuple.IH by (induction us) (simp_all add: Let_def)
  then show ?case by simp
next
  case (T_Udt ks n fs)
  have "user_type_compare vt gs gs = 0" if "set gs \<subseteq> set fs" for gs
    using that T_Udt.IH by (induction gs) (fastforce simp: Let_def string_compare_zero snds.simps)+
  then show ?case by (simp add: udt_name_compare_def string_compare_zero Let_def split: option.split)
qed (simp_all add: Let_def)

lemma then_compare_zero: "then_compare r s = 0 \<longleftrightarrow> r = 0 \<and> s = 0"
  by (simp add: then_compare_def)

lemmas zero_simps = let_then_compare then_compare_zero length_compare string_compare_zero

lemma zero_same_type:
  "inj vt \<Longrightarrow> canonical t \<Longrightarrow> canonical u \<Longrightarrow> php_scylladb_type_compare vt t u = 0 \<Longrightarrow> type_of u = type_of t"
  using compare_types_differ [of vt t u] by metis

lemma type_compare_zero:
  assumes "inj vt" and "canonical t" and "canonical u"
  shows "php_scylladb_type_compare vt t u = 0 \<longleftrightarrow> t = u"
proof
  show "t = u" if "php_scylladb_type_compare vt t u = 0"
    using assms(2,3) that
  proof (induction t arbitrary: u)
    case (T_Scalar c)
    then show ?case using zero_same_type [OF assms(1) T_Scalar] canonical_of_type(6) [of u] by auto
  next
    case (T_List t)
    then show ?case using zero_same_type [OF assms(1) T_List.prems] canonical_of_type(1) [of u] by auto
  next
    case (T_Set t)
    then show ?case using zero_same_type [OF assms(1) T_Set.prems] canonical_of_type(2) [of u] by auto
  next
    case (T_Map k v)
    then show ?case using zero_same_type [OF assms(1) T_Map.prems] canonical_of_type(3) [of u]
      by (auto simp: zero_simps)
  next
    case (T_Tuple ts)
    have "ts' = us'" if "length ts' = length us'" "tuple_compare vt ts' us' = 0" "set ts' \<subseteq> set ts"
      "list_all canonical ts'" "list_all canonical us'" for ts' us'
      using that T_Tuple.IH by (induction ts' us' rule: list_induct2) (auto simp: zero_simps)
    then show ?case using T_Tuple.prems zero_same_type [OF assms(1) T_Tuple.prems] canonical_of_type(4) [of u]
      by (auto simp: zero_simps)
  next
    case (T_Udt ks n fs)
    have "fs' = gs'" if "length fs' = length gs'" "user_type_compare vt fs' gs' = 0" "set fs' \<subseteq> set fs"
      "list_all (\<lambda>f. canonical (snd f)) fs'" "list_all (\<lambda>f. canonical (snd f)) gs'" for fs' gs'
      using that T_Udt.IH
      by (induction fs' gs' rule: list_induct2) (fastforce simp: zero_simps snds.simps)+
    then show ?case using T_Udt.prems zero_same_type [OF assms(1) T_Udt.prems] canonical_of_type(5) [of u]
      by (auto simp: zero_simps udt_name_compare_def)
  qed simp
qed (simp add: type_compare_refl)

text \<open>
  Property C35. On types written in one way only (no \<^verbatim>\<open>text\<close>, which is an alias of
  \<^verbatim>\<open>varchar\<close>, no custom class, user types with keyspace and name) the comparison is a total
  order whose zero is equality. On all types it is not an order: with the driver's codes
  \<^verbatim>\<open>varchar\<close> equals \<^verbatim>\<open>text\<close>, which is below \<^verbatim>\<open>timestamp\<close>,
  which is below \<^verbatim>\<open>varchar\<close>; a user type without a name equals every one with
  a name; and custom types all compare equal.
\<close>

theorem type_compare_order:
  assumes "inj vt" and "canonical t" and "canonical u" and "canonical w"
  shows "(php_scylladb_type_compare vt t u = 0 \<longleftrightarrow> t = u) \<and>
    php_scylladb_type_compare vt u t = - php_scylladb_type_compare vt t u \<and>
    (php_scylladb_type_compare vt t u \<le> 0 \<longrightarrow> php_scylladb_type_compare vt u w \<le> 0 \<longrightarrow> php_scylladb_type_compare vt t w \<le> 0) \<and>
    (vt CASS_VALUE_TYPE_TEXT < vt CASS_VALUE_TYPE_TIMESTAMP \<longrightarrow> vt CASS_VALUE_TYPE_TIMESTAMP < vt CASS_VALUE_TYPE_VARCHAR \<longrightarrow>
      php_scylladb_type_compare vt (T_Scalar CASS_VALUE_TYPE_VARCHAR) (T_Scalar CASS_VALUE_TYPE_TEXT) = 0 \<and>
      php_scylladb_type_compare vt (T_Scalar CASS_VALUE_TYPE_TEXT) (T_Scalar CASS_VALUE_TYPE_TIMESTAMP) = -1 \<and>
      php_scylladb_type_compare vt (T_Scalar CASS_VALUE_TYPE_VARCHAR) (T_Scalar CASS_VALUE_TYPE_TIMESTAMP) = 1) \<and>
    php_scylladb_type_compare vt (T_Udt None None fs) (T_Udt (Some k) (Some n) fs) = 0 \<and>
    php_scylladb_type_compare vt (T_Custom c) (T_Custom d) = 0"
proof (intro conjI)
  show "php_scylladb_type_compare vt t u = 0 \<longleftrightarrow> t = u" by (rule type_compare_zero [OF assms(1-3)])
  show "php_scylladb_type_compare vt u t = - php_scylladb_type_compare vt t u"
    unfolding type_compare_code [OF assms(1,2,3)] type_compare_code [OF assms(1,3,2)]
    by (auto simp: php_scylladb_compare_def)
  show "php_scylladb_type_compare vt t u \<le> 0 \<longrightarrow> php_scylladb_type_compare vt u w \<le> 0 \<longrightarrow> php_scylladb_type_compare vt t w \<le> 0"
    unfolding type_compare_code [OF assms(1,2,3)] type_compare_code [OF assms(1,3,4)] type_compare_code [OF assms(1,2,4)]
    by (auto intro: order_trans)
  show "php_scylladb_type_compare vt (T_Udt None None fs) (T_Udt (Some k) (Some n) fs) = 0"
    using type_compare_refl [of vt "T_Udt None None fs"] by (simp add: udt_name_compare_def)
qed (auto simp: is_string_type_def)


fun cass_codes :: "cass_value_type \<Rightarrow> nat" where
  "cass_codes CASS_VALUE_TYPE_CUSTOM = 0"
| "cass_codes CASS_VALUE_TYPE_ASCII = 1"
| "cass_codes CASS_VALUE_TYPE_BIGINT = 2"
| "cass_codes CASS_VALUE_TYPE_BLOB = 3"
| "cass_codes CASS_VALUE_TYPE_BOOLEAN = 4"
| "cass_codes CASS_VALUE_TYPE_COUNTER = 5"
| "cass_codes CASS_VALUE_TYPE_DECIMAL = 6"
| "cass_codes CASS_VALUE_TYPE_DOUBLE = 7"
| "cass_codes CASS_VALUE_TYPE_FLOAT = 8"
| "cass_codes CASS_VALUE_TYPE_INT = 9"
| "cass_codes CASS_VALUE_TYPE_TEXT = 10"
| "cass_codes CASS_VALUE_TYPE_TIMESTAMP = 11"
| "cass_codes CASS_VALUE_TYPE_UUID = 12"
| "cass_codes CASS_VALUE_TYPE_VARCHAR = 13"
| "cass_codes CASS_VALUE_TYPE_VARINT = 14"
| "cass_codes CASS_VALUE_TYPE_TIMEUUID = 15"
| "cass_codes CASS_VALUE_TYPE_INET = 16"
| "cass_codes CASS_VALUE_TYPE_DATE = 17"
| "cass_codes CASS_VALUE_TYPE_TIME = 18"
| "cass_codes CASS_VALUE_TYPE_SMALL_INT = 19"
| "cass_codes CASS_VALUE_TYPE_TINY_INT = 20"
| "cass_codes CASS_VALUE_TYPE_DURATION = 21"
| "cass_codes CASS_VALUE_TYPE_LIST = 32"
| "cass_codes CASS_VALUE_TYPE_MAP = 33"
| "cass_codes CASS_VALUE_TYPE_SET = 34"
| "cass_codes CASS_VALUE_TYPE_UDT = 48"
| "cass_codes CASS_VALUE_TYPE_TUPLE = 49"

lemma cass_codes_inj: "inj cass_codes"
proof (rule injI)
  fix c d assume "cass_codes c = cass_codes d"
  then show "c = d" by (cases c; cases d; simp)
qed

theorem type_compare_order_witness:
  "php_scylladb_type_compare cass_codes (T_Tuple [T_Scalar CASS_VALUE_TYPE_INT]) (T_List (T_Scalar CASS_VALUE_TYPE_INT)) =
   - php_scylladb_type_compare cass_codes (T_List (T_Scalar CASS_VALUE_TYPE_INT)) (T_Tuple [T_Scalar CASS_VALUE_TYPE_INT])"
proof -
  have c: "canonical (T_List (T_Scalar CASS_VALUE_TYPE_INT))" "canonical (T_Tuple [T_Scalar CASS_VALUE_TYPE_INT])"
    by code_simp+
  show ?thesis using type_compare_order [OF cass_codes_inj c c(1)] by blast
qed

section \<open>Building type objects\<close>

text \<open>
  A type object as the factory builds it: a component may be an undefined zval. Exceptions are raised
  and building goes on, so a result comes with the exceptions pending at its end.
\<close>

datatype ctype =
    C_Undef
  | C_Scalar cass_value_type
  | C_Custom string
  | C_List ctype
  | C_Set ctype
  | C_Map ctype ctype
  | C_Tuple "ctype list"
  | C_Udt "string option" "string option" "(string \<times> ctype) list"

type_synonym built = "ctype \<times> exn list"

fun of_cass_type :: "cass_type \<Rightarrow> ctype" where
  "of_cass_type (T_Scalar c) = C_Scalar c"
| "of_cass_type (T_Custom s) = C_Custom s"
| "of_cass_type (T_List t) = C_List (of_cass_type t)"
| "of_cass_type (T_Set t) = C_Set (of_cass_type t)"
| "of_cass_type (T_Map k v) = C_Map (of_cass_type k) (of_cass_type v)"
| "of_cass_type (T_Tuple ts) = C_Tuple (map of_cass_type ts)"
| "of_cass_type (T_Udt ks n fs) = C_Udt ks n (map (\<lambda>(m, t). (m, of_cass_type t)) fs)"

lemma of_cass_type_defined [simp]: "of_cass_type t \<noteq> C_Undef"
  by (cases t) auto

definition php_scylladb_type_scalar :: "cass_value_type \<Rightarrow> built" where
  "php_scylladb_type_scalar c =
     (if scalar_name c \<noteq> None then (C_Scalar c, []) else (C_Undef, [Exn InvalidArgumentException ''Invalid type'']))"

text \<open>\<open>custom\<close> says whether the extension is built with \<^verbatim>\<open>PHP_SCYLLADB_HAVE_CUSTOM_TYPE\<close>.\<close>

definition php_scylladb_type_custom :: "bool \<Rightarrow> string \<Rightarrow> built" where
  "php_scylladb_type_custom custom name =
     (if custom then (C_Custom name, []) else (C_Undef, [Exn DomainException ''Column type is a custom type'']))"

definition php_scylladb_type_collection :: "built \<Rightarrow> built" where
  "php_scylladb_type_collection v = (C_List (fst v), snd v)"

definition php_scylladb_type_set :: "built \<Rightarrow> built" where
  "php_scylladb_type_set v = (C_Set (fst v), snd v)"

definition php_scylladb_type_map :: "built \<Rightarrow> built \<Rightarrow> built" where
  "php_scylladb_type_map k v = (C_Map (fst k) (fst v), snd k @ snd v)"

definition php_scylladb_type_collection_from_value_type :: "cass_value_type \<Rightarrow> built outcome" where
  "php_scylladb_type_collection_from_value_type c =
     (if fst (php_scylladb_type_scalar c) = C_Undef then UB
      else Ret (php_scylladb_type_collection (php_scylladb_type_scalar c)))"

definition php_scylladb_type_set_from_value_type :: "cass_value_type \<Rightarrow> built outcome" where
  "php_scylladb_type_set_from_value_type c =
     (if fst (php_scylladb_type_scalar c) = C_Undef then UB
      else Ret (php_scylladb_type_set (php_scylladb_type_scalar c)))"

definition php_scylladb_type_map_from_value_types :: "cass_value_type \<Rightarrow> cass_value_type \<Rightarrow> built outcome" where
  "php_scylladb_type_map_from_value_types k v =
     (if fst (php_scylladb_type_scalar k) = C_Undef \<or> fst (php_scylladb_type_scalar v) = C_Undef then UB
      else Ret (php_scylladb_type_map (php_scylladb_type_scalar k) (php_scylladb_type_scalar v)))"

text \<open>
  Adding a component reads the component's type object: an undefined zval is a null dereference. A
  field that exists already is kept. \<open>add_ok\<close> is the result of the C driver's
  \<^verbatim>\<open>cass_data_type_add_sub_type\<close>.
\<close>

definition php_scylladb_type_tuple_add :: "(ctype \<Rightarrow> bool) \<Rightarrow> ctype list \<Rightarrow> ctype \<Rightarrow> (ctype list \<times> bool) outcome" where
  "php_scylladb_type_tuple_add add_ok ts t =
     (if t = C_Undef then UB else if \<not> add_ok t then Ret (ts, False) else Ret (ts @ [t], True))"

definition php_scylladb_type_user_type_add ::
    "(ctype \<Rightarrow> bool) \<Rightarrow> (string \<times> ctype) list \<Rightarrow> string option \<Rightarrow> ctype \<Rightarrow> ((string \<times> ctype) list \<times> bool) outcome" where
  "php_scylladb_type_user_type_add add_ok fs name t =
     (case name of
        None \<Rightarrow> UB
      | Some n \<Rightarrow>
          if t = C_Undef then UB
          else if \<not> add_ok t then Ret (fs, False)
          else Ret (if n \<in> fst ` set fs then fs else fs @ [(n, t)], True))"

section \<open>From the driver's data types\<close>

text \<open>
  The accessors of \<^verbatim>\<open>CassDataType\<close>. A type code outside the enumeration
  (\<^verbatim>\<open>UNKNOWN\<close>, \<^verbatim>\<open>LAST_ENTRY\<close>) is \<open>None\<close>.
\<close>

record 'd data_type_api =
  dt_type :: "'d \<Rightarrow> cass_value_type option"
  dt_class_name :: "'d \<Rightarrow> string"
  dt_type_name :: "'d \<Rightarrow> string"
  dt_keyspace :: "'d \<Rightarrow> string"
  dt_sub_count :: "'d \<Rightarrow> nat"
  dt_sub :: "'d \<Rightarrow> nat \<Rightarrow> 'd"
  dt_sub_name :: "'d \<Rightarrow> nat \<Rightarrow> string"

text \<open>
  The recursion follows the driver's objects; \<open>n\<close> bounds its depth and \<open>None\<close> means it was too small.
\<close>

type_synonym built_result = "built outcome option"

definition bind_built :: "built_result \<Rightarrow> (built \<Rightarrow> built_result) \<Rightarrow> built_result" where
  "bind_built r f = (case r of Some (Ret b) \<Rightarrow> f b | Some UB \<Rightarrow> Some UB | Some (Throw e) \<Rightarrow> Some (Throw e) | None \<Rightarrow> None)"

fun php_scylladb_tuple_from_data_type ::
    "(ctype \<Rightarrow> bool) \<Rightarrow> ('d \<Rightarrow> built_result) \<Rightarrow> 'd list \<Rightarrow> ctype list \<Rightarrow> exn list \<Rightarrow> built_result" where
  "php_scylladb_tuple_from_data_type add_ok f [] ts es = Some (Ret (C_Tuple ts, es))"
| "php_scylladb_tuple_from_data_type add_ok f (d # ds) ts es =
     bind_built (f d) (\<lambda>(t, es').
       case php_scylladb_type_tuple_add add_ok ts t of
         Ret (ts', _) \<Rightarrow> php_scylladb_tuple_from_data_type add_ok f ds ts' (es @ es')
       | _ \<Rightarrow> Some UB)"

fun php_scylladb_user_type_from_data_type ::
    "(ctype \<Rightarrow> bool) \<Rightarrow> ('d \<Rightarrow> built_result) \<Rightarrow> string \<Rightarrow> string \<Rightarrow> (string \<times> 'd) list \<Rightarrow> (string \<times> ctype) list \<Rightarrow>
     exn list \<Rightarrow> built_result" where
  "php_scylladb_user_type_from_data_type add_ok f ks n [] fs es = Some (Ret (C_Udt (Some ks) (Some n) fs, es))"
| "php_scylladb_user_type_from_data_type add_ok f ks n ((m, d) # ds) fs es =
     bind_built (f d) (\<lambda>(t, es').
       case php_scylladb_type_user_type_add add_ok fs (Some m) t of
         Ret (fs', _) \<Rightarrow> php_scylladb_user_type_from_data_type add_ok f ks n ds fs' (es @ es')
       | _ \<Rightarrow> Some UB)"

fun php_scylladb_type_from_data_type ::
    "'d data_type_api \<Rightarrow> bool \<Rightarrow> (ctype \<Rightarrow> bool) \<Rightarrow> nat \<Rightarrow> 'd \<Rightarrow> built_result" where
  "php_scylladb_type_from_data_type A custom add_ok 0 d = None"
| "php_scylladb_type_from_data_type A custom add_ok (Suc n) d =
     (let sub = (\<lambda>i. php_scylladb_type_from_data_type A custom add_ok n (dt_sub A d i)) in
      case dt_type A d of
        None \<Rightarrow> Some (Ret (C_Undef, []))
      | Some c \<Rightarrow>
          if scalar_name c \<noteq> None then Some (Ret (php_scylladb_type_scalar c))
          else if c = CASS_VALUE_TYPE_CUSTOM then Some (Ret (php_scylladb_type_custom custom (dt_class_name A d)))
          else if c = CASS_VALUE_TYPE_LIST then bind_built (sub 0) (\<lambda>v. Some (Ret (php_scylladb_type_collection v)))
          else if c = CASS_VALUE_TYPE_MAP then
            bind_built (sub 0) (\<lambda>k. bind_built (sub 1) (\<lambda>v. Some (Ret (php_scylladb_type_map k v))))
          else if c = CASS_VALUE_TYPE_SET then bind_built (sub 0) (\<lambda>v. Some (Ret (php_scylladb_type_set v)))
          else if c = CASS_VALUE_TYPE_TUPLE then
            php_scylladb_tuple_from_data_type add_ok (\<lambda>x. php_scylladb_type_from_data_type A custom add_ok n x)
              (map (dt_sub A d) [0..<dt_sub_count A d]) [] []
          else
            php_scylladb_user_type_from_data_type add_ok (\<lambda>x. php_scylladb_type_from_data_type A custom add_ok n x)
              (dt_keyspace A d) (dt_type_name A d)
              (map (\<lambda>i. (dt_sub_name A d i, dt_sub A d i)) [0..<dt_sub_count A d]) [] [])"

text \<open>The data type \<open>d\<close> describes \<open>t\<close>; the names of a user type's fields are distinct.\<close>

fun describes :: "'d data_type_api \<Rightarrow> 'd \<Rightarrow> cass_type \<Rightarrow> bool" where
  "describes A d (T_Scalar c) \<longleftrightarrow> dt_type A d = Some c \<and> scalar_name c \<noteq> None"
| "describes A d (T_Custom s) \<longleftrightarrow> dt_type A d = Some CASS_VALUE_TYPE_CUSTOM \<and> dt_class_name A d = s"
| "describes A d (T_List t) \<longleftrightarrow> dt_type A d = Some CASS_VALUE_TYPE_LIST \<and> describes A (dt_sub A d 0) t"
| "describes A d (T_Set t) \<longleftrightarrow> dt_type A d = Some CASS_VALUE_TYPE_SET \<and> describes A (dt_sub A d 0) t"
| "describes A d (T_Map k v) \<longleftrightarrow> dt_type A d = Some CASS_VALUE_TYPE_MAP \<and> describes A (dt_sub A d 0) k \<and>
     describes A (dt_sub A d 1) v"
| "describes A d (T_Tuple ts) \<longleftrightarrow> dt_type A d = Some CASS_VALUE_TYPE_TUPLE \<and>
     list_all2 (describes A) (map (dt_sub A d) [0..<dt_sub_count A d]) ts"
| "describes A d (T_Udt ks n fs) \<longleftrightarrow> dt_type A d = Some CASS_VALUE_TYPE_UDT \<and> ks = Some (dt_keyspace A d) \<and>
     n = Some (dt_type_name A d) \<and> distinct (map fst fs) \<and> map fst fs = map (dt_sub_name A d) [0..<dt_sub_count A d] \<and>
     list_all2 (\<lambda>x f. describes A x (snd f)) (map (dt_sub A d) [0..<dt_sub_count A d]) fs"


fun no_custom :: "cass_type \<Rightarrow> bool" where
  "no_custom (T_Custom _) = False"
| "no_custom (T_List t) = no_custom t"
| "no_custom (T_Set t) = no_custom t"
| "no_custom (T_Map k v) = (no_custom k \<and> no_custom v)"
| "no_custom (T_Tuple ts) = list_all no_custom ts"
| "no_custom (T_Udt _ _ fs) = list_all (\<lambda>f. no_custom (snd f)) fs"
| "no_custom (T_Scalar _) = True"

lemma bind_built_Ret [simp]: "bind_built (Some (Ret b)) f = f b"
  by (simp add: bind_built_def)

lemma tuple_loop_complete:
  assumes "\<And>t. add_ok t" and "list_all2 (\<lambda>d t. f d = Some (Ret (of_cass_type t, []))) ds ts"
  shows "php_scylladb_tuple_from_data_type add_ok f ds us es = Some (Ret (C_Tuple (us @ map of_cass_type ts), es))"
  using assms(2)
  by (induction ds ts arbitrary: us rule: list_all2_induct) (simp_all add: php_scylladb_type_tuple_add_def assms(1))

lemma user_type_loop_complete:
  assumes "\<And>t. add_ok t" and "list_all2 (\<lambda>x g. fst x = fst g \<and> f (snd x) = Some (Ret (of_cass_type (snd g), []))) ds gs"
    and "distinct (map fst gs)" and "fst ` set us \<inter> fst ` set gs = {}"
  shows "php_scylladb_user_type_from_data_type add_ok f ks n ds us es =
    Some (Ret (C_Udt (Some ks) (Some n) (us @ map (\<lambda>(m, t). (m, of_cass_type t)) gs), es))"
  using assms(2-)
proof (induction ds gs arbitrary: us rule: list_all2_induct)
  case (Cons x xs g gs)
  obtain m d t where x: "x = (m, d)" "g = (m, t)" using Cons(1) by (cases x; cases g) auto
  then show ?case
    using Cons Cons.IH [of "us @ [(m, of_cass_type t)]"]
    by (simp add: php_scylladb_type_user_type_add_def assms(1))
qed simp

lemma from_data_type_describes:
  assumes ok: "\<And>t. add_ok t"
  shows "describes A d t \<Longrightarrow> no_custom t \<or> custom \<Longrightarrow> size t < n \<Longrightarrow>
    php_scylladb_type_from_data_type A custom add_ok n d = Some (Ret (of_cass_type t, []))"
proof (induction t arbitrary: d n)
  case (T_Tuple ts)
  obtain m where n: "n = Suc m" using T_Tuple.prems(3) by (cases n) auto
  have "list_all2 (\<lambda>d t. php_scylladb_type_from_data_type A custom add_ok m d = Some (Ret (of_cass_type t, [])))
      (map (dt_sub A d) [0..<dt_sub_count A d]) ts"
  proof (rule list.rel_mono_strong)
    show "list_all2 (describes A) (map (dt_sub A d) [0..<dt_sub_count A d]) ts" using T_Tuple.prems(1) by simp
    fix x t assume t: "t \<in> set ts" "describes A x t"
    have "size t < m" using size_list_estimation' [OF t(1), of "size t" size] T_Tuple.prems(3) n by simp
    then show "php_scylladb_type_from_data_type A custom add_ok m x = Some (Ret (of_cass_type t, []))"
      using T_Tuple.IH [OF t(1)] t T_Tuple.prems(2) by (auto simp: list_all_iff)
  qed
  from tuple_loop_complete [of add_ok, OF ok this] show ?case using T_Tuple.prems(1) by (simp add: n)
next
  case (T_Udt ks k fs)
  obtain m where n: "n = Suc m" using T_Udt.prems(3) by (cases n) auto
  let ?c = "dt_sub_count A d"
  have len: "length fs = ?c" using T_Udt.prems(1) by (auto dest: list_all2_lengthD)
  have "list_all2 (\<lambda>x g. fst x = fst g \<and> php_scylladb_type_from_data_type A custom add_ok m (snd x) = Some (Ret (of_cass_type (snd g), [])))
      (map (\<lambda>i. (dt_sub_name A d i, dt_sub A d i)) [0..<?c]) fs"
  proof (rule list_all2_all_nthI)
    fix i assume "i < length (map (\<lambda>i. (dt_sub_name A d i, dt_sub A d i)) [0..<?c])"
    then have i: "i < ?c" by simp
    have f: "fs ! i \<in> set fs" using i len by simp
    have "map fst fs ! i = map (dt_sub_name A d) [0..<?c] ! i" using T_Udt.prems(1) by simp
    then have "fst (fs ! i) = dt_sub_name A d i" using i len by simp
    moreover have "describes A (dt_sub A d i) (snd (fs ! i))"
      using T_Udt.prems(1) i by (auto dest: list_all2_nthD)
    moreover have "size_prod (\<lambda>x. 0) size = (\<lambda>x :: string \<times> cass_type. Suc (size (snd x)))" by (auto simp: fun_eq_iff)
    then have "size (snd (fs ! i)) < m"
      using size_list_estimation' [OF f, of "size (snd (fs ! i))" "\<lambda>x. Suc (size (snd x))"] T_Udt.prems(3) n
      by simp
    moreover have "no_custom (snd (fs ! i)) \<or> custom" using T_Udt.prems(2) f by (auto simp: list_all_iff)
    ultimately show "fst (map (\<lambda>i. (dt_sub_name A d i, dt_sub A d i)) [0..<?c] ! i) = fst (fs ! i) \<and>
        php_scylladb_type_from_data_type A custom add_ok m (snd (map (\<lambda>i. (dt_sub_name A d i, dt_sub A d i)) [0..<?c] ! i)) =
        Some (Ret (of_cass_type (snd (fs ! i)), []))"
      using T_Udt.IH [OF f] i by (simp add: snds.simps)
  qed (use len in simp)
  note fields = this
  have "distinct (map fst fs)" using T_Udt.prems(1) unfolding describes.simps by blast
  from user_type_loop_complete [of add_ok, OF ok fields this, of "[]"] show ?case using T_Udt.prems(1) by (simp add: n)
next
  case (T_Scalar c)
  then show ?case by (cases n) (auto simp: php_scylladb_type_scalar_def)
next
  case (T_Custom s)
  then show ?case by (cases n) (auto simp: php_scylladb_type_custom_def)
next
  case (T_List t)
  then show ?case by (cases n) (auto simp: php_scylladb_type_collection_def)
next
  case (T_Set t)
  then show ?case by (cases n) (auto simp: php_scylladb_type_set_def)
next
  case (T_Map k v)
  then show ?case by (cases n) (auto simp: php_scylladb_type_map_def)
qed


text \<open>
  Property C36. \<^verbatim>\<open>php_scylladb_type_from_data_type\<close> rebuilds the described type, with no
  exception pending, for every type, to any depth (fuel beyond the size of the type suffices). In
  a build without custom types a tuple with a custom component is a null dereference: the component is
  an undefined zval, and \<^verbatim>\<open>php_scylladb_type_tuple_add\<close> reads its type object.
\<close>

theorem from_data_type_exact:
  assumes "\<And>t. add_ok t"
  shows "(describes A d t \<longrightarrow> no_custom t \<or> custom \<longrightarrow> size t < n \<longrightarrow>
      php_scylladb_type_from_data_type A custom add_ok n d = Some (Ret (of_cass_type t, []))) \<and>
    (describes A d (T_Tuple (T_Custom s # ts)) \<longrightarrow>
      php_scylladb_type_from_data_type A False add_ok (Suc (Suc n)) d = Some UB)"
proof (intro conjI impI)
  assume "describes A d t" "no_custom t \<or> custom" "size t < n"
  then show "php_scylladb_type_from_data_type A custom add_ok n d = Some (Ret (of_cass_type t, []))"
    by (intro from_data_type_describes assms)
next
  assume d: "describes A d (T_Tuple (T_Custom s # ts))"
  then obtain c where c: "dt_sub_count A d = Suc c" by (cases "dt_sub_count A d") auto
  have "map (dt_sub A d) [0..<Suc c] = dt_sub A d 0 # map (dt_sub A d) [1..<Suc c]"
    by (simp add: upt_conv_Cons del: upt_Suc)
  then show "php_scylladb_type_from_data_type A False add_ok (Suc (Suc n)) d = Some UB"
    using d by (simp add: c php_scylladb_type_custom_def php_scylladb_type_tuple_add_def del: upt_Suc)
qed

definition example_api :: "cass_type data_type_api" where
  "example_api = \<lparr>dt_type = (\<lambda>t. Some (type_of t)), dt_class_name = (\<lambda>t. case t of T_Custom s \<Rightarrow> s | _ \<Rightarrow> []),
    dt_type_name = (\<lambda>_. []), dt_keyspace = (\<lambda>_. []),
    dt_sub_count = (\<lambda>t. case t of T_Tuple ts \<Rightarrow> length ts | _ \<Rightarrow> 1),
    dt_sub = (\<lambda>t i. case t of T_List u \<Rightarrow> u | T_Tuple ts \<Rightarrow> ts ! i | _ \<Rightarrow> t), dt_sub_name = (\<lambda>_ _. [])\<rparr>"

theorem from_data_type_exact_witness:
  "php_scylladb_type_from_data_type example_api False (\<lambda>_. True) 9 (T_List (T_Scalar CASS_VALUE_TYPE_INT)) =
     Some (Ret (C_List (C_Scalar CASS_VALUE_TYPE_INT), [])) \<and>
   php_scylladb_type_from_data_type example_api False (\<lambda>_. True) 2 (T_Tuple [T_Custom ''X'']) = Some UB"
proof -
  have "scalar_name CASS_VALUE_TYPE_INT \<noteq> None" by code_simp
  then have "describes example_api (T_List (T_Scalar CASS_VALUE_TYPE_INT)) (T_List (T_Scalar CASS_VALUE_TYPE_INT))"
    "describes example_api (T_Tuple [T_Custom ''X'']) (T_Tuple [T_Custom ''X''])"
    by (simp_all add: example_api_def)
  then show ?thesis
    using from_data_type_exact [of "\<lambda>_. True" example_api "T_List (T_Scalar CASS_VALUE_TYPE_INT)" "T_List (T_Scalar CASS_VALUE_TYPE_INT)" False 9]
      from_data_type_exact [of "\<lambda>_. True" example_api "T_Tuple [T_Custom ''X'']" undefined False 0 "''X''" "[]"]
    by (simp add: numeral_2_eq_2)
qed

section \<open>The methods of \<^verbatim>\<open>Cassandra\Type\<close>\<close>

text \<open>
  Only objects have a class to test: on any other zval \<^verbatim>\<open>Z_OBJCE_P\<close> follows a pointer that is
  not there. The custom class is not among the accepted ones.
\<close>

definition is_object :: "zval \<Rightarrow> bool" where
  "is_object z = (case z of ZNull \<Rightarrow> False | ZFalse \<Rightarrow> False | ZTrue \<Rightarrow> False | ZLong _ \<Rightarrow> False
     | ZDouble _ \<Rightarrow> False | ZString _ \<Rightarrow> False | ZArray _ \<Rightarrow> False | _ \<Rightarrow> True)"

definition php_scylladb_type_validate :: "zval \<Rightarrow> cass_type outcome" where
  "php_scylladb_type_validate z =
     (if \<not> is_object z then UB
      else case z of
          ZType (T_Custom _) \<Rightarrow> Throw (Exn InvalidArgumentException ''must be a valid Type'')
        | ZType t \<Rightarrow> Ret t
        | _ \<Rightarrow> Throw (Exn InvalidArgumentException ''must be a valid Type''))"

text \<open>\<^verbatim>\<open>Z_PARAM_OBJECT_OF_CLASS\<close>: anything but a type object is a TypeError.\<close>

definition param_type :: "zval \<Rightarrow> zval outcome" where
  "param_type z = (case z of ZType _ \<Rightarrow> Ret z | _ \<Rightarrow> Throw (Exn TypeError ''must be of type Type''))"

definition type_collection :: "zval \<Rightarrow> cass_type outcome" where
  "type_collection z = bind_outcome (param_type z) (\<lambda>z. bind_outcome (php_scylladb_type_validate z) (\<lambda>t. Ret (T_List t)))"

definition type_set :: "zval \<Rightarrow> cass_type outcome" where
  "type_set z = bind_outcome (param_type z) (\<lambda>z. bind_outcome (php_scylladb_type_validate z) (\<lambda>t. Ret (T_Set t)))"

definition type_map :: "zval \<Rightarrow> zval \<Rightarrow> cass_type outcome" where
  "type_map k v =
     bind_outcome (param_type k) (\<lambda>k. bind_outcome (param_type v) (\<lambda>v.
     bind_outcome (php_scylladb_type_validate k) (\<lambda>kt. bind_outcome (php_scylladb_type_validate v) (\<lambda>vt.
     Ret (T_Map kt vt)))))"

fun validate_types :: "zval list \<Rightarrow> cass_type list outcome" where
  "validate_types [] = Ret []"
| "validate_types (z # zs) =
     bind_outcome (php_scylladb_type_validate z) (\<lambda>t. bind_outcome (validate_types zs) (\<lambda>ts. Ret (t # ts)))"

text \<open>\<^verbatim>\<open>Type::tuple\<close>: all arguments are validated before the first is added; adding stops at the first refusal.\<close>

definition type_tuple :: "(cass_type \<Rightarrow> bool) \<Rightarrow> zval list \<Rightarrow> cass_type outcome" where
  "type_tuple add_ok args = bind_outcome (validate_types args) (\<lambda>ts. Ret (T_Tuple (takeWhile add_ok ts)))"

fun validate_fields :: "zval list \<Rightarrow> (string \<times> cass_type) list outcome" where
  "validate_fields (n # z # zs) =
     (case n of
        ZString s \<Rightarrow>
          bind_outcome (php_scylladb_type_validate z) (\<lambda>t. bind_outcome (validate_fields zs) (\<lambda>fs. Ret ((s, t) # fs)))
      | _ \<Rightarrow> Throw (Exn InvalidArgumentException ''Argument is not a string''))"
| "validate_fields _ = Ret []"

fun add_fields :: "(cass_type \<Rightarrow> bool) \<Rightarrow> (string \<times> cass_type) list \<Rightarrow> (string \<times> cass_type) list \<Rightarrow> (string \<times> cass_type) list" where
  "add_fields add_ok acc [] = acc"
| "add_fields add_ok acc ((n, t) # fs) =
     (if add_ok t then add_fields add_ok (if n \<in> fst ` set acc then acc else acc @ [(n, t)]) fs else acc)"

definition type_userType :: "(cass_type \<Rightarrow> bool) \<Rightarrow> zval list \<Rightarrow> cass_type outcome" where
  "type_userType add_ok args =
     (if odd (length args) then Throw (Exn InvalidArgumentException ''Not enough name/type pairs'')
      else bind_outcome (validate_fields args) (\<lambda>fs. Ret (T_Udt None None (add_fields add_ok [] fs))))"

definition user_type_withName :: "string \<Rightarrow> cass_type \<Rightarrow> cass_type" where
  "user_type_withName name t = (case t of T_Udt ks _ fs \<Rightarrow> T_Udt ks (Some name) fs | _ \<Rightarrow> t)"

definition user_type_withKeyspace :: "string \<Rightarrow> cass_type \<Rightarrow> cass_type" where
  "user_type_withKeyspace ks t = (case t of T_Udt _ n fs \<Rightarrow> T_Udt (Some ks) n fs | _ \<Rightarrow> t)"

text \<open>
  The comparison handlers of the type classes fetch a type struct from both operands without looking at
  their classes; \<open>fallback\<close> is the engine's comparison with a value that is no object.
\<close>

definition type_object_compare :: "(zval \<Rightarrow> int) \<Rightarrow> (cass_value_type \<Rightarrow> nat) \<Rightarrow> cass_type \<Rightarrow> zval \<Rightarrow> int outcome" where
  "type_object_compare fallback vt t z =
     (if \<not> is_object z then Ret (fallback z)
      else case z of ZType u \<Rightarrow> Ret (php_scylladb_type_compare vt t u) | _ \<Rightarrow> UB)"

end
