(* ===== verification/ClassName.thy ===== *)
theory ClassName
  imports Types
begin

text \<open>
  The second half of \<^verbatim>\<open>src/Type/TypeFactory.c\<close>: the parser of Cassandra class names
  (\<^verbatim>\<open>org.apache.cassandra.db.marshal.ListType(...)\<close>) and the construction of a type from
  the tree it builds. The parser links nodes with parent and sibling pointers while it reads; the model
  keeps the tree with a cursor: the node under construction and, for each ancestor, its name and the
  finished siblings to the left. A finished node pointer is the list of the node and its following
  siblings, with the empty list for null.
\<close>

section \<open>Tokens\<close>

datatype describe_token_type =
  TOKEN_ILLEGAL | TOKEN_PAREN_OPEN | TOKEN_PAREN_CLOSE | TOKEN_COMMA | TOKEN_COLON | TOKEN_NAME | TOKEN_END

text \<open>The source's fourth state, \<^verbatim>\<open>STATE_END\<close>, is never entered.\<close>

datatype types_parser_state = STATE_CLASS | STATE_AFTER_CLASS | STATE_AFTER_PARENS

definition describe_token :: "describe_token_type \<Rightarrow> string" where
  "describe_token t =
     (case t of TOKEN_ILLEGAL \<Rightarrow> ''illegal character'' | TOKEN_PAREN_OPEN \<Rightarrow> ''opening parenthesis''
      | TOKEN_PAREN_CLOSE \<Rightarrow> ''closing parenthesis'' | TOKEN_COMMA \<Rightarrow> ''comma'' | TOKEN_COLON \<Rightarrow> ''colon''
      | TOKEN_NAME \<Rightarrow> ''alphanumeric character'' | TOKEN_END \<Rightarrow> ''end of string'')"

definition isletter :: "char \<Rightarrow> bool" where
  "isletter ch \<longleftrightarrow> c_isalnum ch \<or> ch = CHR ''.''"

text \<open>The token at the start of the text, its characters and the text behind it.\<close>

definition next_token :: "string \<Rightarrow> describe_token_type \<times> string \<times> string" where
  "next_token str =
     (case str of
        [] \<Rightarrow> (TOKEN_END, [], [])
      | c # cs \<Rightarrow>
          if c_isalnum c then (TOKEN_NAME, takeWhile isletter str, dropWhile isletter str)
          else if c = NUL then (TOKEN_END, [], str)
          else if c = CHR ''('' then (TOKEN_PAREN_OPEN, [c], cs)
          else if c = CHR '')'' then (TOKEN_PAREN_CLOSE, [c], cs)
          else if c = CHR '','' then (TOKEN_COMMA, [c], cs)
          else if c = CHR '':'' then (TOKEN_COLON, [c], cs)
          else (TOKEN_ILLEGAL, [], str))"

section \<open>The parser\<close>

datatype node = Node (node_name: string) (node_children: "node list")

record cn_st =
  cn_state :: types_parser_state
  cn_rest :: string
  cn_name :: string
  cn_children :: "node list"
  cn_path :: "(string \<times> node list) list"
  cn_null :: bool

datatype 'a cn_flow = Cn_Continue 'a | Cn_Break 'a | Cn_Fail exn | Cn_UB

definition expecting_token :: "describe_token_type \<Rightarrow> string \<Rightarrow> 'a cn_flow" where
  "expecting_token t what = Cn_Fail (Exn InvalidArgumentException (''Unexpected '' @ describe_token t @ '', expected '' @ what))"

text \<open>A new sibling to the right of the cursor, a new child under it, and the way up.\<close>

definition cn_sibling :: "cn_st \<Rightarrow> cn_st cn_flow" where
  "cn_sibling \<sigma> =
     (case cn_path \<sigma> of
        [] \<Rightarrow> Cn_UB
      | (pn, ls) # up \<Rightarrow>
          Cn_Continue (\<sigma>\<lparr>cn_state := STATE_CLASS, cn_path := (pn, ls @ [Node (cn_name \<sigma>) (cn_children \<sigma>)]) # up,
            cn_name := [], cn_children := []\<rparr>))"

definition cn_child :: "cn_st \<Rightarrow> cn_st cn_flow" where
  "cn_child \<sigma> =
     Cn_Continue (\<sigma>\<lparr>cn_state := STATE_CLASS, cn_path := (cn_name \<sigma>, cn_children \<sigma>) # cn_path \<sigma>,
       cn_name := [], cn_children := []\<rparr>)"

definition cn_up :: "cn_st \<Rightarrow> cn_st" where
  "cn_up \<sigma> =
     (case cn_path \<sigma> of
        [] \<Rightarrow> \<sigma>\<lparr>cn_null := True\<rparr>
      | (pn, ls) # up \<Rightarrow>
          \<sigma>\<lparr>cn_path := up, cn_name := pn, cn_children := ls @ [Node (cn_name \<sigma>) (cn_children \<sigma>)]\<rparr>)"

definition cn_after_parens :: "describe_token_type \<Rightarrow> cn_st \<Rightarrow> cn_st cn_flow" where
  "cn_after_parens t \<sigma> =
     (if t = TOKEN_COMMA then
        if cn_null \<sigma> then Cn_UB
        else if cn_path \<sigma> = [] then expecting_token t ''end of string''
        else cn_sibling \<sigma>
      else if t = TOKEN_PAREN_CLOSE then
        if cn_null \<sigma> then Cn_UB
        else if cn_path \<sigma> = [] then expecting_token t ''end of string''
        else Cn_Continue (cn_up \<sigma>)
      else if t = TOKEN_END then Cn_Break \<sigma>
      else expecting_token t ''a comma, a closing parenthesis or an end of string'')"

definition cn_after_class :: "describe_token_type \<Rightarrow> cn_st \<Rightarrow> cn_st cn_flow" where
  "cn_after_class t \<sigma> =
     (if t = TOKEN_PAREN_OPEN then cn_child \<sigma>
      else if t = TOKEN_COMMA \<or> t = TOKEN_COLON then cn_sibling \<sigma>
      else if t = TOKEN_PAREN_CLOSE then Cn_Continue (cn_up (\<sigma>\<lparr>cn_state := STATE_AFTER_PARENS\<rparr>))
      else if t = TOKEN_END then Cn_Break \<sigma>
      else expecting_token t ''opening/closing parenthesis or comma'')"

definition cn_class :: "describe_token_type \<Rightarrow> string \<Rightarrow> cn_st \<Rightarrow> cn_st cn_flow" where
  "cn_class t token \<sigma> =
     (if t \<noteq> TOKEN_NAME then expecting_token t ''fully qualified class name''
      else Cn_Continue (\<sigma>\<lparr>cn_state := STATE_AFTER_CLASS, cn_name := token\<rparr>))"

definition cn_step :: "cn_st \<Rightarrow> cn_st cn_flow" where
  "cn_step \<sigma> =
     (let (t, token, rest) = next_token (cn_rest \<sigma>); \<sigma>' = \<sigma>\<lparr>cn_rest := rest\<rparr> in
      if t = TOKEN_ILLEGAL then Cn_Fail (Exn InvalidArgumentException ''Illegal character'')
      else case cn_state \<sigma> of
          STATE_AFTER_PARENS \<Rightarrow> cn_after_parens t \<sigma>'
        | STATE_AFTER_CLASS \<Rightarrow> cn_after_class t \<sigma>'
        | STATE_CLASS \<Rightarrow> cn_class t token \<sigma>')"

text \<open>Every token that lets the loop go on takes characters off the text.\<close>

lemma next_token_rest:
  "next_token s = (t, token, rest) \<Longrightarrow> t \<noteq> TOKEN_END \<Longrightarrow> t \<noteq> TOKEN_ILLEGAL \<Longrightarrow> length rest < length s"
proof (cases s)
  case (Cons c cs)
  have "length (dropWhile isletter s) < length s" if "c_isalnum c"
    using that Cons length_dropWhile_le [of isletter cs] by (simp add: isletter_def)
  then show "next_token s = (t, token, rest) \<Longrightarrow> t \<noteq> TOKEN_END \<Longrightarrow> t \<noteq> TOKEN_ILLEGAL \<Longrightarrow> length rest < length s"
    using Cons by (auto simp: next_token_def split: if_splits)
qed (simp add: next_token_def)

lemmas cn_defs = cn_step_def cn_after_parens_def cn_after_class_def cn_class_def cn_sibling_def cn_child_def
  cn_up_def expecting_token_def

lemma cn_step_rest:
  assumes "cn_step \<sigma> = Cn_Continue \<sigma>'"
  shows "length (cn_rest \<sigma>') < length (cn_rest \<sigma>)"
proof -
  obtain t token rest where n: "next_token (cn_rest \<sigma>) = (t, token, rest)" by (cases "next_token (cn_rest \<sigma>)") auto
  have "t \<noteq> TOKEN_END" "t \<noteq> TOKEN_ILLEGAL" "cn_rest \<sigma>' = rest"
    using assms n
    by (cases "cn_state \<sigma>"; auto simp: cn_defs Let_def split: if_splits list.splits prod.splits)+
  then show ?thesis using next_token_rest [OF n] by simp
qed

function cn_run :: "cn_st \<Rightarrow> cn_st cn_flow" where
  "cn_run \<sigma> = (case cn_step \<sigma> of Cn_Continue \<sigma>' \<Rightarrow> cn_run \<sigma>' | r \<Rightarrow> r)"
  by pat_completeness auto
termination by (relation "measure (\<lambda>\<sigma>. length (cn_rest \<sigma>))") (auto dest: cn_step_rest)

declare cn_run.simps [simp del]

text \<open>The root, whatever the cursor's depth: parentheses left open are closed.\<close>

fun cn_root :: "string \<Rightarrow> node list \<Rightarrow> (string \<times> node list) list \<Rightarrow> node" where
  "cn_root n cs [] = Node n cs"
| "cn_root n cs ((pn, ls) # up) = cn_root pn (ls @ [Node n cs]) up"

definition php_scylladb_parse_class_name :: "string \<Rightarrow> node outcome" where
  "php_scylladb_parse_class_name validator =
     (case cn_run \<lparr>cn_state = STATE_CLASS, cn_rest = validator, cn_name = [], cn_children = [], cn_path = [], cn_null = False\<rparr> of
        Cn_Break \<sigma> \<Rightarrow> Ret (cn_root (cn_name \<sigma>) (cn_children \<sigma>) (cn_path \<sigma>))
      | Cn_Fail e \<Rightarrow> Throw e
      | _ \<Rightarrow> UB)"

section \<open>From nodes to types\<close>

text \<open>\<^verbatim>\<open>strncmp(constant, name, name_length) == 0\<close>: the name is a prefix of the constant.\<close>

definition name_is :: "string \<Rightarrow> string \<Rightarrow> bool" where
  "name_is constant name \<longleftrightarrow> take (length name) constant = name"

definition marshal :: "string \<Rightarrow> string" where
  "marshal s = ''org.apache.cassandra.db.marshal.'' @ s"

definition lookup_table :: "(string \<times> cass_value_type) list" where
  "lookup_table =
     [(''AsciiType'', CASS_VALUE_TYPE_ASCII), (''LongType'', CASS_VALUE_TYPE_BIGINT),
      (''ShortType'', CASS_VALUE_TYPE_SMALL_INT), (''ByteType'', CASS_VALUE_TYPE_TINY_INT),
      (''BytesType'', CASS_VALUE_TYPE_BLOB), (''BooleanType'', CASS_VALUE_TYPE_BOOLEAN),
      (''CounterColumnType'', CASS_VALUE_TYPE_COUNTER), (''DecimalType'', CASS_VALUE_TYPE_DECIMAL),
      (''DurationType'', CASS_VALUE_TYPE_DURATION), (''DoubleType'', CASS_VALUE_TYPE_DOUBLE),
      (''FloatType'', CASS_VALUE_TYPE_FLOAT), (''InetAddressType'', CASS_VALUE_TYPE_INET),
      (''Int32Type'', CASS_VALUE_TYPE_INT), (''UTF8Type'', CASS_VALUE_TYPE_VARCHAR),
      (''TimestampType'', CASS_VALUE_TYPE_TIMESTAMP), (''DateType'', CASS_VALUE_TYPE_TIMESTAMP),
      (''SimpleDateType'', CASS_VALUE_TYPE_DATE), (''TimeType'', CASS_VALUE_TYPE_TIME),
      (''UUIDType'', CASS_VALUE_TYPE_UUID), (''IntegerType'', CASS_VALUE_TYPE_VARINT),
      (''TimeUUIDType'', CASS_VALUE_TYPE_TIMEUUID), (''MapType'', CASS_VALUE_TYPE_MAP),
      (''SetType'', CASS_VALUE_TYPE_SET), (''ListType'', CASS_VALUE_TYPE_LIST),
      (''TupleType'', CASS_VALUE_TYPE_TUPLE), (''UserType'', CASS_VALUE_TYPE_UDT)]"

definition php_scylladb_lookup_type :: "string \<Rightarrow> cass_value_type" where
  "php_scylladb_lookup_type name =
     (case find (\<lambda>(c, _). name_is (marshal c) name) lookup_table of
        Some (_, t) \<Rightarrow> t
      | None \<Rightarrow> CASS_VALUE_TYPE_CUSTOM)"

definition is_frozen :: "string \<Rightarrow> bool" where
  "is_frozen name = name_is (marshal ''FrozenType'') name"

definition is_reversed :: "string \<Rightarrow> bool" where
  "is_reversed name = name_is (marshal ''ReversedType'') name"

definition is_composite :: "string \<Rightarrow> bool" where
  "is_composite name = name_is (marshal ''CompositeType'') name"

fun hex_value :: "char \<Rightarrow> nat option" where
  "hex_value c =
     (if 48 \<le> code c \<and> code c \<le> 57 then Some (code c - 48)
      else if 65 \<le> code c \<and> code c \<le> 70 then Some (code c - 65 + 10)
      else if 97 \<le> code c \<and> code c \<le> 102 then Some (code c - 97 + 10)
      else None)"

fun php_scylladb_from_hex :: "string \<Rightarrow> string option" where
  "php_scylladb_from_hex [] = Some []"
| "php_scylladb_from_hex [_] = None"
| "php_scylladb_from_hex (a # b # hex) =
     (case (hex_value a, hex_value b, php_scylladb_from_hex hex) of
        (Some h, Some l, Some r) \<Rightarrow> Some (char_of (h * 16 + l) # r)
      | _ \<Rightarrow> None)"

text \<open>The node is written with all its following siblings.\<close>

fun php_scylladb_node_dump_to :: "node list \<Rightarrow> string" where
  "php_scylladb_node_dump_to [] = []"
| "php_scylladb_node_dump_to (Node n cs # ns) =
     n @ (if cs \<noteq> [] then ''('' @ php_scylladb_node_dump_to cs @ '')'' else []) @
     (if ns \<noteq> [] then '', '' @ php_scylladb_node_dump_to ns else [])"

lemma size_drop: "size_list f (drop k cs) \<le> size_list f cs"
proof (induction k arbitrary: cs)
  case (Suc k)
  have "size_list f (drop k (tl cs)) \<le> size_list f (tl cs)" by (rule Suc)
  also have "\<dots> \<le> size_list f cs" by (cases cs) auto
  finally show ?case by (simp add: drop_Suc)
qed simp

lemma size_tl: "size_list f (tl cs) \<le> size_list f cs"
  using size_drop [of f 1 cs] by (simp add: drop_Suc)

lemma size_tl_drop:
  "2 * size_list size (tl cs) \<le> Suc (Suc (Suc (2 * size_list size cs + m)))"
  "2 * size_list size (drop k cs) \<le> Suc (Suc (2 * size_list size cs + m))"
  using size_tl [of size cs] size_drop [of size k cs] by linarith+

function (sequential) php_scylladb_create_type :: "bool \<Rightarrow> (ctype \<Rightarrow> bool) \<Rightarrow> node list \<Rightarrow> built outcome"
and php_scylladb_tuple_from_node :: "bool \<Rightarrow> (ctype \<Rightarrow> bool) \<Rightarrow> node list \<Rightarrow> ctype list \<Rightarrow> exn list \<Rightarrow> built outcome"
and user_type_fields_from_node :: "bool \<Rightarrow> (ctype \<Rightarrow> bool) \<Rightarrow> string option \<Rightarrow> string option \<Rightarrow> node list \<Rightarrow>
  (string \<times> ctype) list \<Rightarrow> exn list \<Rightarrow> built outcome"
where
  "php_scylladb_create_type custom add_ok [] = Ret (C_Undef, [])"
| "php_scylladb_create_type custom add_ok (Node n cs # ns) =
     (if is_frozen n \<or> is_reversed n \<or> is_composite n then php_scylladb_create_type custom add_ok cs
      else
        let type = php_scylladb_lookup_type n in
        if type = CASS_VALUE_TYPE_CUSTOM then
          Ret (php_scylladb_type_custom custom (php_scylladb_node_dump_to (Node n cs # ns)))
        else if type = CASS_VALUE_TYPE_MAP then
          bind_outcome (php_scylladb_create_type custom add_ok cs) (\<lambda>k.
          bind_outcome (php_scylladb_create_type custom add_ok (tl cs)) (\<lambda>v. Ret (php_scylladb_type_map k v)))
        else if type = CASS_VALUE_TYPE_LIST then
          bind_outcome (php_scylladb_create_type custom add_ok cs) (\<lambda>v. Ret (php_scylladb_type_collection v))
        else if type = CASS_VALUE_TYPE_SET then
          bind_outcome (php_scylladb_create_type custom add_ok cs) (\<lambda>v. Ret (php_scylladb_type_set v))
        else if type = CASS_VALUE_TYPE_TUPLE then php_scylladb_tuple_from_node custom add_ok cs [] []
        else if type = CASS_VALUE_TYPE_UDT then
          user_type_fields_from_node custom add_ok
            (case cs of [] \<Rightarrow> None | c # _ \<Rightarrow> Some (node_name c))
            (case cs of _ # c # _ \<Rightarrow> php_scylladb_from_hex (node_name c) | _ \<Rightarrow> None)
            (drop 2 cs) [] []
        else Ret (php_scylladb_type_scalar type))"
| "php_scylladb_tuple_from_node custom add_ok [] ts es = Ret (C_Tuple ts, es)"
| "php_scylladb_tuple_from_node custom add_ok (c # cs) ts es =
     bind_outcome (php_scylladb_create_type custom add_ok (c # cs)) (\<lambda>(t, es').
     bind_outcome (php_scylladb_type_tuple_add add_ok ts t) (\<lambda>(ts', _).
       php_scylladb_tuple_from_node custom add_ok cs ts' (es @ es')))"
| "user_type_fields_from_node custom add_ok ks tn [] fs es = Ret (C_Udt ks tn fs, es)"
| "user_type_fields_from_node custom add_ok ks tn [c] fs es =
     (case php_scylladb_from_hex (node_name c) of None \<Rightarrow> UB | Some _ \<Rightarrow> Ret (C_Udt ks tn fs, es))"
| "user_type_fields_from_node custom add_ok ks tn (c # d # cs) fs es =
     bind_outcome (php_scylladb_create_type custom add_ok (d # cs)) (\<lambda>(t, es').
     bind_outcome (php_scylladb_type_user_type_add add_ok fs (php_scylladb_from_hex (node_name c)) t) (\<lambda>(fs', _).
       user_type_fields_from_node custom add_ok ks tn cs fs' (es @ es')))"
  by pat_completeness auto
termination
  by (relation "measure (\<lambda>x. case x of Inl (_, _, ns) \<Rightarrow> 2 * size_list size ns
    | Inr (Inl (_, _, ns, _, _)) \<Rightarrow> 2 * size_list size ns + 1
    | Inr (Inr (_, _, _, _, ns, _, _)) \<Rightarrow> 2 * size_list size ns + 1)")
    (auto simp: less_Suc_eq_le size_tl_drop)

text \<open>
  \<^verbatim>\<open>php_scylladb_parse_column_type\<close>: the flags of the outer wrappers (reversed, frozen)
  and the type inside.
\<close>

fun strip_wrappers :: "bool \<Rightarrow> bool \<Rightarrow> node list \<Rightarrow> bool \<times> bool \<times> node list" where
  "strip_wrappers reversed frozen [] = (reversed, frozen, [])"
| "strip_wrappers reversed frozen (Node n cs # ns) =
     (if is_reversed n then strip_wrappers True frozen cs
      else if is_frozen n then strip_wrappers reversed True cs
      else if is_composite n then strip_wrappers reversed frozen cs
      else (reversed, frozen, Node n cs # ns))"

definition php_scylladb_parse_column_type :: "bool \<Rightarrow> (ctype \<Rightarrow> bool) \<Rightarrow> string \<Rightarrow> (bool \<times> bool \<times> built) outcome" where
  "php_scylladb_parse_column_type custom add_ok validator =
     bind_outcome (php_scylladb_parse_class_name validator) (\<lambda>root.
       case strip_wrappers False False [root] of
         (reversed, frozen, []) \<Rightarrow> Throw (Exn InvalidArgumentException ''Invalid type'')
       | (reversed, frozen, ns) \<Rightarrow> bind_outcome (php_scylladb_create_type custom add_ok ns) (\<lambda>b. Ret (reversed, frozen, b)))"


section \<open>Spelling of class names\<close>

text \<open>
  The class names of Cassandra: a name, or a name with its arguments in parentheses. Arguments are
  separated by commas; behind an argument that is a bare name a colon may stand instead, as in the
  fields of a user type.
\<close>

definition name_ok :: "string \<Rightarrow> bool" where
  "name_ok n \<longleftrightarrow> n \<noteq> [] \<and> c_isalnum (hd n) \<and> list_all isletter n"

inductive spells :: "node \<Rightarrow> string \<Rightarrow> bool" and spells_list :: "node list \<Rightarrow> string \<Rightarrow> bool" where
  bare: "name_ok n \<Longrightarrow> spells (Node n []) n"
| args: "name_ok n \<Longrightarrow> spells_list cs s \<Longrightarrow> spells (Node n cs) (n @ ''('' @ s @ '')'')"
| last: "spells c s \<Longrightarrow> spells_list [c] s"
| comma: "spells c s \<Longrightarrow> spells_list cs s' \<Longrightarrow> spells_list (c # cs) (s @ '','' @ s')"
| colon: "name_ok n \<Longrightarrow> spells_list cs s' \<Longrightarrow> spells_list (Node n [] # cs) (n @ '':'' @ s')"

lemma spells_list_nonempty: "spells_list cs s \<Longrightarrow> cs \<noteq> []"
  by (cases cs s rule: spells_list.cases) auto

text \<open>Where the parser stands behind a node: the cursor is on it.\<close>

definition behind :: "node \<Rightarrow> string \<Rightarrow> (string \<times> node list) list \<Rightarrow> cn_st" where
  "behind c r path = \<lparr>cn_state = (if node_children c = [] then STATE_AFTER_CLASS else STATE_AFTER_PARENS),
    cn_rest = r, cn_name = node_name c, cn_children = node_children c, cn_path = path, cn_null = False\<rparr>"

definition before :: "string \<Rightarrow> (string \<times> node list) list \<Rightarrow> cn_st" where
  "before s path = \<lparr>cn_state = STATE_CLASS, cn_rest = s, cn_name = [], cn_children = [], cn_path = path, cn_null = False\<rparr>"

definition stop_char :: "string \<Rightarrow> bool" where
  "stop_char r = (case r of [] \<Rightarrow> True | c # _ \<Rightarrow> \<not> isletter c)"

lemma next_token_name: "name_ok n \<Longrightarrow> stop_char r \<Longrightarrow> next_token (n @ r) = (TOKEN_NAME, n, r)"
proof -
  assume n: "name_ok n" and r: "stop_char r"
  have "takeWhile isletter r = []" "dropWhile isletter r = r" using r by (cases r; simp add: stop_char_def)+
  then have "takeWhile isletter (n @ r) = n" "dropWhile isletter (n @ r) = r"
    using n by (simp_all add: name_ok_def list_all_iff takeWhile_append2 dropWhile_append2)
  then show ?thesis using n by (cases n) (auto simp: name_ok_def next_token_def)
qed

lemma stop_chars [simp]: "stop_char []" "stop_char (CHR ''('' # r)" "stop_char (CHR '')'' # r)" "stop_char (CHR '','' # r)" "stop_char (CHR '':'' # r)"
proof -
  have "\<not> isletter (CHR ''('')" "\<not> isletter (CHR '')'')" "\<not> isletter (CHR '','')" "\<not> isletter (CHR '':'')" by code_simp+
  then show "stop_char []" "stop_char (CHR ''('' # r)" "stop_char (CHR '')'' # r)" "stop_char (CHR '','' # r)" "stop_char (CHR '':'' # r)"
    by (simp_all add: stop_char_def)
qed

lemma next_token_signs [simp]:
  "next_token (CHR ''('' # r) = (TOKEN_PAREN_OPEN, ''('', r)" "next_token (CHR '')'' # r) = (TOKEN_PAREN_CLOSE, '')'', r)"
  "next_token (CHR '','' # r) = (TOKEN_COMMA, '','', r)" "next_token (CHR '':'' # r) = (TOKEN_COLON, '':'', r)"
  "next_token [] = (TOKEN_END, [], [])"
proof -
  have "\<not> c_isalnum (CHR ''('')" "\<not> c_isalnum (CHR '')'')" "\<not> c_isalnum (CHR '','')" "\<not> c_isalnum (CHR '':'')" by code_simp+
  then show "next_token (CHR ''('' # r) = (TOKEN_PAREN_OPEN, ''('', r)" "next_token (CHR '')'' # r) = (TOKEN_PAREN_CLOSE, '')'', r)"
    "next_token (CHR '','' # r) = (TOKEN_COMMA, '','', r)" "next_token (CHR '':'' # r) = (TOKEN_COLON, '':'', r)" "next_token [] = (TOKEN_END, [], [])"
    by (simp_all add: next_token_def)
qed

lemma cn_run_continue: "cn_step \<sigma> = Cn_Continue \<sigma>' \<Longrightarrow> cn_run \<sigma> = cn_run \<sigma>'"
  by (subst cn_run.simps) simp

lemma run_name: "name_ok n \<Longrightarrow> stop_char r \<Longrightarrow> cn_run (before (n @ r) path) = cn_run (behind (Node n []) r path)"
  by (rule cn_run_continue) (simp add: before_def behind_def cn_step_def next_token_name cn_class_def)

lemma run_open: "cn_run (behind (Node n []) (CHR ''('' # r) path) = cn_run (before r ((n, []) # path))"
  by (rule cn_run_continue) (simp add: before_def behind_def cn_step_def cn_after_class_def cn_child_def)

lemma run_comma: "cn_run (behind c (CHR '','' # r) ((pn, ls) # path)) = cn_run (before r ((pn, ls @ [c]) # path))"
  by (rule cn_run_continue, cases c)
    (simp add: before_def behind_def cn_step_def cn_after_class_def cn_after_parens_def cn_sibling_def)

lemma run_colon: "cn_run (behind (Node n []) (CHR '':'' # r) ((pn, ls) # path)) = cn_run (before r ((pn, ls @ [Node n []]) # path))"
  by (rule cn_run_continue) (simp add: before_def behind_def cn_step_def cn_after_class_def cn_sibling_def)

lemma run_close: "cn_run (behind c (CHR '')'' # r) ((pn, ls) # path)) = cn_run (behind (Node pn (ls @ [c])) r path)"
  by (rule cn_run_continue, cases c)
    (simp add: behind_def cn_step_def cn_after_class_def cn_after_parens_def cn_up_def)

lemma run_spelled:
  "spells c s \<Longrightarrow> stop_char r \<Longrightarrow> cn_run (before (s @ r) path) = cn_run (behind c r path)"
  "spells_list cs s' \<Longrightarrow> cn_run (before (s' @ CHR '')'' # r') ((pn, ls) # path')) = cn_run (behind (Node pn (ls @ cs)) r' path')"
proof (induction arbitrary: r path and r' pn ls path' rule: spells_spells_list.inducts)
  case (args n cs s)
  then show ?case by (simp add: run_name run_open)
next
  case (comma c s cs s')
  then show ?case by (simp add: run_comma)
next
  case (colon n cs s')
  then show ?case by (simp add: run_name run_colon)
qed (simp_all add: run_name run_close)

lemma parse_spelled:
  assumes "spells c s"
  shows "php_scylladb_parse_class_name s = Ret c"
proof -
  have "cn_run (before s []) = cn_run (behind c [] [])" using run_spelled(1) [OF assms, of "[]" "[]"] by simp
  also have "\<dots> = Cn_Break (behind c [] [])"
    by (subst cn_run.simps) (simp add: behind_def cn_step_def cn_after_class_def cn_after_parens_def)
  finally show ?thesis
    by (cases c) (simp add: php_scylladb_parse_class_name_def before_def behind_def)
qed

section \<open>Types in class-name form\<close>

definition hex_digit :: "nat \<Rightarrow> char" where
  "hex_digit d = (if d < 10 then char_of (48 + d) else char_of (87 + d))"

definition to_hex :: "string \<Rightarrow> string" where
  "to_hex s = concat (map (\<lambda>c. [hex_digit (code c div 16), hex_digit (code c mod 16)]) s)"


definition class_of :: "cass_value_type \<Rightarrow> string option" where
  "class_of c = map_option fst (find (\<lambda>(_, d). d = c) lookup_table)"

fun marshalled :: "cass_type \<Rightarrow> bool" where
  "marshalled (T_Scalar c) \<longleftrightarrow> scalar_name c \<noteq> None \<and> class_of c \<noteq> None"
| "marshalled (T_Custom _) \<longleftrightarrow> False"
| "marshalled (T_List t) \<longleftrightarrow> marshalled t"
| "marshalled (T_Set t) \<longleftrightarrow> marshalled t"
| "marshalled (T_Map k v) \<longleftrightarrow> marshalled k \<and> marshalled v"
| "marshalled (T_Tuple ts) \<longleftrightarrow> ts \<noteq> [] \<and> list_all marshalled ts"
| "marshalled (T_Udt ks n fs) \<longleftrightarrow> (case ks of Some k \<Rightarrow> name_ok k | None \<Rightarrow> False) \<and>
     (case n of Some m \<Rightarrow> m \<noteq> [] | None \<Rightarrow> False) \<and> distinct (map fst fs) \<and> list_all (\<lambda>f. fst f \<noteq> [] \<and> marshalled (snd f)) fs"

fun class_tree :: "cass_type \<Rightarrow> node" where
  "class_tree (T_Scalar c) = Node (marshal (the (class_of c))) []"
| "class_tree (T_Custom s) = Node s []"
| "class_tree (T_List t) = Node (marshal ''ListType'') [class_tree t]"
| "class_tree (T_Set t) = Node (marshal ''SetType'') [class_tree t]"
| "class_tree (T_Map k v) = Node (marshal ''MapType'') [class_tree k, class_tree v]"
| "class_tree (T_Tuple ts) = Node (marshal ''TupleType'') (map class_tree ts)"
| "class_tree (T_Udt ks n fs) = Node (marshal ''UserType'') (Node (the ks) [] # Node (to_hex (the n)) [] #
     concat (map (\<lambda>(m, t). [Node (to_hex m) [], class_tree t]) fs))"

fun class_text :: "cass_type \<Rightarrow> string" where
  "class_text (T_Scalar c) = marshal (the (class_of c))"
| "class_text (T_Custom s) = s"
| "class_text (T_List t) = marshal ''ListType'' @ ''('' @ class_text t @ '')''"
| "class_text (T_Set t) = marshal ''SetType'' @ ''('' @ class_text t @ '')''"
| "class_text (T_Map k v) = marshal ''MapType'' @ ''('' @ class_text k @ '','' @ class_text v @ '')''"
| "class_text (T_Tuple ts) = marshal ''TupleType'' @ ''('' @ join_sep '','' (map class_text ts) @ '')''"
| "class_text (T_Udt ks n fs) = marshal ''UserType'' @ ''('' @
     join_sep '','' (the ks # to_hex (the n) # map (\<lambda>(m, t). to_hex m @ '':'' @ class_text t) fs) @ '')''"

text \<open>Facts about the table, by evaluation.\<close>

definition table_entry_ok :: "string \<times> cass_value_type \<Rightarrow> bool" where
  "table_entry_ok e \<longleftrightarrow> php_scylladb_lookup_type (marshal (fst e)) = snd e \<and> name_ok (marshal (fst e)) \<and>
     \<not> is_frozen (marshal (fst e)) \<and> \<not> is_reversed (marshal (fst e)) \<and> \<not> is_composite (marshal (fst e))"

lemma lookup_table_ok: "list_all table_entry_ok lookup_table"
  by code_simp

lemma lookup_class:
  assumes "(s, c) \<in> set lookup_table"
  shows "php_scylladb_lookup_type (marshal s) = c" "name_ok (marshal s)" "\<not> is_frozen (marshal s)" "\<not> is_reversed (marshal s)"
    "\<not> is_composite (marshal s)"
  using lookup_table_ok assms by (force simp: list_all_iff table_entry_ok_def)+

lemma composite_entries:
  "(''ListType'', CASS_VALUE_TYPE_LIST) \<in> set lookup_table" "(''SetType'', CASS_VALUE_TYPE_SET) \<in> set lookup_table"
  "(''MapType'', CASS_VALUE_TYPE_MAP) \<in> set lookup_table" "(''TupleType'', CASS_VALUE_TYPE_TUPLE) \<in> set lookup_table"
  "(''UserType'', CASS_VALUE_TYPE_UDT) \<in> set lookup_table"
  by (simp_all add: lookup_table_def)

lemmas composite_classes [simp] =
  composite_entries [THEN lookup_class(1)] composite_entries [THEN lookup_class(2)] composite_entries [THEN lookup_class(3)]
  composite_entries [THEN lookup_class(4)] composite_entries [THEN lookup_class(5)]

lemma class_of_entry: "class_of c = Some s \<Longrightarrow> (s, c) \<in> set lookup_table"
  by (auto simp: class_of_def find_Some_iff2 in_set_conv_nth find_Some_iff)

lemma hex_digit_props:
  assumes "d < 16"
  shows "hex_value (hex_digit d) = Some d" "c_isalnum (hex_digit d)" "isletter (hex_digit d)"
  using assms by (auto simp: hex_digit_def c_isalnum_def isletter_def c_isdigit_def c_islower_def)

lemma code_div_16 [simp]: "code c div 16 < 16"
  using code_less [of c] by (simp add: div_less_iff_less_mult)

lemma from_hex_to_hex [simp]: "php_scylladb_from_hex (to_hex s) = Some s"
proof (induction s)
  case (Cons c s)
  have "char_of (code c div 16 * 16 + code c mod 16) = c" by (simp add: code_def)
  with Cons show ?case by (simp add: to_hex_def hex_digit_props del: hex_value.simps)
qed (simp add: to_hex_def)

lemma name_ok_to_hex [simp]: "s \<noteq> [] \<Longrightarrow> name_ok (to_hex s)"
proof -
  assume "s \<noteq> []"
  have "list_all isletter (to_hex s)"
    by (auto simp: to_hex_def list_all_iff intro!: hex_digit_props)
  moreover obtain c r where "s = c # r" using \<open>s \<noteq> []\<close> by (cases s) auto
  moreover from this have "c_isalnum (hd (to_hex s))" by (simp add: to_hex_def hex_digit_props)
  ultimately show ?thesis by (simp add: name_ok_def to_hex_def)
qed


lemma spells_join:
  assumes "ts \<noteq> []" and "\<And>t. t \<in> set ts \<Longrightarrow> spells (f t) (g t)"
  shows "spells_list (map f ts) (join_sep '','' (map g ts))"
  using assms
proof (induction ts rule: list_nonempty_induct)
  case (cons t ts)
  then obtain u us where "ts = u # us" by (cases ts) auto
  then show ?case using cons comma [of "f t" "g t" "map f ts"] by simp
qed (simp add: last)

lemma spells_fields:
  assumes "spells (Node a []) a" and "name_ok a" and "\<And>m t. (m, t) \<in> set fs \<Longrightarrow> name_ok (to_hex m) \<and> spells (class_tree t) (class_text t)"
  shows "spells_list (Node a [] # concat (map (\<lambda>(m, t). [Node (to_hex m) [], class_tree t]) fs))
    (join_sep '','' (a # map (\<lambda>(m, t). to_hex m @ '':'' @ class_text t) fs))"
proof -
  have *: "spells_list (concat (map (\<lambda>(m, t). [Node (to_hex m) [], class_tree t]) gs))
    (join_sep '','' (map (\<lambda>(m, t). to_hex m @ '':'' @ class_text t) gs))" if "gs \<noteq> []" "set gs \<subseteq> set fs" for gs
    using that
  proof (induction gs rule: list_nonempty_induct)
    case (single f)
    obtain m t where "f = (m, t)" by fastforce
    then show ?case using single assms(3) [of m t] by (auto intro!: colon [simplified] last)
  next
    case (cons f gs)
    obtain m t where f: "f = (m, t)" by fastforce
    obtain g hs where gs: "gs = g # hs" using cons(1) by (cases gs) auto
    have "spells_list (Node (to_hex m) [] # class_tree t # concat (map (\<lambda>(m, t). [Node (to_hex m) [], class_tree t]) gs))
      (to_hex m @ '':'' @ class_text t @ '','' @ join_sep '','' (map (\<lambda>(m, t). to_hex m @ '':'' @ class_text t) gs))"
      using cons assms(3) [of m t] by (intro colon comma) (auto simp: f)
    then show ?case by (simp add: f gs)
  qed
  show ?thesis
  proof (cases fs)
    case Nil
    then show ?thesis using assms(1) by (simp add: last)
  next
    case (Cons f gs)
    then show ?thesis using comma [OF assms(1) * [of fs]] by simp
  qed
qed

lemma spells_class: "marshalled t \<Longrightarrow> spells (class_tree t) (class_text t)"
proof (induction t)
  case (T_Scalar c)
  then obtain s where s: "class_of c = Some s" by auto
  show ?case using bare [OF lookup_class(2) [OF class_of_entry [OF s]]] s by simp
next
  case (T_Map k v)
  then have "spells_list [class_tree k, class_tree v] (class_text k @ '','' @ class_text v)" by (intro comma last) auto
  from args [OF composite_entries(3) [THEN lookup_class(2)] this] show ?case by simp
next
  case (T_Tuple ts)
  then have "spells_list (map class_tree ts) (join_sep '','' (map class_text ts))"
    by (intro spells_join) (auto simp: list_all_iff)
  then show ?case by (auto intro!: args [simplified])
next
  case (T_Udt ks n fs)
  then obtain k m where k: "ks = Some k" "n = Some m" "name_ok k" "m \<noteq> []" by (auto split: option.splits)
  have "spells_list (Node (to_hex m) [] # concat (map (\<lambda>(m, t). [Node (to_hex m) [], class_tree t]) fs))
    (join_sep '','' (to_hex m # map (\<lambda>(m, t). to_hex m @ '':'' @ class_text t) fs))"
    using T_Udt k by (intro spells_fields) (auto intro: bare simp: list_all_iff snds.simps)
  then have "spells_list (Node k [] # Node (to_hex m) [] # concat (map (\<lambda>(m, t). [Node (to_hex m) [], class_tree t]) fs))
    (k @ '','' @ join_sep '','' (to_hex m # map (\<lambda>(m, t). to_hex m @ '':'' @ class_text t) fs))"
    using k by (intro comma bare)
  from args [OF composite_entries(5) [THEN lookup_class(2)] this] show ?case using k by simp
qed (auto intro!: args [simplified] last comma [simplified])

lemma tuple_from_tree:
  assumes "\<And>t ns. t \<in> set ts \<Longrightarrow> php_scylladb_create_type custom (\<lambda>_. True) (class_tree t # ns) = Ret (of_cass_type t, [])"
  shows "php_scylladb_tuple_from_node custom (\<lambda>_. True) (map class_tree ts) us es = Ret (C_Tuple (us @ map of_cass_type ts), es)"
  using assms by (induction ts arbitrary: us) (simp_all add: php_scylladb_type_tuple_add_def)

lemma user_type_from_tree:
  assumes "\<And>m t ns. (m, t) \<in> set fs \<Longrightarrow> php_scylladb_create_type custom (\<lambda>_. True) (class_tree t # ns) = Ret (of_cass_type t, [])"
    and "distinct (map fst fs)" and "fst ` set us \<inter> fst ` set fs = {}"
  shows "user_type_fields_from_node custom (\<lambda>_. True) ks n (concat (map (\<lambda>(m, t). [Node (to_hex m) [], class_tree t]) fs)) us es =
    Ret (C_Udt ks n (us @ map (\<lambda>(m, t). (m, of_cass_type t)) fs), es)"
  using assms
proof (induction fs arbitrary: us)
  case (Cons f fs)
  obtain m t where f: "f = (m, t)" by fastforce
  have "php_scylladb_create_type custom (\<lambda>_. True) (class_tree t # ns) = Ret (of_cass_type t, [])" for ns
    using Cons.prems(1) by (auto simp: f)
  moreover have "user_type_fields_from_node custom (\<lambda>_. True) ks n (concat (map (\<lambda>(m, t). [Node (to_hex m) [], class_tree t]) fs))
      (us @ [(m, of_cass_type t)]) es = Ret (C_Udt ks n ((us @ [(m, of_cass_type t)]) @ map (\<lambda>(m, t). (m, of_cass_type t)) fs), es)"
    using Cons.prems by (intro Cons.IH) (auto simp: f)
  ultimately show ?case using Cons.prems by (simp add: f php_scylladb_type_user_type_add_def)
qed simp

lemma create_from_tree:
  "marshalled t \<Longrightarrow> php_scylladb_create_type custom (\<lambda>_. True) (class_tree t # ns) = Ret (of_cass_type t, [])"
proof (induction t arbitrary: ns)
  case (T_Scalar c)
  then obtain s where s: "class_of c = Some s" by auto
  note facts = lookup_class [OF class_of_entry [OF s]]
  have "c \<notin> {CASS_VALUE_TYPE_CUSTOM, CASS_VALUE_TYPE_MAP, CASS_VALUE_TYPE_LIST, CASS_VALUE_TYPE_SET, CASS_VALUE_TYPE_TUPLE, CASS_VALUE_TYPE_UDT}"
    using T_Scalar by auto
  then show ?case using T_Scalar facts s by (simp add: Let_def php_scylladb_type_scalar_def)
next
  case (T_Tuple ts)
  then show ?case using tuple_from_tree [of ts custom "[]" "[]"] by (simp add: Let_def list_all_iff)
next
  case (T_Udt ks n fs)
  have "php_scylladb_create_type custom (\<lambda>_. True) (class_tree t # ns) = Ret (of_cass_type t, [])" if "(m, t) \<in> set fs" for m t ns
    using T_Udt that by (auto simp: list_all_iff snds.simps)
  then show ?case
    using T_Udt.prems user_type_from_tree [of fs custom "[]" ks n "[]"]
    by (auto simp: Let_def numeral_2_eq_2 split: option.splits)
qed (simp_all add: Let_def php_scylladb_type_collection_def php_scylladb_type_set_def php_scylladb_type_map_def)


lemma wrapper_facts:
  "name_ok (marshal ''ReversedType'')" "name_ok (marshal ''FrozenType'')" "is_reversed (marshal ''ReversedType'')"
  "\<not> is_reversed (marshal ''FrozenType'')" "is_frozen (marshal ''FrozenType'')"
  by code_simp+

lemma class_tree_no_wrapper:
  assumes "marshalled t"
  shows "strip_wrappers r f (class_tree t # ns) = (r, f, class_tree t # ns)"
proof (cases t)
  case (T_Scalar c)
  then obtain s where "class_of c = Some s" using assms by auto
  then show ?thesis using lookup_class [OF class_of_entry] T_Scalar by simp
qed (use assms in auto)



text \<open>
  Property C37. The parser's limits. A comma or colon behind a class name that has no enclosing
  parenthesis dereferences the null parent; a stray closing parenthesis is accepted at the end of the
  text but leaves a null cursor, which the next comma or parenthesis dereferences; an underscore, which
  keyspace names may contain, is an illegal character; and a name that is only a prefix of a known class
  (here the package name) counts as that class, so it is skipped as a wrapper. The name recorded for a
  custom class includes the arguments that follow it in the enclosing list.
\<close>

theorem class_name_limits:
  assumes "name_ok n"
  shows "php_scylladb_parse_class_name (n @ '','' @ r) = UB \<and> php_scylladb_parse_class_name (n @ '':'' @ r) = UB \<and>
    php_scylladb_parse_class_name (n @ '')'') = Ret (Node n []) \<and> php_scylladb_parse_class_name (n @ ''),'' @ r) = UB \<and>
    php_scylladb_parse_class_name (n @ ''))'' @ r) = UB \<and>
    php_scylladb_parse_class_name (n @ ''_'' @ r) = Throw (Exn InvalidArgumentException ''Illegal character'') \<and>
    is_frozen ''org.apache.cassandra'' \<and>
    php_scylladb_create_type True add_ok [Node ''X'' [], Node ''Y'' []] = Ret (C_Custom ''X, Y'', [])"
proof -
  have u: "\<not> isletter (CHR ''_'')" "\<not> c_isalnum (CHR ''_'')" by code_simp+
  then have "stop_char (CHR ''_'' # r)" "next_token (CHR ''_'' # r) = (TOKEN_ILLEGAL, [], CHR ''_'' # r)"
    by (simp_all add: stop_char_def next_token_def)
  moreover have "php_scylladb_parse_class_name (n @ s) = (case cn_run (behind (Node n []) s []) of
        Cn_Break \<sigma> \<Rightarrow> Ret (cn_root (cn_name \<sigma>) (cn_children \<sigma>) (cn_path \<sigma>)) | Cn_Fail e \<Rightarrow> Throw e | _ \<Rightarrow> UB)" if "stop_char s" for s
    using run_name [OF assms that, of "[]"] by (simp add: php_scylladb_parse_class_name_def before_def)
  moreover have "is_frozen ''org.apache.cassandra''" "\<not> is_frozen ''X''" "\<not> is_reversed ''X''" "\<not> is_composite ''X''"
    "php_scylladb_lookup_type ''X'' = CASS_VALUE_TYPE_CUSTOM" by code_simp+
  ultimately show ?thesis
    by (simp add: cn_run.simps behind_def cn_step_def cn_after_class_def cn_after_parens_def cn_sibling_def cn_up_def
        php_scylladb_type_custom_def)
qed

theorem class_name_limits_witness: "php_scylladb_parse_class_name ''a,b'' = UB"
proof -
  have "name_ok ''a''" by code_simp
  from class_name_limits [OF this, of "''b''"] show ?thesis by simp
qed

end
