(* ===== verification/Uthash.thy ===== *)
theory Uthash
  imports Hashing
begin

text \<open>
  \<^verbatim>\<open>src/Type/uthash.h\<close>: the intrusive hash table behind Map and Set. Elements are cells of
  a store, named by their addresses. The doubly linked list in application order (\<^verbatim>\<open>prev\<close>,
  \<^verbatim>\<open>next\<close>, the head and the table's tail) is the list of its addresses, and so is the chain
  of each bucket (\<^verbatim>\<open>hh_prev\<close>, \<^verbatim>\<open>hh_next\<close>, head first). The macros
  \<^verbatim>\<open>HASH_FUNCTION\<close> and \<^verbatim>\<open>HASH_KEYCOMPARE\<close> are the arguments
  \<open>hash\<close> and \<open>cmp\<close>. Counters are natural numbers: the C counters are 32 bits wide, which bounds
  the table at four thousand million elements.
\<close>

section \<open>The structures\<close>

record UT_hash_bucket =
  hh_head :: "nat list"
  bkt_count :: nat
  expand_mult :: nat

record UT_hash_table =
  buckets :: "UT_hash_bucket list"
  num_buckets :: nat
  log2_num_buckets :: nat
  num_items :: nat
  app_order :: "nat list"
  ideal_chain_maxlen :: nat
  nonideal_items :: nat
  ineff_expands :: nat
  noexpand :: bool

text \<open>An element: its key, its payload and the hash kept in its handle.\<close>

record ('k, 'v) cell =
  c_key :: 'k
  c_val :: 'v
  c_hashv :: nat

type_synonym ('k, 'v) store = "nat \<rightharpoonup> ('k, 'v) cell"

definition HASH_TO_BKT :: "nat \<Rightarrow> nat \<Rightarrow> nat" where
  "HASH_TO_BKT hashv num_bkts = and hashv (num_bkts - 1)"

definition empty_bucket :: UT_hash_bucket where
  "empty_bucket = \<lparr>hh_head = [], bkt_count = 0, expand_mult = 0\<rparr>"

definition HASH_MAKE_TABLE :: "nat \<Rightarrow> UT_hash_table" where
  "HASH_MAKE_TABLE head =
     \<lparr>buckets = replicate 32 empty_bucket, num_buckets = 32, log2_num_buckets = 5, num_items = 0, app_order = [head],
      ideal_chain_maxlen = 0, nonideal_items = 0, ineff_expands = 0, noexpand = False\<rparr>"

section \<open>The operations\<close>

definition HASH_FIND_IN_BKT :: "('k \<Rightarrow> 'k \<Rightarrow> int) \<Rightarrow> ('k, 'v) store \<Rightarrow> nat list \<Rightarrow> 'k \<Rightarrow> nat option" where
  "HASH_FIND_IN_BKT cmp \<mu> chain k = find (\<lambda>a. case \<mu> a of Some c \<Rightarrow> cmp (c_key c) k = 0 | None \<Rightarrow> False) chain"

text \<open>A null head is an empty table.\<close>

definition HASH_FIND :: "('k \<Rightarrow> nat) \<Rightarrow> ('k \<Rightarrow> 'k \<Rightarrow> int) \<Rightarrow> ('k, 'v) store \<Rightarrow> UT_hash_table option \<Rightarrow> 'k \<Rightarrow> nat option" where
  "HASH_FIND hash cmp \<mu> head k =
     (case head of
        None \<Rightarrow> None
      | Some t \<Rightarrow> HASH_FIND_IN_BKT cmp \<mu> (hh_head (buckets t ! HASH_TO_BKT (hash k) (num_buckets t))) k)"

text \<open>
  Doubling: every chain is walked from its head and each element is pushed to the front of its new
  bucket. The pair accumulates the new buckets and the number of elements beyond the ideal length.
\<close>

definition expand_push :: "nat \<Rightarrow> nat \<Rightarrow> (nat \<Rightarrow> nat) \<Rightarrow> nat \<Rightarrow> UT_hash_bucket list \<times> nat \<Rightarrow> UT_hash_bucket list \<times> nat" where
  "expand_push n ideal hashv a acc =
     (let (bs, nonideal) = acc;
          i = HASH_TO_BKT (hashv a) n;
          b = bs ! i;
          count = bkt_count b + 1
      in (bs[i := \<lparr>hh_head = a # hh_head b, bkt_count = count,
                   expand_mult = (if count > ideal then count div ideal else expand_mult b)\<rparr>],
          if count > ideal then nonideal + 1 else nonideal))"

definition HASH_EXPAND_BUCKETS :: "(nat \<Rightarrow> nat) \<Rightarrow> UT_hash_table \<Rightarrow> UT_hash_table" where
  "HASH_EXPAND_BUCKETS hashv t =
     (let n = 2 * num_buckets t;
          ideal = drop_bit (log2_num_buckets t + 1) (num_items t) + (if and (num_items t) (n - 1) \<noteq> 0 then 1 else 0);
          (bs, nonideal) = fold (expand_push n ideal hashv) (concat (map hh_head (buckets t))) (replicate n empty_bucket, 0);
          ineff = (if nonideal > drop_bit 1 (num_items t) then ineff_expands t + 1 else 0)
      in t\<lparr>buckets := bs, num_buckets := n, log2_num_buckets := log2_num_buckets t + 1, ideal_chain_maxlen := ideal,
           nonideal_items := nonideal, ineff_expands := ineff, noexpand := noexpand t \<or> ineff > 1\<rparr>)"

definition HASH_ADD_TO_BKT :: "(nat \<Rightarrow> nat) \<Rightarrow> nat \<Rightarrow> nat \<Rightarrow> UT_hash_table \<Rightarrow> UT_hash_table" where
  "HASH_ADD_TO_BKT hashv i a t =
     (let b = buckets t ! i;
          b' = b\<lparr>hh_head := a # hh_head b, bkt_count := bkt_count b + 1\<rparr>;
          t' = t\<lparr>buckets := (buckets t)[i := b']\<rparr>
      in if bkt_count b' \<ge> (expand_mult b' + 1) * 10 \<and> \<not> noexpand t' then HASH_EXPAND_BUCKETS hashv t' else t')"

text \<open>The store already holds the new cell, with its hash entered in the handle.\<close>

definition HASH_ADD_KEYPTR :: "(nat \<Rightarrow> nat) \<Rightarrow> UT_hash_table option \<Rightarrow> nat \<Rightarrow> UT_hash_table" where
  "HASH_ADD_KEYPTR hashv head a =
     (let t = (case head of None \<Rightarrow> HASH_MAKE_TABLE a | Some t \<Rightarrow> t\<lparr>app_order := app_order t @ [a]\<rparr>);
          t' = t\<lparr>num_items := num_items t + 1\<rparr>
      in HASH_ADD_TO_BKT hashv (HASH_TO_BKT (hashv a) (num_buckets t')) a t')"

text \<open>Deleting the only element frees the table.\<close>

definition HASH_DELETE :: "(nat \<Rightarrow> nat) \<Rightarrow> UT_hash_table \<Rightarrow> nat \<Rightarrow> UT_hash_table option" where
  "HASH_DELETE hashv t a =
     (if app_order t = [a] then None
      else
        let i = HASH_TO_BKT (hashv a) (num_buckets t); b = buckets t ! i
        in Some (t\<lparr>app_order := remove1 a (app_order t),
                  buckets := (buckets t)[i := b\<lparr>hh_head := remove1 a (hh_head b), bkt_count := bkt_count b - 1\<rparr>],
                  num_items := num_items t - 1\<rparr>))"

definition HASH_COUNT :: "UT_hash_table option \<Rightarrow> nat" where
  "HASH_COUNT head = (case head of None \<Rightarrow> 0 | Some t \<Rightarrow> num_items t)"

definition app_list :: "UT_hash_table option \<Rightarrow> nat list" where
  "app_list head = (case head of None \<Rightarrow> [] | Some t \<Rightarrow> app_order t)"

section \<open>The table's invariant\<close>

definition hash_of :: "('k, 'v) store \<Rightarrow> nat \<Rightarrow> nat" where
  "hash_of \<mu> a = (case \<mu> a of Some c \<Rightarrow> c_hashv c | None \<Rightarrow> 0)"

text \<open>
  \<open>buckets_ok\<close>: a power of two of buckets; the chains hold exactly the addresses \<open>xs\<close>, each in the
  bucket of its hash, once; the counts are the chain lengths.
\<close>

definition buckets_ok :: "(nat \<Rightarrow> nat) \<Rightarrow> nat \<Rightarrow> UT_hash_bucket list \<Rightarrow> nat list \<Rightarrow> bool" where
  "buckets_ok hashv n bs xs \<longleftrightarrow>
     length bs = 2 ^ n \<and> distinct xs \<and>
     (\<forall>i < 2 ^ n. distinct (hh_head (bs ! i)) \<and> bkt_count (bs ! i) = length (hh_head (bs ! i)) \<and>
       set (hh_head (bs ! i)) = {a \<in> set xs. HASH_TO_BKT (hashv a) (2 ^ n) = i})"

definition ut_ok :: "(nat \<Rightarrow> nat) \<Rightarrow> UT_hash_table option \<Rightarrow> bool" where
  "ut_ok hashv head = (case head of None \<Rightarrow> True
     | Some t \<Rightarrow> app_order t \<noteq> [] \<and> num_items t = length (app_order t) \<and> num_buckets t = 2 ^ log2_num_buckets t \<and>
         buckets_ok hashv (log2_num_buckets t) (buckets t) (app_order t))"

lemma HASH_TO_BKT_less: "HASH_TO_BKT h (2 ^ n) < 2 ^ n"
proof -
  have "HASH_TO_BKT h (2 ^ n) = take_bit n h"
    by (simp add: HASH_TO_BKT_def take_bit_eq_mask mask_eq_exp_minus_1)
  then show ?thesis by simp
qed

lemma buckets_ok_push:
  assumes "buckets_ok hashv n bs xs" and "a \<notin> set xs"
  defines "i \<equiv> HASH_TO_BKT (hashv a) (2 ^ n)"
  shows "buckets_ok hashv n (bs[i := \<lparr>hh_head = a # hh_head (bs ! i), bkt_count = bkt_count (bs ! i) + 1, expand_mult = m\<rparr>]) (xs @ [a])"
proof -
  have "i < 2 ^ n" unfolding i_def by (rule HASH_TO_BKT_less)
  then show ?thesis using assms by (auto simp: buckets_ok_def nth_list_update)
qed

lemma buckets_ok_empty: "buckets_ok hashv n (replicate (2 ^ n) empty_bucket) []"
  by (simp add: buckets_ok_def empty_bucket_def)

lemma expand_fold_ok:
  assumes "buckets_ok hashv n (fst acc) xs" and "distinct (xs @ ys)"
  shows "buckets_ok hashv n (fst (fold (expand_push (2 ^ n) ideal hashv) ys acc)) (xs @ ys)"
  using assms
proof (induction ys arbitrary: acc xs)
  case (Cons a ys)
  have "buckets_ok hashv n (fst (expand_push (2 ^ n) ideal hashv a acc)) (xs @ [a])"
    using Cons.prems buckets_ok_push [of hashv n "fst acc" xs a] by (auto simp: expand_push_def Let_def split: prod.split)
  from Cons.IH [OF this] Cons.prems show ?case by simp
qed simp

lemma buckets_ok_perm: "buckets_ok hashv n bs xs \<Longrightarrow> distinct ys \<Longrightarrow> set ys = set xs \<Longrightarrow> buckets_ok hashv n bs ys"
  by (simp add: buckets_ok_def)

lemma concat_chains:
  assumes "buckets_ok hashv n bs xs"
  shows "distinct (concat (map hh_head bs))" and "set (concat (map hh_head bs)) = set xs"
proof -
  have nth: "i < length bs \<Longrightarrow> set (hh_head (bs ! i)) = {a \<in> set xs. HASH_TO_BKT (hashv a) (2 ^ n) = i}"
    "i < length bs \<Longrightarrow> distinct (hh_head (bs ! i))" for i
    using assms by (auto simp: buckets_ok_def)
  have mem: "a \<in> set (concat (map hh_head (take k bs))) \<longleftrightarrow> (\<exists>i<k. i < length bs \<and> a \<in> set (hh_head (bs ! i)))" for a k
  proof (induction k)
    case (Suc k)
    show ?case
    proof (cases "k < length bs")
      case True
      then show ?thesis using Suc by (auto simp: take_Suc_conv_app_nth less_Suc_eq)
    qed (use Suc in \<open>auto simp: less_Suc_eq\<close>)
  qed simp
  have len: "length bs = 2 ^ n" using assms by (simp add: buckets_ok_def)
  show "set (concat (map hh_head bs)) = set xs"
  proof (intro set_eqI)
    fix a
    have "a \<in> set (concat (map hh_head bs)) \<longleftrightarrow> (\<exists>i<length bs. a \<in> set (hh_head (bs ! i)))"
      using mem [of a "length bs"] by simp
    also have "\<dots> \<longleftrightarrow> (\<exists>i<2 ^ n. a \<in> set xs \<and> HASH_TO_BKT (hashv a) (2 ^ n) = i)" using nth(1) len by auto
    also have "\<dots> \<longleftrightarrow> a \<in> set xs" using HASH_TO_BKT_less by auto
    finally show "a \<in> set (concat (map hh_head bs)) \<longleftrightarrow> a \<in> set xs" .
  qed
  have "distinct (concat (map hh_head (take k bs)))" for k
  proof (induction k)
    case (Suc k)
    show ?case
    proof (cases "k < length bs")
      case True
      have "a \<notin> set (hh_head (bs ! k))" if "a \<in> set (concat (map hh_head (take k bs)))" for a
        using that mem [of a k] nth(1) [OF True] nth(1) by auto
      then show ?thesis using True Suc nth(2) [OF True] by (auto simp: take_Suc_conv_app_nth)
    qed (use Suc in simp)
  qed simp
  from this [of "length bs"] show "distinct (concat (map hh_head bs))" by simp
qed

lemma expand_ok:
  assumes "num_buckets t = 2 ^ log2_num_buckets t" and "buckets_ok hashv (log2_num_buckets t) (buckets t) xs"
  defines "t' \<equiv> HASH_EXPAND_BUCKETS hashv t"
  shows "buckets_ok hashv (log2_num_buckets t') (buckets t') xs" and "num_buckets t' = 2 ^ log2_num_buckets t'"
    and "app_order t' = app_order t" and "num_items t' = num_items t"
proof -
  let ?ys = "concat (map hh_head (buckets t))"
  note ys = concat_chains [OF assms(2)]
  let ?n = "Suc (log2_num_buckets t)"
  have *: "buckets_ok hashv ?n (fst (fold (expand_push (2 ^ ?n) ideal hashv) ?ys (replicate (2 ^ ?n) empty_bucket, 0))) ([] @ ?ys)" for ideal
    using ys(1) buckets_ok_empty [of hashv ?n] by (intro expand_fold_ok) auto
  obtain ideal where "buckets t' = fst (fold (expand_push (2 ^ ?n) ideal hashv) ?ys (replicate (2 ^ ?n) empty_bucket, 0))"
    by (simp add: t'_def HASH_EXPAND_BUCKETS_def Let_def assms(1) prod.case_eq_if)
  moreover have "log2_num_buckets t' = ?n"
    by (simp add: t'_def HASH_EXPAND_BUCKETS_def Let_def prod.case_eq_if)
  moreover have "distinct xs" "set xs = set ([] @ ?ys)" using assms(2) ys(2) by (simp_all add: buckets_ok_def)
  ultimately show "buckets_ok hashv (log2_num_buckets t') (buckets t') xs"
    using buckets_ok_perm [OF *] by metis
qed (simp_all add: t'_def HASH_EXPAND_BUCKETS_def Let_def assms(1) split: prod.split)

lemma add_to_bkt_ok:
  assumes "num_buckets t = 2 ^ log2_num_buckets t" and "buckets_ok hashv (log2_num_buckets t) (buckets t) xs" and "a \<notin> set xs"
  defines "t' \<equiv> HASH_ADD_TO_BKT hashv (HASH_TO_BKT (hashv a) (num_buckets t)) a t"
  shows "buckets_ok hashv (log2_num_buckets t') (buckets t') (xs @ [a])" and "num_buckets t' = 2 ^ log2_num_buckets t'"
    and "app_order t' = app_order t" and "num_items t' = num_items t"
proof -
  let ?i = "HASH_TO_BKT (hashv a) (num_buckets t)"
  let ?b = "buckets t ! ?i"
  define u where "u = t\<lparr>buckets := (buckets t)[?i := ?b\<lparr>hh_head := a # hh_head ?b, bkt_count := bkt_count ?b + 1\<rparr>]\<rparr>"
  have b: "?b\<lparr>hh_head := a # hh_head ?b, bkt_count := bkt_count ?b + 1\<rparr> =
      \<lparr>hh_head = a # hh_head ?b, bkt_count = bkt_count ?b + 1, expand_mult = expand_mult ?b\<rparr>" by simp
  have ok: "buckets_ok hashv (log2_num_buckets u) (buckets u) (xs @ [a])" and nb: "num_buckets u = 2 ^ log2_num_buckets u"
    using buckets_ok_push [OF assms(2,3), of "expand_mult ?b"] assms(1) unfolding u_def b by simp_all
  have t': "t' = u \<or> t' = HASH_EXPAND_BUCKETS hashv u"
    by (simp add: t'_def HASH_ADD_TO_BKT_def u_def Let_def)
  have u: "app_order u = app_order t" "num_items u = num_items t" by (simp_all add: u_def)
  show "buckets_ok hashv (log2_num_buckets t') (buckets t') (xs @ [a])" "num_buckets t' = 2 ^ log2_num_buckets t'"
    "app_order t' = app_order t" "num_items t' = num_items t"
    using t' ok nb u expand_ok [OF nb ok] by auto
qed

lemma HASH_ADD_ok:
  assumes "ut_ok hashv head" and "a \<notin> set (app_list head)"
  defines "t \<equiv> HASH_ADD_KEYPTR hashv head a"
  shows "ut_ok hashv (Some t)" and "app_order t = app_list head @ [a]"
proof -
  define u where "u = (case head of None \<Rightarrow> HASH_MAKE_TABLE a | Some t \<Rightarrow> t\<lparr>app_order := app_order t @ [a]\<rparr>)"
  define v where "v = u\<lparr>num_items := num_items u + 1\<rparr>"
  have "buckets_ok hashv 5 (replicate 32 empty_bucket) []" using buckets_ok_empty [of hashv 5] by simp
  then have v: "num_buckets v = 2 ^ log2_num_buckets v" "buckets_ok hashv (log2_num_buckets v) (buckets v) (app_list head)"
    "app_order v = app_list head @ [a]" "num_items v = length (app_list head @ [a])"
    using assms(1) by (auto simp: v_def u_def HASH_MAKE_TABLE_def ut_ok_def app_list_def split: option.splits)
  have "t = HASH_ADD_TO_BKT hashv (HASH_TO_BKT (hashv a) (num_buckets v)) a v"
    by (simp add: t_def HASH_ADD_KEYPTR_def Let_def u_def v_def)
  then show "ut_ok hashv (Some t)" "app_order t = app_list head @ [a]"
    using add_to_bkt_ok [OF v(1,2) assms(2)] v(3,4) by (simp_all add: ut_ok_def)
qed

lemma HASH_DELETE_ok:
  assumes "ut_ok hashv (Some t)" and "a \<in> set (app_order t)"
  shows "ut_ok hashv (HASH_DELETE hashv t a)" and "app_list (HASH_DELETE hashv t a) = remove1 a (app_order t)"
proof -
  let ?n = "log2_num_buckets t"
  let ?i = "HASH_TO_BKT (hashv a) (2 ^ ?n)"
  have i: "?i < 2 ^ ?n" by (rule HASH_TO_BKT_less)
  have ok: "buckets_ok hashv ?n (buckets t) (app_order t)" "num_buckets t = 2 ^ ?n" "num_items t = length (app_order t)"
    using assms(1) by (simp_all add: ut_ok_def)
  have dist: "distinct (app_order t)" using ok(1) by (simp add: buckets_ok_def)
  have "a \<in> set (hh_head (buckets t ! ?i))" using ok(1) i assms(2) by (auto simp: buckets_ok_def)
  then have "buckets_ok hashv ?n ((buckets t)[?i := (buckets t ! ?i)\<lparr>hh_head := remove1 a (hh_head (buckets t ! ?i)),
      bkt_count := bkt_count (buckets t ! ?i) - 1\<rparr>]) (remove1 a (app_order t))"
    using ok(1) i dist by (auto simp: buckets_ok_def nth_list_update length_remove1)
  moreover have "remove1 a (app_order t) \<noteq> []" if "app_order t \<noteq> [a]"
    using that assms(2) by (cases "app_order t") (auto split: if_splits)
  ultimately show "ut_ok hashv (HASH_DELETE hashv t a)" "app_list (HASH_DELETE hashv t a) = remove1 a (app_order t)"
    using ok assms(2) by (simp_all add: HASH_DELETE_def Let_def ut_ok_def app_list_def length_remove1)
qed

section \<open>Tables with their store\<close>

text \<open>What Map and Set do with the macros: look an element up, add a new cell, overwrite a payload, remove and free a cell.\<close>

type_synonym ('k, 'v) table = "UT_hash_table option \<times> ('k, 'v) store"

definition table_empty :: "('k, 'v) table" where
  "table_empty = (None, Map.empty)"

definition table_find :: "('k \<Rightarrow> nat) \<Rightarrow> ('k \<Rightarrow> 'k \<Rightarrow> int) \<Rightarrow> ('k, 'v) table \<Rightarrow> 'k \<Rightarrow> nat option" where
  "table_find hash cmp T k = HASH_FIND hash cmp (snd T) (fst T) k"

definition table_insert :: "('k \<Rightarrow> nat) \<Rightarrow> ('k, 'v) table \<Rightarrow> nat \<Rightarrow> 'k \<Rightarrow> 'v \<Rightarrow> ('k, 'v) table" where
  "table_insert hash T a k v =
     (let \<mu> = (snd T)(a \<mapsto> \<lparr>c_key = k, c_val = v, c_hashv = hash k\<rparr>)
      in (Some (HASH_ADD_KEYPTR (hash_of \<mu>) (fst T) a), \<mu>))"

definition table_update :: "('k, 'v) table \<Rightarrow> nat \<Rightarrow> 'v \<Rightarrow> ('k, 'v) table" where
  "table_update T a v = (fst T, (snd T)(a := map_option (\<lambda>c. c\<lparr>c_val := v\<rparr>) (snd T a)))"

definition table_remove :: "('k, 'v) table \<Rightarrow> nat \<Rightarrow> ('k, 'v) table" where
  "table_remove T a =
     (case fst T of None \<Rightarrow> T | Some t \<Rightarrow> (HASH_DELETE (hash_of (snd T)) t a, (snd T)(a := None)))"

definition table_order :: "('k, 'v) table \<Rightarrow> nat list" where
  "table_order T = app_list (fst T)"

definition table_cell :: "('k, 'v) table \<Rightarrow> nat \<Rightarrow> 'k \<times> 'v" where
  "table_cell T a = (case snd T a of Some c \<Rightarrow> (c_key c, c_val c) | None \<Rightarrow> undefined)"

definition table_entries :: "('k, 'v) table \<Rightarrow> ('k \<times> 'v) list" where
  "table_entries T = map (table_cell T) (table_order T)"

text \<open>
  Every listed address holds a cell with the hash of its key; no cell is unlisted; no two keys are equal.
\<close>

definition table_ok :: "'k set \<Rightarrow> ('k \<Rightarrow> nat) \<Rightarrow> ('k \<Rightarrow> 'k \<Rightarrow> int) \<Rightarrow> ('k, 'v) table \<Rightarrow> bool" where
  "table_ok K hash cmp T \<longleftrightarrow>
     ut_ok (hash_of (snd T)) (fst T) \<and> dom (snd T) = set (table_order T) \<and>
     (\<forall>a c. snd T a = Some c \<longrightarrow> c_key c \<in> K \<and> c_hashv c = hash (c_key c)) \<and>
     (\<forall>a b c d. snd T a = Some c \<longrightarrow> snd T b = Some d \<longrightarrow> cmp (c_key c) (c_key d) = 0 \<longrightarrow> a = b)"

section \<open>The contract of hash and comparison\<close>

text \<open>
  What the table needs of \<^verbatim>\<open>HASH_FUNCTION\<close> and \<^verbatim>\<open>HASH_KEYCOMPARE\<close> on the
  keys in use: the comparison's zero is an equivalence, and equal keys hash alike.
\<close>

lemma find_unique: "(\<And>x. P x \<Longrightarrow> x \<in> set xs) \<Longrightarrow> (\<And>x y. P x \<Longrightarrow> P y \<Longrightarrow> x = y) \<Longrightarrow> find P xs = Some a \<longleftrightarrow> P a"
  by (metis find_None_iff find_Some_iff not_None_eq)

lemma ut_ok_cong:
  assumes "ut_ok f head" and "\<And>a. a \<in> set (app_list head) \<Longrightarrow> f a = g a"
  shows "ut_ok g head"
proof (cases head)
  case (Some t)
  then have "{a \<in> set (app_order t). HASH_TO_BKT (f a) n = i} = {a \<in> set (app_order t). HASH_TO_BKT (g a) n = i}" for n i
    using assms(2) by (auto simp: app_list_def)
  then show ?thesis using assms(1) Some by (simp add: ut_ok_def buckets_ok_def)
qed (simp add: ut_ok_def)

locale hash_keys =
  fixes K :: "'k set" and hash :: "'k \<Rightarrow> nat" and cmp :: "'k \<Rightarrow> 'k \<Rightarrow> int"
  assumes key_refl: "k \<in> K \<Longrightarrow> cmp k k = 0"
    and key_sym: "k \<in> K \<Longrightarrow> l \<in> K \<Longrightarrow> cmp k l = 0 \<Longrightarrow> cmp l k = 0"
    and key_trans: "k \<in> K \<Longrightarrow> l \<in> K \<Longrightarrow> m \<in> K \<Longrightarrow> cmp k l = 0 \<Longrightarrow> cmp l m = 0 \<Longrightarrow> cmp k m = 0"
    and key_hash: "k \<in> K \<Longrightarrow> l \<in> K \<Longrightarrow> cmp k l = 0 \<Longrightarrow> hash k = hash l"
begin

lemma table_okD:
  assumes "table_ok K hash cmp T"
  shows "ut_ok (hash_of (snd T)) (fst T)" and "dom (snd T) = set (table_order T)"
    and "snd T a = Some c \<Longrightarrow> c_key c \<in> K" and "snd T a = Some c \<Longrightarrow> c_hashv c = hash (c_key c)"
    and "snd T a = Some c \<Longrightarrow> snd T b = Some d \<Longrightarrow> cmp (c_key c) (c_key d) = 0 \<Longrightarrow> a = b"
  using assms unfolding table_ok_def by blast+

lemma table_okI:
  assumes "ut_ok (hash_of (snd T)) (fst T)" and "dom (snd T) = set (table_order T)"
    and "\<And>a c. snd T a = Some c \<Longrightarrow> c_key c \<in> K \<and> c_hashv c = hash (c_key c)"
    and "\<And>a b c d. snd T a = Some c \<Longrightarrow> snd T b = Some d \<Longrightarrow> cmp (c_key c) (c_key d) = 0 \<Longrightarrow> a = b"
  shows "table_ok K hash cmp T"
  using assms unfolding table_ok_def by blast

lemma order_distinct: "table_ok K hash cmp T \<Longrightarrow> distinct (table_order T)"
  by (auto simp: table_ok_def table_order_def app_list_def ut_ok_def buckets_ok_def split: option.splits)

lemma find_iff:
  assumes ok: "table_ok K hash cmp T" and k: "k \<in> K"
  shows "table_find hash cmp T k = Some a \<longleftrightarrow> (\<exists>c. snd T a = Some c \<and> cmp (c_key c) k = 0)"
proof (cases "fst T")
  case None
  then show ?thesis using ok by (auto simp: table_find_def HASH_FIND_def table_ok_def table_order_def app_list_def)
next
  case (Some t)
  let ?i = "HASH_TO_BKT (hash k) (2 ^ log2_num_buckets t)"
  let ?chain = "hh_head (buckets t ! ?i)"
  let ?P = "\<lambda>a. case snd T a of Some c \<Rightarrow> cmp (c_key c) k = 0 | None \<Rightarrow> False"
  have ut: "num_buckets t = 2 ^ log2_num_buckets t" "set ?chain = {a \<in> set (app_order t). HASH_TO_BKT (hash_of (snd T) a) (2 ^ log2_num_buckets t) = ?i}"
    using ok Some HASH_TO_BKT_less [of "hash k"] by (auto simp: table_ok_def ut_ok_def buckets_ok_def)
  have dom: "dom (snd T) = set (app_order t)" using ok Some by (auto simp: table_ok_def table_order_def app_list_def)
  have "a \<in> set ?chain" if "snd T a = Some c" "cmp (c_key c) k = 0" for a c
  proof -
    have "c_key c \<in> K" "c_hashv c = hash (c_key c)" using ok that(1) by (auto simp: table_ok_def)
    then have "hash_of (snd T) a = hash k" using key_hash [OF _ k that(2)] that(1) by (simp add: hash_of_def)
    then show ?thesis using ut(2) dom that(1) by auto
  qed
  moreover have "a = b" if "snd T a = Some c" "cmp (c_key c) k = 0" "snd T b = Some d" "cmp (c_key d) k = 0" for a b c d
  proof -
    have "c_key c \<in> K" "c_key d \<in> K" using ok that by (auto simp: table_ok_def)
    then have "cmp (c_key c) (c_key d) = 0" using key_trans key_sym k that(2,4) by blast
    then show ?thesis using ok that by (auto simp: table_ok_def)
  qed
  moreover have "table_find hash cmp T k = find ?P ?chain"
    by (simp add: table_find_def HASH_FIND_def HASH_FIND_IN_BKT_def Some ut(1))
  ultimately show ?thesis
    using find_unique [of ?P ?chain a] by (auto split: option.splits)
qed

lemma find_None_iff_keys:
  assumes "table_ok K hash cmp T" and "k \<in> K"
  shows "table_find hash cmp T k = None \<longleftrightarrow> (\<forall>a c. snd T a = Some c \<longrightarrow> cmp (c_key c) k \<noteq> 0)"
  using find_iff [OF assms] by (metis not_None_eq)

lemma empty_ok: "table_ok K hash cmp table_empty"
  by (simp add: table_ok_def table_empty_def ut_ok_def table_order_def app_list_def)

lemma insert_ok:
  fixes v :: 'v
  assumes ok: "table_ok K hash cmp T" and k: "k \<in> K" and none: "table_find hash cmp T k = None" and a: "snd T a = None"
  defines "T' \<equiv> table_insert hash T a k v"
  shows "table_ok K hash cmp T'" and "table_order T' = table_order T @ [a]"
    and "snd T' = (snd T)(a \<mapsto> \<lparr>c_key = k, c_val = v, c_hashv = hash k\<rparr>)"
proof -
  show s: "snd T' = (snd T)(a \<mapsto> \<lparr>c_key = k, c_val = v, c_hashv = hash k\<rparr>)"
    by (simp add: T'_def table_insert_def Let_def)
  have notin: "a \<notin> set (app_list (fst T))" using ok a by (auto simp: table_ok_def table_order_def)
  then have "ut_ok (hash_of (snd T')) (fst T)"
    by (intro ut_ok_cong [OF table_okD(1) [OF ok]]) (auto simp: s hash_of_def)
  note add = HASH_ADD_ok [OF this notin]
  have f: "fst T' = Some (HASH_ADD_KEYPTR (hash_of (snd T')) (fst T) a)"
    unfolding s by (simp add: T'_def table_insert_def Let_def)
  show ord: "table_order T' = table_order T @ [a]" using add(2) f by (simp add: table_order_def app_list_def)
  have "cmp (c_key c) k \<noteq> 0 \<and> cmp k (c_key c) \<noteq> 0" if "snd T b = Some c" for b c
    using none that find_None_iff_keys [OF ok k] key_sym [OF k, of "c_key c"] ok by (auto simp: table_ok_def)
  then show "table_ok K hash cmp T'"
    using ok add(1) f ord k unfolding table_ok_def by (auto simp: s split: if_splits)
qed

lemma update_ok:
  assumes ok: "table_ok K hash cmp T"
  shows "table_ok K hash cmp (table_update T a v)" and "table_order (table_update T a v) = table_order T"
proof -
  have h: "hash_of (snd (table_update T a v)) = hash_of (snd T)"
    by (rule ext) (simp add: table_update_def hash_of_def split: option.split)
  have d: "dom (snd (table_update T a v)) = dom (snd T)" by (auto simp: table_update_def split: if_splits)
  have c: "\<exists>d. snd T b = Some d \<and> c_key c = c_key d \<and> c_hashv c = c_hashv d" if "snd (table_update T a v) b = Some c" for b c
    using that by (auto simp: table_update_def split: if_splits)
  show o': "table_order (table_update T a v) = table_order T" by (simp add: table_order_def table_update_def)
  have f: "fst (table_update T a v) = fst T" by (simp add: table_update_def)
  note D = table_okD [OF ok]
  show "table_ok K hash cmp (table_update T a v)"
  proof (rule table_okI)
    show "a' = b" if "snd (table_update T a v) a' = Some c'" "snd (table_update T a v) b = Some d'" "cmp (c_key c') (c_key d') = 0"
      for a' b c' d' using c [OF that(1)] c [OF that(2)] that(3) D(5) by metis
    show "c_key c' \<in> K \<and> c_hashv c' = hash (c_key c')" if "snd (table_update T a v) a' = Some c'" for a' c'
      using c [OF that] D(3,4) by metis
  qed (simp_all only: h d o' f D(1,2))
qed

lemma remove_ok:
  assumes ok: "table_ok K hash cmp T" and a: "snd T a \<noteq> None"
  shows "table_ok K hash cmp (table_remove T a)" and "table_order (table_remove T a) = remove1 a (table_order T)"
    and "snd (table_remove T a) = (snd T)(a := None)"
proof -
  have "a \<in> set (app_list (fst T))" using ok a by (auto simp: table_ok_def table_order_def)
  then obtain t where t: "fst T = Some t" "a \<in> set (app_order t)" by (cases "fst T") (auto simp: app_list_def)
  then have rm: "table_remove T a = (HASH_DELETE (hash_of (snd T)) t a, (snd T)(a := None))" by (simp add: table_remove_def)
  show s: "snd (table_remove T a) = (snd T)(a := None)" by (simp add: rm)
  have ut: "ut_ok (hash_of (snd T)) (Some t)" using ok t by (simp add: table_ok_def)
  note del = HASH_DELETE_ok [OF ut t(2)]
  show ord: "table_order (table_remove T a) = remove1 a (table_order T)"
    using del(2) t by (simp add: table_order_def rm app_list_def)
  have set: "set (remove1 a (table_order T)) = set (table_order T) - {a}" using order_distinct [OF ok] by simp
  have "a \<notin> set (app_list (fst (table_remove T a)))" using ord set by (simp add: table_order_def)
  then have "hash_of (snd T) b = hash_of (snd (table_remove T a)) b" if "b \<in> set (app_list (fst (table_remove T a)))" for b
    using that by (auto simp: s hash_of_def)
  moreover have "ut_ok (hash_of (snd T)) (fst (table_remove T a))" using del(1) by (simp add: rm)
  ultimately have "ut_ok (hash_of (snd (table_remove T a))) (fst (table_remove T a))" by (metis ut_ok_cong)
  then show "table_ok K hash cmp (table_remove T a)"
  proof (rule table_okI)
    show "dom (snd (table_remove T a)) = set (table_order (table_remove T a))"
      using table_okD(2) [OF ok] by (simp add: s ord set)
  qed (use table_okD(3-5) [OF ok] in \<open>simp_all add: s split: if_splits\<close>)
qed

lemma count_order: "table_ok K hash cmp T \<Longrightarrow> HASH_COUNT (fst T) = length (table_order T)"
  by (auto simp: table_ok_def ut_ok_def HASH_COUNT_def table_order_def app_list_def split: option.splits)

end

section \<open>The table as an association list\<close>

text \<open>
  The entries in application order are the abstract state. Finding, inserting, overwriting and removing
  act on them as on an association list whose keys are equal when their comparison is zero.
\<close>

definition assoc_find :: "('k \<Rightarrow> 'k \<Rightarrow> int) \<Rightarrow> 'k \<Rightarrow> ('k \<times> 'v) list \<Rightarrow> 'v option" where
  "assoc_find cmp k es = map_option snd (find (\<lambda>e. cmp (fst e) k = 0) es)"

definition assoc_put :: "('k \<Rightarrow> 'k \<Rightarrow> int) \<Rightarrow> 'k \<Rightarrow> 'v \<Rightarrow> ('k \<times> 'v) list \<Rightarrow> ('k \<times> 'v) list" where
  "assoc_put cmp k v es =
     (if list_ex (\<lambda>e. cmp (fst e) k = 0) es then map (\<lambda>e. if cmp (fst e) k = 0 then (fst e, v) else e) es
      else es @ [(k, v)])"

definition assoc_del :: "('k \<Rightarrow> 'k \<Rightarrow> int) \<Rightarrow> 'k \<Rightarrow> ('k \<times> 'v) list \<Rightarrow> ('k \<times> 'v) list" where
  "assoc_del cmp k es = filter (\<lambda>e. cmp (fst e) k \<noteq> 0) es"

text \<open>Keys pairwise different: the invariant of the association list.\<close>

definition assoc_ok :: "'k set \<Rightarrow> ('k \<Rightarrow> 'k \<Rightarrow> int) \<Rightarrow> ('k \<times> 'v) list \<Rightarrow> bool" where
  "assoc_ok K cmp es \<longleftrightarrow> fst ` set es \<subseteq> K \<and> (\<forall>i < length es. \<forall>j < length es. cmp (fst (es ! i)) (fst (es ! j)) = 0 \<longrightarrow> i = j)"

lemma find_of_map: "find P (map f xs) = map_option f (find (\<lambda>x. P (f x)) xs)"
  by (induction xs) auto

context hash_keys
begin

lemma cell_listed: "table_ok K hash cmp T \<Longrightarrow> a \<in> set (table_order T) \<longleftrightarrow> (\<exists>c. snd T a = Some c)"
  using table_okD(2) [of T] by auto

lemma entry_cell: "snd T a = Some c \<Longrightarrow> table_cell T a = (c_key c, c_val c)"
  by (simp add: table_cell_def)

lemma found_cell:
  assumes "table_ok K hash cmp T" and "k \<in> K" and "table_find hash cmp T k = Some a"
  obtains c where "snd T a = Some c" "cmp (c_key c) k = 0" "a \<in> set (table_order T)"
  using assms find_iff [OF assms(1,2)] cell_listed [OF assms(1)] by metis

lemma found_iff:
  assumes "table_ok K hash cmp T" and "k \<in> K" and "table_find hash cmp T k = Some a" and "b \<in> set (table_order T)"
  shows "cmp (fst (table_cell T b)) k = 0 \<longleftrightarrow> b = a"
proof -
  obtain c where "snd T b = Some c" using assms(1,4) cell_listed by metis
  then show ?thesis using find_iff [OF assms(1,2)] assms(3) by (metis entry_cell fst_conv option.sel)
qed

lemma not_found:
  assumes "table_ok K hash cmp T" and "k \<in> K" and "table_find hash cmp T k = None" and "e \<in> set (table_entries T)"
  shows "cmp (fst e) k \<noteq> 0"
  using assms find_None_iff_keys [OF assms(1,2)] cell_listed [OF assms(1)]
  by (auto simp: table_entries_def entry_cell)

lemma entries_insert:
  assumes "table_ok K hash cmp T" and "k \<in> K" and "table_find hash cmp T k = None" and "snd T a = None"
  shows "table_entries (table_insert hash T a k v) = table_entries T @ [(k, v)]"
proof -
  note i = insert_ok [OF assms]
  have "table_cell (table_insert hash T a k v) b = table_cell T b" if "b \<in> set (table_order T)" for b
    using cell_listed [OF assms(1)] assms(4) that by (auto simp: table_cell_def i(3))
  then show ?thesis by (simp add: table_entries_def i(2) table_cell_def i(3))
qed

lemma entries_update:
  assumes "table_ok K hash cmp T" and "k \<in> K" and "table_find hash cmp T k = Some a"
  shows "table_entries (table_update T a v) = map (\<lambda>e. if cmp (fst e) k = 0 then (fst e, v) else e) (table_entries T)"
proof -
  have "table_cell (table_update T a v) b = (if cmp (fst (table_cell T b)) k = 0 then (fst (table_cell T b), v) else table_cell T b)"
    if b: "b \<in> set (table_order T)" for b
  proof -
    obtain c where c: "snd T b = Some c" using cell_listed [OF assms(1)] b by metis
    have "table_cell (table_update T a v) b = (c_key c, if b = a then v else c_val c)"
      using c by (auto simp: table_cell_def table_update_def)
    then show ?thesis using found_iff [OF assms b] entry_cell [OF c] by auto
  qed
  then show ?thesis using update_ok(2) [OF assms(1), of a v] by (simp add: table_entries_def)
qed

lemma entries_remove:
  assumes "table_ok K hash cmp T" and "k \<in> K" and "table_find hash cmp T k = Some a"
  shows "table_entries (table_remove T a) = filter (\<lambda>e. cmp (fst e) k \<noteq> 0) (table_entries T)"
proof -
  have a: "snd T a \<noteq> None" using found_cell [OF assms] by (metis not_None_eq)
  note r = remove_ok [OF assms(1) a]
  have "table_cell (table_remove T a) b = table_cell T b" if "b \<in> set (remove1 a (table_order T))" for b
    using that order_distinct [OF assms(1)] by (auto simp: table_cell_def r(3))
  moreover have "remove1 a (table_order T) = filter (\<lambda>b. cmp (fst (table_cell T b)) k \<noteq> 0) (table_order T)"
    using found_iff [OF assms] order_distinct [OF assms(1)]
    by (auto simp: distinct_remove1_removeAll removeAll_filter_not_eq intro!: filter_cong)
  ultimately show ?thesis unfolding table_entries_def r(2) by (simp add: filter_map comp_def)
qed

lemma entries_find:
  assumes "table_ok K hash cmp T" and "k \<in> K"
  shows "map_option (\<lambda>a. snd (table_cell T a)) (table_find hash cmp T k) = assoc_find cmp k (table_entries T)"
proof (cases "table_find hash cmp T k")
  case None
  then show ?thesis using not_found [OF assms None] by (auto simp: assoc_find_def find_None_iff)
next
  case (Some a)
  have "find (\<lambda>b. cmp (fst (table_cell T b)) k = 0) (table_order T) = find (\<lambda>b. b = a) (table_order T)"
    using found_iff [OF assms Some] by (intro find_cong) auto
  also have "\<dots> = Some a" using found_cell [OF assms Some] by (intro find_unique [THEN iffD2]) auto
  finally show ?thesis by (simp add: Some assoc_find_def table_entries_def find_of_map)
qed

lemma found_ex:
  assumes "table_ok K hash cmp T" and "k \<in> K"
  shows "list_ex (\<lambda>e. cmp (fst e) k = 0) (table_entries T) \<longleftrightarrow> table_find hash cmp T k \<noteq> None"
proof (cases "table_find hash cmp T k")
  case None
  then show ?thesis using not_found [OF assms None] by (auto simp: list_ex_iff)
next
  case (Some a)
  then obtain c where "snd T a = Some c" "cmp (c_key c) k = 0" "a \<in> set (table_order T)" using found_cell [OF assms] by metis
  then show ?thesis using Some by (auto simp: list_ex_iff table_entries_def intro!: bexI [of _ a] simp: entry_cell)
qed

lemma entries_ok:
  assumes "table_ok K hash cmp T"
  shows "assoc_ok K cmp (table_entries T)"
proof -
  have c: "\<exists>c. snd T (table_order T ! i) = Some c" if "i < length (table_order T)" for i
    using cell_listed [OF assms] that by (metis nth_mem)
  have "i = j" if "i < length (table_order T)" "j < length (table_order T)" "cmp (fst (table_entries T ! i)) (fst (table_entries T ! j)) = 0" for i j
  proof -
    note ij = that
    obtain c d where cd: "snd T (table_order T ! i) = Some c" "snd T (table_order T ! j) = Some d"
      using c ij(1,2) by metis
    then have "cmp (c_key c) (c_key d) = 0" using ij by (simp add: table_entries_def entry_cell)
    then have "table_order T ! i = table_order T ! j" using table_okD(5) [OF assms] cd by metis
    then show ?thesis using order_distinct [OF assms] ij(1,2) by (simp add: nth_eq_iff_index_eq)
  qed
  moreover have "fst ` set (table_entries T) \<subseteq> K"
    using cell_listed [OF assms] table_okD(3) [OF assms] by (auto simp: table_entries_def entry_cell)
  ultimately show ?thesis by (simp add: assoc_ok_def table_entries_def)
qed

end

end
