(* ===== verification/ValueHash.thy ===== *)
theory ValueHash
  imports BigNumbers Types Uthash
begin

text \<open>
  \<^verbatim>\<open>php_scylladb_value_hash\<close> and \<^verbatim>\<open>php_scylladb_value_compare\<close>
  (\<^verbatim>\<open>src/Type/ValueHash.c\<close>) with the \<^verbatim>\<open>hash_value\<close> and
  \<^verbatim>\<open>compare\<close> handlers of the value classes they dispatch to. The results of
  \<^verbatim>\<open>memcmp\<close> and \<^verbatim>\<open>strcmp\<close> are modelled by their sign. Nested objects
  are values: the caching of a nested object's hash is not visible here.
\<close>

section \<open>What the handlers get from outside\<close>

text \<open>
  PHP's string hash, the handlers of objects of other classes, the driver's type codes, and GMP.
\<close>

record php_env =
  zend_inline_hash_func :: "string \<Rightarrow> 64 word"
  other_hash :: "zval \<Rightarrow> 32 word"
  other_compare :: "zval \<Rightarrow> zval \<Rightarrow> int"
  type_codes :: "cass_value_type \<Rightarrow> nat"
  gmp_lib :: gmp

text \<open>The codes of \<^verbatim>\<open>Z_TYPE\<close>.\<close>

fun z_type :: "zval \<Rightarrow> nat" where
  "z_type ZNull = 1"
| "z_type ZFalse = 2"
| "z_type ZTrue = 3"
| "z_type (ZLong _) = 4"
| "z_type (ZDouble _) = 5"
| "z_type (ZString _) = 6"
| "z_type (ZArray _) = 7"
| "z_type _ = 8"

fun numeric_class :: "numeric \<Rightarrow> string" where
  "numeric_class (N_Bigint _) = ''Bigint''"
| "numeric_class (N_Decimal _ _) = ''Decimal''"
| "numeric_class (N_Float _) = ''Float''"
| "numeric_class (N_Varint _) = ''Varint''"
| "numeric_class (N_Smallint _) = ''Smallint''"
| "numeric_class (N_Tinyint _) = ''Tinyint''"

text \<open>The name of an object's class, without the namespace that all of them share.\<close>

fun type_object_class :: "cass_type \<Rightarrow> string" where
  "type_object_class (T_Scalar _) = ''Type/Scalar''"
| "type_object_class (T_Custom _) = ''Type/Custom''"
| "type_object_class (T_List _) = ''Type/Collection''"
| "type_object_class (T_Set _) = ''Type/Set''"
| "type_object_class (T_Map _ _) = ''Type/Map''"
| "type_object_class (T_Tuple _) = ''Type/Tuple''"
| "type_object_class (T_Udt _ _ _) = ''Type/UserType''"

fun class_name :: "zval \<Rightarrow> string" where
  "class_name (ZNumeric n) = numeric_class n"
| "class_name (ZBlob _) = ''Blob''"
| "class_name (ZInet _) = ''Inet''"
| "class_name (ZDuration _ _ _) = ''Duration''"
| "class_name (ZCollection _ _) = ''Collection''"
| "class_name (ZSet _ _ _) = ''Set''"
| "class_name (ZMap _ _ _) = ''Map''"
| "class_name (ZTuple _ _) = ''Tuple''"
| "class_name (ZUserType _ _) = ''UserTypeValue''"
| "class_name (ZUuid timeuuid _ _) = (if timeuuid then ''Timeuuid'' else ''Uuid'')"
| "class_name (ZTimestamp _) = ''Timestamp''"
| "class_name (ZDate _) = ''Date''"
| "class_name (ZTime _) = ''Time''"
| "class_name (ZType t) = type_object_class t"
| "class_name (ZObject c) = c"
| "class_name _ = []"

section \<open>The handlers of the classes\<close>

fun memcmp :: "byte list \<Rightarrow> byte list \<Rightarrow> int" where
  "memcmp (a # xs) (b # ys) = (if a < b then -1 else if b < a then 1 else memcmp xs ys)"
| "memcmp _ _ = 0"

definition bytes_text :: "byte list \<Rightarrow> string" where
  "bytes_text bs = map (\<lambda>b. char_of (unat b)) bs"

definition php_scylladb_blob_compare :: "byte list \<Rightarrow> byte list \<Rightarrow> int" where
  "php_scylladb_blob_compare a b =
     (if length a = length b then memcmp a b else if length a < length b then -1 else 1)"

definition php_scylladb_blob_hash_value :: "php_env \<Rightarrow> byte list \<Rightarrow> 32 word" where
  "php_scylladb_blob_hash_value E a = ucast (zend_inline_hash_func E (bytes_text a))"

definition php_scylladb_inet_compare :: "byte list \<Rightarrow> byte list \<Rightarrow> int" where
  "php_scylladb_inet_compare a b =
     (if length a \<noteq> length b then (if length a < length b then -1 else 1) else memcmp a b)"

definition php_scylladb_inet_hash_value :: "php_env \<Rightarrow> byte list \<Rightarrow> 32 word" where
  "php_scylladb_inet_hash_value E a = ucast (zend_inline_hash_func E (bytes_text a))"

definition php_scylladb_duration_compare :: "int \<times> int \<times> int \<Rightarrow> int \<times> int \<times> int \<Rightarrow> int" where
  "php_scylladb_duration_compare left right =
     (case (left, right) of ((m, d, n), (m', d', n')) \<Rightarrow>
        if m < m' then -1
        else if m > m' then 1
        else if d < d' then -1
        else if d > d' then 1
        else if n < n' then -1
        else if n = n' then 0 else 1)"

definition php_scylladb_duration_hash_value :: "int \<times> int \<times> int \<Rightarrow> 32 word" where
  "php_scylladb_duration_hash_value self =
     (case self of (months, days, nanos) \<Rightarrow>
        php_scylladb_combine_hash
          (php_scylladb_combine_hash (php_scylladb_combine_hash 0 (word_of_int months)) (word_of_int days)) (word_of_int nanos))"

definition php_scylladb_date_compare :: "int \<Rightarrow> int \<Rightarrow> int" where
  "php_scylladb_date_compare a b = php_scylladb_compare a b"

definition php_scylladb_date_hash_value :: "int \<Rightarrow> 32 word" where
  "php_scylladb_date_hash_value date = word_of_int (31 * 17 + date)"

definition php_scylladb_time_compare :: "int \<Rightarrow> int \<Rightarrow> int" where
  "php_scylladb_time_compare a b = php_scylladb_compare a b"

definition php_scylladb_time_hash_value :: "int \<Rightarrow> 32 word" where
  "php_scylladb_time_hash_value time = php_scylladb_bigint_hash time"

definition php_scylladb_timestamp_compare :: "int \<Rightarrow> int \<Rightarrow> int" where
  "php_scylladb_timestamp_compare a b = php_scylladb_compare a b"

definition php_scylladb_timestamp_hash_value :: "int \<Rightarrow> 32 word" where
  "php_scylladb_timestamp_hash_value timestamp = php_scylladb_bigint_hash timestamp"

definition php_scylladb_uuid_compare :: "64 word \<times> 64 word \<Rightarrow> 64 word \<times> 64 word \<Rightarrow> int" where
  "php_scylladb_uuid_compare a b =
     (if fst a \<noteq> fst b then (if fst a < fst b then -1 else 1)
      else if snd a \<noteq> snd b then (if snd a < snd b then -1 else 1)
      else 0)"

definition php_scylladb_uuid_hash_value :: "64 word \<times> 64 word \<Rightarrow> 32 word" where
  "php_scylladb_uuid_hash_value self =
     php_scylladb_combine_hash (php_scylladb_bigint_hash (sint (fst self))) (php_scylladb_bigint_hash (sint (snd self)))"

text \<open>Timeuuid has handlers of its own, with an unsigned shift.\<close>

definition php_scylladb_timeuuid_compare :: "64 word \<times> 64 word \<Rightarrow> 64 word \<times> 64 word \<Rightarrow> int" where
  "php_scylladb_timeuuid_compare a b =
     (if fst a \<noteq> fst b then (if fst a < fst b then -1 else 1)
      else if snd a \<noteq> snd b then (if snd a < snd b then -1 else 1)
      else 0)"

definition php_scylladb_timeuuid_hash_value :: "64 word \<times> 64 word \<Rightarrow> 32 word" where
  "php_scylladb_timeuuid_hash_value self =
     php_scylladb_combine_hash (ucast (xor (fst self) (drop_bit 32 (fst self)))) (ucast (xor (snd self) (drop_bit 32 (snd self))))"

fun numeric_hash :: "php_env \<Rightarrow> numeric \<Rightarrow> 32 word" where
  "numeric_hash E (N_Bigint n) = php_scylladb_bigint_hash_value n"
| "numeric_hash E (N_Decimal v s) = php_scylladb_decimal_hash_value (gmp_lib E) \<lparr>dec_value = v, dec_scale = s\<rparr>"
| "numeric_hash E (N_Float f) = php_scylladb_float_hash_value f"
| "numeric_hash E (N_Varint n) = php_scylladb_varint_hash_value (gmp_lib E) n"
| "numeric_hash E (N_Smallint n) = php_scylladb_smallint_hash_value n"
| "numeric_hash E (N_Tinyint n) = php_scylladb_tinyint_hash_value n"

fun numeric_compare :: "php_env \<Rightarrow> numeric \<Rightarrow> numeric \<Rightarrow> int" where
  "numeric_compare E (N_Bigint a) (N_Bigint b) = php_scylladb_bigint_compare a b"
| "numeric_compare E (N_Decimal v s) (N_Decimal v' s') =
     php_scylladb_decimal_compare (gmp_lib E) \<lparr>dec_value = v, dec_scale = s\<rparr> \<lparr>dec_value = v', dec_scale = s'\<rparr>"
| "numeric_compare E (N_Float a) (N_Float b) = php_scylladb_float_compare a b"
| "numeric_compare E (N_Varint a) (N_Varint b) = php_scylladb_varint_compare (gmp_lib E) a b"
| "numeric_compare E (N_Smallint a) (N_Smallint b) = php_scylladb_smallint_compare a b"
| "numeric_compare E (N_Tinyint a) (N_Tinyint b) = php_scylladb_tinyint_compare a b"
| "numeric_compare E n m = byte_compare (numeric_class n) (numeric_class m)"

section \<open>Hashes of values\<close>

definition combine_all :: "32 word list \<Rightarrow> 32 word" where
  "combine_all hs = foldl php_scylladb_combine_hash 0 hs"

fun php_scylladb_value_hash :: "php_env \<Rightarrow> zval \<Rightarrow> 32 word" where
  "php_scylladb_value_hash E (ZLong n) = php_scylladb_bigint_hash n"
| "php_scylladb_value_hash E (ZDouble d) = double_hash d"
| "php_scylladb_value_hash E ZTrue = 1"
| "php_scylladb_value_hash E ZFalse = 0"
| "php_scylladb_value_hash E (ZString s) = ucast (zend_inline_hash_func E s)"
| "php_scylladb_value_hash E ZNull = 0"
| "php_scylladb_value_hash E (ZArray _) = 0"
| "php_scylladb_value_hash E (ZNumeric n) = numeric_hash E n"
| "php_scylladb_value_hash E (ZBlob b) = php_scylladb_blob_hash_value E b"
| "php_scylladb_value_hash E (ZInet b) = php_scylladb_inet_hash_value E b"
| "php_scylladb_value_hash E (ZDuration m d n) = php_scylladb_duration_hash_value (m, d, n)"
| "php_scylladb_value_hash E (ZUuid timeuuid a b) =
     (if timeuuid then php_scylladb_timeuuid_hash_value (a, b) else php_scylladb_uuid_hash_value (a, b))"
| "php_scylladb_value_hash E (ZTimestamp n) = php_scylladb_timestamp_hash_value n"
| "php_scylladb_value_hash E (ZDate n) = php_scylladb_date_hash_value n"
| "php_scylladb_value_hash E (ZTime n) = php_scylladb_time_hash_value n"
| "php_scylladb_value_hash E (ZCollection _ vs) = combine_all (map (php_scylladb_value_hash E) vs)"
| "php_scylladb_value_hash E (ZSet _ _ vs) = combine_all (map (php_scylladb_value_hash E) vs)"
| "php_scylladb_value_hash E (ZMap _ _ kvs) =
     combine_all (concat (map (\<lambda>p. [php_scylladb_value_hash E (fst p), php_scylladb_value_hash E (snd p)]) kvs))"
| "php_scylladb_value_hash E (ZTuple _ vs) = combine_all (map (\<lambda>p. php_scylladb_value_hash E (snd p)) vs)"
| "php_scylladb_value_hash E (ZUserType _ vs) = combine_all (map (\<lambda>p. php_scylladb_value_hash E (snd p)) vs)"
| "php_scylladb_value_hash E (ZType t) = other_hash E (ZType t)"
| "php_scylladb_value_hash E (ZObject c) = other_hash E (ZObject c)"

section \<open>Comparison of values\<close>

text \<open>
  The handlers of the containers, given the comparison of their elements. Collection, Tuple and
  UserTypeValue walk both hash tables in their order; Set and Map look each element up in the other
  table, where two keys meet in a chain when the low bits of their hashes agree.
\<close>

fun walk_compare :: "('a \<Rightarrow> 'b \<Rightarrow> int) \<Rightarrow> 'a list \<Rightarrow> 'b list \<Rightarrow> int" where
  "walk_compare cmp (v # vs) (w # ws) = (let r = cmp v w in if r \<noteq> 0 then r else walk_compare cmp vs ws)"
| "walk_compare cmp _ _ = 0"

definition type_count_compare :: "php_env \<Rightarrow> cass_type \<Rightarrow> cass_type \<Rightarrow> nat \<Rightarrow> nat \<Rightarrow> int \<Rightarrow> int" where
  "type_count_compare E t u n m rest =
     (let r = php_scylladb_type_compare (type_codes E) t u
      in if r \<noteq> 0 then r else if n \<noteq> m then (if n < m then -1 else 1) else rest)"

definition php_scylladb_collection_compare ::
    "php_env \<Rightarrow> (zval \<Rightarrow> zval \<Rightarrow> int) \<Rightarrow> cass_type \<times> zval list \<Rightarrow> cass_type \<times> zval list \<Rightarrow> int" where
  "php_scylladb_collection_compare E cmp a b =
     type_count_compare E (fst a) (fst b) (length (snd a)) (length (snd b)) (walk_compare cmp (snd a) (snd b))"

definition php_scylladb_tuple_compare ::
    "php_env \<Rightarrow> (zval \<Rightarrow> zval \<Rightarrow> int) \<Rightarrow> cass_type \<times> (nat \<times> zval) list \<Rightarrow> cass_type \<times> (nat \<times> zval) list \<Rightarrow> int" where
  "php_scylladb_tuple_compare E cmp a b =
     type_count_compare E (fst a) (fst b) (length (snd a)) (length (snd b))
       (walk_compare (\<lambda>v w. cmp (snd v) (snd w)) (snd a) (snd b))"

definition php_scylladb_user_type_value_compare ::
    "php_env \<Rightarrow> (zval \<Rightarrow> zval \<Rightarrow> int) \<Rightarrow> cass_type \<times> (string \<times> zval) list \<Rightarrow> cass_type \<times> (string \<times> zval) list \<Rightarrow> int" where
  "php_scylladb_user_type_value_compare E cmp a b =
     type_count_compare E (fst a) (fst b) (length (snd a)) (length (snd b))
       (walk_compare (\<lambda>v w. cmp (snd v) (snd w)) (snd a) (snd b))"

definition same_bucket :: "php_env \<Rightarrow> nat \<Rightarrow> zval \<Rightarrow> zval \<Rightarrow> bool" where
  "same_bucket E n v w \<longleftrightarrow>
     HASH_TO_BKT (unat (php_scylladb_value_hash E v)) n = HASH_TO_BKT (unat (php_scylladb_value_hash E w)) n"

fun set_loop :: "php_env \<Rightarrow> (zval \<Rightarrow> zval \<Rightarrow> int) \<Rightarrow> nat \<Rightarrow> zval list \<Rightarrow> zval list \<Rightarrow> int" where
  "set_loop E cmp m [] ws = 0"
| "set_loop E cmp m (v # vs) ws =
     (if list_ex (\<lambda>w. same_bucket E m w v \<and> cmp w v = 0) ws then set_loop E cmp m vs ws else 1)"

fun map_loop :: "php_env \<Rightarrow> (zval \<Rightarrow> zval \<Rightarrow> int) \<Rightarrow> nat \<Rightarrow> (zval \<times> zval) list \<Rightarrow> (zval \<times> zval) list \<Rightarrow> int" where
  "map_loop E cmp m [] lws = 0"
| "map_loop E cmp m (kv # kvs) lws =
     (case find (\<lambda>lw. same_bucket E m (fst lw) (fst kv) \<and> cmp (fst lw) (fst kv) = 0) lws of
        None \<Rightarrow> 1
      | Some lw \<Rightarrow> (let r = cmp (snd kv) (snd lw) in if r \<noteq> 0 then r else map_loop E cmp m kvs lws))"

definition php_scylladb_set_compare ::
    "php_env \<Rightarrow> (zval \<Rightarrow> zval \<Rightarrow> int) \<Rightarrow> cass_type \<times> nat \<times> zval list \<Rightarrow> cass_type \<times> nat \<times> zval list \<Rightarrow> int" where
  "php_scylladb_set_compare E cmp a b =
     type_count_compare E (fst a) (fst b) (length (snd (snd a))) (length (snd (snd b)))
       (set_loop E cmp (fst (snd b)) (snd (snd a)) (snd (snd b)))"

definition php_scylladb_map_compare ::
    "php_env \<Rightarrow> (zval \<Rightarrow> zval \<Rightarrow> int) \<Rightarrow> cass_type \<times> nat \<times> (zval \<times> zval) list \<Rightarrow> cass_type \<times> nat \<times> (zval \<times> zval) list \<Rightarrow> int" where
  "php_scylladb_map_compare E cmp a b =
     type_count_compare E (fst a) (fst b) (length (snd (snd a))) (length (snd (snd b)))
       (map_loop E cmp (fst (snd b)) (snd (snd a)) (snd (snd b)))"

text \<open>The containers of a value, for the handlers that read them.\<close>

definition collection_of :: "zval \<Rightarrow> (cass_type \<times> zval list) option" where
  "collection_of v = (case v of ZCollection t vs \<Rightarrow> Some (t, vs) | _ \<Rightarrow> None)"

definition tuple_of :: "zval \<Rightarrow> (cass_type \<times> (nat \<times> zval) list) option" where
  "tuple_of v = (case v of ZTuple t vs \<Rightarrow> Some (t, vs) | _ \<Rightarrow> None)"

definition user_type_of :: "zval \<Rightarrow> (cass_type \<times> (string \<times> zval) list) option" where
  "user_type_of v = (case v of ZUserType t vs \<Rightarrow> Some (t, vs) | _ \<Rightarrow> None)"

definition set_of :: "zval \<Rightarrow> (cass_type \<times> nat \<times> zval list) option" where
  "set_of v = (case v of ZSet t n vs \<Rightarrow> Some (t, n, vs) | _ \<Rightarrow> None)"

definition map_of_zval :: "zval \<Rightarrow> (cass_type \<times> nat \<times> (zval \<times> zval) list) option" where
  "map_of_zval v = (case v of ZMap t n kvs \<Rightarrow> Some (t, n, kvs) | _ \<Rightarrow> None)"

definition both :: "'a option \<Rightarrow> 'b option \<Rightarrow> ('a \<times> 'b) option" where
  "both x y = (case x of None \<Rightarrow> None | Some a \<Rightarrow> (case y of None \<Rightarrow> None | Some b \<Rightarrow> Some (a, b)))"

lemma both_Some: "both x y = Some (a, b) \<longleftrightarrow> x = Some a \<and> y = Some b"
  by (auto simp: both_def split: option.splits)

lemmas container_defs = collection_of_def tuple_of_def user_type_of_def set_of_def map_of_zval_def

text \<open>
  Everything but two containers of the same class. Objects of different classes compare by class
  name, as every handler does.
\<close>

definition flat_compare :: "php_env \<Rightarrow> zval \<Rightarrow> zval \<Rightarrow> int" where
  "flat_compare E v w =
     (let by_class = byte_compare (class_name v) (class_name w)
      in if z_type v \<noteq> z_type w then (if z_type v < z_type w then -1 else 1)
      else case v of
          ZNull \<Rightarrow> 0
        | ZTrue \<Rightarrow> 0
        | ZFalse \<Rightarrow> 0
        | ZArray _ \<Rightarrow> 1
        | ZLong a \<Rightarrow> (case w of ZLong b \<Rightarrow> php_scylladb_compare a b | _ \<Rightarrow> 0)
        | ZDouble a \<Rightarrow> (case w of ZDouble b \<Rightarrow> double_compare a b | _ \<Rightarrow> 0)
        | ZString a \<Rightarrow> (case w of ZString b \<Rightarrow> byte_compare a b | _ \<Rightarrow> 0)
        | ZNumeric a \<Rightarrow> (case w of ZNumeric b \<Rightarrow> numeric_compare E a b | _ \<Rightarrow> by_class)
        | ZBlob a \<Rightarrow> (case w of ZBlob b \<Rightarrow> php_scylladb_blob_compare a b | _ \<Rightarrow> by_class)
        | ZInet a \<Rightarrow> (case w of ZInet b \<Rightarrow> php_scylladb_inet_compare a b | _ \<Rightarrow> by_class)
        | ZDuration a b c \<Rightarrow>
            (case w of ZDuration a' b' c' \<Rightarrow> php_scylladb_duration_compare (a, b, c) (a', b', c') | _ \<Rightarrow> by_class)
        | ZUuid x a b \<Rightarrow>
            (case w of ZUuid y a' b' \<Rightarrow>
               if x \<noteq> y then by_class
               else if x then php_scylladb_timeuuid_compare (a, b) (a', b')
               else php_scylladb_uuid_compare (a, b) (a', b')
             | _ \<Rightarrow> by_class)
        | ZTimestamp a \<Rightarrow> (case w of ZTimestamp b \<Rightarrow> php_scylladb_timestamp_compare a b | _ \<Rightarrow> by_class)
        | ZDate a \<Rightarrow> (case w of ZDate b \<Rightarrow> php_scylladb_date_compare a b | _ \<Rightarrow> by_class)
        | ZTime a \<Rightarrow> (case w of ZTime b \<Rightarrow> php_scylladb_time_compare a b | _ \<Rightarrow> by_class)
        | ZType _ \<Rightarrow> other_compare E v w
        | ZObject _ \<Rightarrow> other_compare E v w
        | _ \<Rightarrow> by_class)"

lemma walk_compare_cong:
  "vs = vs' \<Longrightarrow> ws = ws' \<Longrightarrow> (\<And>v w. v \<in> set vs' \<Longrightarrow> w \<in> set ws' \<Longrightarrow> f v w = g v w) \<Longrightarrow>
   walk_compare f vs ws = walk_compare g vs' ws'"
proof (induction g vs' ws' arbitrary: vs ws rule: walk_compare.induct)
  case (1 g v vs' w ws')
  then have "walk_compare f vs' ws' = walk_compare g vs' ws'" if "g v w = 0" using that by (metis list.set_intros(2))
  moreover have "f v w = g v w" using 1 by simp
  ultimately show ?case using 1 by (simp add: Let_def)
qed auto

lemma set_loop_cong:
  "E = E' \<Longrightarrow> m = m' \<Longrightarrow> vs = vs' \<Longrightarrow> ws = ws' \<Longrightarrow> (\<And>v w. v \<in> set vs' \<Longrightarrow> w \<in> set ws' \<Longrightarrow> f w v = g w v) \<Longrightarrow>
   set_loop E f m vs ws = set_loop E' g m' vs' ws'"
proof (induction vs' arbitrary: vs)
  case (Cons v vs')
  have "list_ex (\<lambda>w. same_bucket E m w v \<and> f w v = 0) ws = list_ex (\<lambda>w. same_bucket E' m' w v \<and> g w v = 0) ws'"
    using Cons.prems by (auto simp: list_ex_iff)
  then show ?case using Cons by simp
qed simp

lemma map_loop_cong:
  "E = E' \<Longrightarrow> m = m' \<Longrightarrow> kvs = kvs' \<Longrightarrow> lws = lws' \<Longrightarrow>
   (\<And>kv lw. kv \<in> set kvs' \<Longrightarrow> lw \<in> set lws' \<Longrightarrow> f (fst lw) (fst kv) = g (fst lw) (fst kv)) \<Longrightarrow>
   (\<And>kv lw. kv \<in> set kvs' \<Longrightarrow> lw \<in> set lws' \<Longrightarrow> f (snd kv) (snd lw) = g (snd kv) (snd lw)) \<Longrightarrow>
   map_loop E f m kvs lws = map_loop E' g m' kvs' lws'"
proof (induction kvs' arbitrary: kvs)
  case (Cons kv kvs')
  let ?P = "\<lambda>f E m lw. same_bucket E m (fst lw) (fst kv) \<and> f (fst lw) (fst kv) = 0"
  have "find (?P f E m) lws = find (?P g E' m') lws'"
    using Cons.prems by (intro find_cong) auto
  moreover have "f (snd kv) (snd lw) = g (snd kv) (snd lw)" if "find (?P g E' m') lws' = Some lw" for lw
    using that Cons.prems(6) [of kv lw] by (metis find_Some_iff list.set_intros(1) nth_mem)
  moreover have "map_loop E f m kvs' lws = map_loop E' g m' kvs' lws'" using Cons by simp
  ultimately show ?case using Cons.prems by (simp add: Let_def split: option.split)
qed simp

lemmas compare_handler_defs = php_scylladb_collection_compare_def php_scylladb_tuple_compare_def
  php_scylladb_user_type_value_compare_def php_scylladb_set_compare_def php_scylladb_map_compare_def

lemma collection_compare_cong [fundef_cong]:
  assumes "E = E'" and "a = a'" and "b = b'" and "\<And>v w. v \<in> set (snd a') \<Longrightarrow> w \<in> set (snd b') \<Longrightarrow> f v w = g v w"
  shows "php_scylladb_collection_compare E f a b = php_scylladb_collection_compare E' g a' b'"
proof -
  have "walk_compare f (snd a') (snd b') = walk_compare g (snd a') (snd b')" using assms by (intro walk_compare_cong) auto
  then show ?thesis using assms by (simp add: compare_handler_defs)
qed

lemma tuple_compare_cong [fundef_cong]:
  assumes "E = E'" and "a = a'" and "b = b'" and "\<And>v w. v \<in> snd ` set (snd a') \<Longrightarrow> w \<in> snd ` set (snd b') \<Longrightarrow> f v w = g v w"
  shows "php_scylladb_tuple_compare E f a b = php_scylladb_tuple_compare E' g a' b'"
proof -
  have "walk_compare (\<lambda>v w. f (snd v) (snd w)) (snd a') (snd b') = walk_compare (\<lambda>v w. g (snd v) (snd w)) (snd a') (snd b')"
    using assms by (intro walk_compare_cong) auto
  then show ?thesis using assms by (simp add: compare_handler_defs)
qed

lemma user_type_compare_cong [fundef_cong]:
  assumes "E = E'" and "a = a'" and "b = b'" and "\<And>v w. v \<in> snd ` set (snd a') \<Longrightarrow> w \<in> snd ` set (snd b') \<Longrightarrow> f v w = g v w"
  shows "php_scylladb_user_type_value_compare E f a b = php_scylladb_user_type_value_compare E' g a' b'"
proof -
  have "walk_compare (\<lambda>v w. f (snd v) (snd w)) (snd a') (snd b') = walk_compare (\<lambda>v w. g (snd v) (snd w)) (snd a') (snd b')"
    using assms by (intro walk_compare_cong) auto
  then show ?thesis using assms by (simp add: compare_handler_defs)
qed

lemma set_compare_cong [fundef_cong]:
  assumes "E = E'" and "a = a'" and "b = b'"
    and "\<And>v w. v \<in> set (snd (snd a')) \<Longrightarrow> w \<in> set (snd (snd b')) \<Longrightarrow> f w v = g w v"
  shows "php_scylladb_set_compare E f a b = php_scylladb_set_compare E' g a' b'"
proof -
  have "set_loop E f m (snd (snd a')) (snd (snd b')) = set_loop E g m (snd (snd a')) (snd (snd b'))" for m
    using assms by (intro set_loop_cong) auto
  then show ?thesis using assms by (simp add: compare_handler_defs)
qed

lemma map_compare_cong [fundef_cong]:
  assumes "E = E'" and "a = a'" and "b = b'"
    and "\<And>k l. k \<in> fst ` set (snd (snd a')) \<Longrightarrow> l \<in> fst ` set (snd (snd b')) \<Longrightarrow> f l k = g l k"
    and "\<And>v w. v \<in> snd ` set (snd (snd a')) \<Longrightarrow> w \<in> snd ` set (snd (snd b')) \<Longrightarrow> f v w = g v w"
  shows "php_scylladb_map_compare E f a b = php_scylladb_map_compare E' g a' b'"
proof -
  have "map_loop E f m (snd (snd a')) (snd (snd b')) = map_loop E g m (snd (snd a')) (snd (snd b'))" for m
    using assms by (intro map_loop_cong) auto
  then show ?thesis using assms by (simp add: compare_handler_defs)
qed

text \<open>The parts of a container are smaller than it.\<close>

lemma list_part_size: "x \<in> set xs \<Longrightarrow> f x < Suc (size_list f xs)"
  by (induction xs) auto

lemma snd_part_size: "x \<in> snd ` set xs \<Longrightarrow> f x < Suc (size_list (size_prod g f) xs)"
  by (induction xs) (force simp: less_Suc_eq_le)+

lemma pair_part_size:
  "x \<in> fst ` set xs \<or> x \<in> snd ` set xs \<Longrightarrow> f x < Suc (size_list (size_prod f f) xs)"
  by (induction xs) (force simp: less_Suc_eq_le)+

lemma collection_part: "collection_of v = Some a \<Longrightarrow> x \<in> set (snd a) \<Longrightarrow> size x < size v"
  using list_part_size [of x "snd a" size] by (auto simp: container_defs split: zval.splits)

lemma tuple_part: "tuple_of v = Some a \<Longrightarrow> (i, x) \<in> set (snd a) \<Longrightarrow> size x < size v"
  using snd_part_size [of x "snd a" size] by (force simp: container_defs split: zval.splits)

lemma user_type_part: "user_type_of v = Some a \<Longrightarrow> (i, x) \<in> set (snd a) \<Longrightarrow> size x < size v"
  using snd_part_size [of x "snd a" size] by (force simp: container_defs split: zval.splits)

lemma set_part: "set_of v = Some a \<Longrightarrow> x \<in> set (snd (snd a)) \<Longrightarrow> size x < size v"
  using list_part_size [of x "snd (snd a)" size] by (auto simp: container_defs split: zval.splits)

lemma map_part:
  assumes "map_of_zval v = Some a" and "(x, y) \<in> set (snd (snd a))"
  shows "size x < size v" and "size y < size v"
proof -
  have "x \<in> fst ` set (snd (snd a))" and "y \<in> snd ` set (snd (snd a))" using assms(2) by force+
  then show "size x < size v" "size y < size v"
    using assms(1) pair_part_size [of x "snd (snd a)" size] pair_part_size [of y "snd (snd a)" size]
    by (auto simp: container_defs split: zval.splits)
qed

lemma pair_size_less:
  "size x < size v \<Longrightarrow> size y < size w \<Longrightarrow> size x + size y < size v + size w"
  "size x < size v \<Longrightarrow> size y < size w \<Longrightarrow> size y + size x < size v + size w"
  for x y v w :: zval
  by linarith+

text \<open>
  The comparison of two values. The first test of the source, for the same zval, is left out: it only
  matters for arrays, which differ from themselves here.
\<close>

function php_scylladb_value_compare :: "php_env \<Rightarrow> zval \<Rightarrow> zval \<Rightarrow> int" where
  "php_scylladb_value_compare E v w =
     (case both (collection_of v) (collection_of w) of
        Some (a, b) \<Rightarrow> php_scylladb_collection_compare E (php_scylladb_value_compare E) a b
      | None \<Rightarrow>
     (case both (tuple_of v) (tuple_of w) of
        Some (a, b) \<Rightarrow> php_scylladb_tuple_compare E (php_scylladb_value_compare E) a b
      | None \<Rightarrow>
     (case both (user_type_of v) (user_type_of w) of
        Some (a, b) \<Rightarrow> php_scylladb_user_type_value_compare E (php_scylladb_value_compare E) a b
      | None \<Rightarrow>
     (case both (set_of v) (set_of w) of
        Some (a, b) \<Rightarrow> php_scylladb_set_compare E (php_scylladb_value_compare E) a b
      | None \<Rightarrow>
     (case both (map_of_zval v) (map_of_zval w) of
        Some (a, b) \<Rightarrow> php_scylladb_map_compare E (php_scylladb_value_compare E) a b
      | None \<Rightarrow> flat_compare E v w)))))"
  by pat_completeness auto
termination
proof (relation "measure (\<lambda>(E, v, w). size v + size w)", goal_cases)
  case (2 E v w) then show ?case by (auto simp: both_Some) (metis pair_size_less(2) map_part(1))
next
  case (3 E v w) then show ?case by (auto simp: both_Some) (metis pair_size_less(1) map_part(2))
next
  case (4 E v w) then show ?case by (auto simp: both_Some) (metis pair_size_less(2) set_part)
next
  case (5 E v w) then show ?case by (auto simp: both_Some) (metis pair_size_less(1) user_type_part)
next
  case (6 E v w) then show ?case by (auto simp: both_Some) (metis pair_size_less(1) tuple_part)
next
  case (7 E v w) then show ?case by (auto simp: both_Some) (metis pair_size_less(1) collection_part)
qed simp

declare php_scylladb_value_compare.simps [simp del]

lemma value_compare_containers:
  "php_scylladb_value_compare E (ZCollection t vs) (ZCollection u ws) =
     php_scylladb_collection_compare E (php_scylladb_value_compare E) (t, vs) (u, ws)"
  "php_scylladb_value_compare E (ZTuple t is) (ZTuple u js) =
     php_scylladb_tuple_compare E (php_scylladb_value_compare E) (t, is) (u, js)"
  "php_scylladb_value_compare E (ZUserType t fs) (ZUserType u gs) =
     php_scylladb_user_type_value_compare E (php_scylladb_value_compare E) (t, fs) (u, gs)"
  "php_scylladb_value_compare E (ZSet t n vs) (ZSet u m ws) =
     php_scylladb_set_compare E (php_scylladb_value_compare E) (t, n, vs) (u, m, ws)"
  "php_scylladb_value_compare E (ZMap t n kvs) (ZMap u m lws) =
     php_scylladb_map_compare E (php_scylladb_value_compare E) (t, n, kvs) (u, m, lws)"
  by (simp_all add: php_scylladb_value_compare.simps container_defs both_def)

lemma value_compare_flat:
  assumes "both (collection_of v) (collection_of w) = None" and "both (tuple_of v) (tuple_of w) = None"
    and "both (user_type_of v) (user_type_of w) = None" and "both (set_of v) (set_of w) = None"
    and "both (map_of_zval v) (map_of_zval w) = None"
  shows "php_scylladb_value_compare E v w = flat_compare E v w"
  unfolding php_scylladb_value_compare.simps [of E v w] assms by simp

section \<open>Keys\<close>

text \<open>
  The values whose comparison and hash agree: no array, no object of another class, no set and no map,
  and containers whose type names its user types.
\<close>

fun named :: "cass_type \<Rightarrow> bool" where
  "named (T_Scalar c) = (scalar_name c \<noteq> None)"
| "named (T_Custom _) = True"
| "named (T_List t) = named t"
| "named (T_Set t) = named t"
| "named (T_Map k v) = (named k \<and> named v)"
| "named (T_Tuple ts) = list_all named ts"
| "named (T_Udt ks n fs) = (ks \<noteq> None \<and> n \<noteq> None \<and> list_all (\<lambda>f. named (snd f)) fs)"

fun keyable :: "zval \<Rightarrow> bool" where
  "keyable (ZCollection t vs) = (named t \<and> list_all keyable vs)"
| "keyable (ZTuple t is) = (named t \<and> list_all (\<lambda>p. keyable (snd p)) is)"
| "keyable (ZUserType t fs) = (named t \<and> list_all (\<lambda>p. keyable (snd p)) fs)"
| "keyable (ZArray _) = False"
| "keyable (ZSet _ _ _) = False"
| "keyable (ZMap _ _ _) = False"
| "keyable (ZType _) = False"
| "keyable (ZObject _) = False"
| "keyable _ = True"

text \<open>
  The one representative of the values that compare equal: one NaN, one string type, positions and
  field names left out.
\<close>

fun erase_type :: "cass_type \<Rightarrow> cass_type" where
  "erase_type (T_Scalar c) = T_Scalar (if c = CASS_VALUE_TYPE_TEXT then CASS_VALUE_TYPE_VARCHAR else c)"
| "erase_type (T_Custom _) = T_Custom []"
| "erase_type (T_List t) = T_List (erase_type t)"
| "erase_type (T_Set t) = T_Set (erase_type t)"
| "erase_type (T_Map k v) = T_Map (erase_type k) (erase_type v)"
| "erase_type (T_Tuple ts) = T_Tuple (map erase_type ts)"
| "erase_type (T_Udt ks n fs) = T_Udt ks n (map (\<lambda>f. (fst f, erase_type (snd f))) fs)"

fun key_repr :: "zval \<Rightarrow> zval" where
  "key_repr (ZDouble d) = ZDouble (if dbl_isnan d then 0x7ff8000000000000 else d)"
| "key_repr (ZNumeric (N_Float f)) = ZNumeric (N_Float (if float_isNaN f then 0x7fc00000 else f))"
| "key_repr (ZCollection t vs) = ZCollection (erase_type t) (map key_repr vs)"
| "key_repr (ZTuple t is) = ZTuple (erase_type t) (map (\<lambda>p. (0, key_repr (snd p))) is)"
| "key_repr (ZUserType t fs) = ZUserType (erase_type t) (map (\<lambda>p. ([], key_repr (snd p))) fs)"
| "key_repr v = v"


lemma type_compare_erase:
  assumes "inj vt" and "named t" and "named u"
  shows "php_scylladb_type_compare vt t u = 0 \<longleftrightarrow> erase_type t = erase_type u"
  using assms(2,3)
proof (induction t arbitrary: u)
  case (T_Scalar c)
  then show ?case using assms(1) by (cases u) (auto simp: is_string_type_def inj_eq)
next
  case (T_Custom c)
  then show ?case using assms(1) by (cases u) (auto simp: is_string_type_def inj_eq)
next
  case (T_List t)
  then show ?case using assms(1) by (cases u) (auto simp: is_string_type_def inj_eq)
next
  case (T_Set t)
  then show ?case using assms(1) by (cases u) (auto simp: is_string_type_def inj_eq)
next
  case (T_Map k v)
  then show ?case using assms(1) by (cases u) (auto simp: is_string_type_def inj_eq zero_simps)
next
  case (T_Tuple ts)
  have *: "tuple_compare vt ts' us' = 0 \<longleftrightarrow> map erase_type ts' = map erase_type us'"
    if "length ts' = length us'" "set ts' \<subseteq> set ts" "list_all named ts'" "list_all named us'" for ts' us'
    using that T_Tuple.IH by (induction ts' us' rule: list_induct2) (auto simp: zero_simps)
  show ?case
  proof (cases u)
    case (T_Tuple us)
    then show ?thesis using * [of ts us] T_Tuple.prems by (auto simp: zero_simps dest: map_eq_imp_length_eq)
  qed (use T_Tuple.prems assms(1) in \<open>auto simp: is_string_type_def inj_eq\<close>)
next
  case (T_Udt ks n fs)
  let ?e = "\<lambda>f. (fst f, erase_type (snd f))"
  have *: "user_type_compare vt fs' gs' = 0 \<longleftrightarrow> map ?e fs' = map ?e gs'"
    if "length fs' = length gs'" "set fs' \<subseteq> set fs" "list_all (\<lambda>f. named (snd f)) fs'" "list_all (\<lambda>f. named (snd f)) gs'" for fs' gs'
    using that T_Udt.IH by (induction fs' gs' rule: list_induct2) (fastforce simp: zero_simps snds.simps)+
  show ?case
  proof (cases u)
    case (T_Udt ks' n' gs)
    then show ?thesis using * [of fs gs] T_Udt.prems
      by (auto simp: zero_simps udt_name_compare_def dest: map_eq_imp_length_eq)
  qed (use T_Udt.prems assms(1) in \<open>auto simp: is_string_type_def inj_eq\<close>)
qed


section \<open>When two values compare equal\<close>

lemma memcmp_zero: "length a = length b \<Longrightarrow> memcmp a b = 0 \<longleftrightarrow> a = b"
  by (induction a b rule: list_induct2) auto

lemma walk_zero: "length vs = length ws \<Longrightarrow> walk_compare cmp vs ws = 0 \<longleftrightarrow> list_all2 (\<lambda>v w. cmp v w = 0) vs ws"
  by (induction vs ws rule: list_induct2) (auto simp: Let_def)

lemma numeric_compare_zero:
  assumes "gmp_spec (gmp_lib E)"
  shows "numeric_compare E n m = 0 \<longleftrightarrow> key_repr (ZNumeric n) = key_repr (ZNumeric m)"
proof -
  have "mpz_cmp (gmp_lib E) a b = 0 \<longleftrightarrow> a = b" for a b
    using gmp_cmp_sgn(1) [OF assms, of a b] by (auto simp: sgn_if split: if_splits)
  then show ?thesis
    by (cases n; cases m)
      (auto simp: php_scylladb_bigint_compare_def php_scylladb_smallint_compare_def php_scylladb_tinyint_compare_def
        php_scylladb_decimal_compare_def php_scylladb_varint_compare_def float_compare_zero float_isNaN_def
        ieee_isnan_def ieee_exp_def ieee_frac_def)
qed

lemma numeric_compare_differ: "numeric_class n \<noteq> numeric_class m \<Longrightarrow> numeric_compare E n m \<noteq> 0"
  by (cases n; cases m) auto

lemma class_of_repr [simp]: "z_type (key_repr v) = z_type v" "class_name (key_repr v) = class_name v"
  by (induction v rule: key_repr.induct) auto

lemma value_compare_differ:
  assumes "keyable v" and "keyable w" and "z_type v \<noteq> z_type w \<or> class_name v \<noteq> class_name w"
  shows "php_scylladb_value_compare E v w \<noteq> 0"
proof -
  have "flat_compare E v w \<noteq> 0"
    using assms by (cases v; cases w) (auto simp: flat_compare_def dest: numeric_compare_differ)
  moreover have "both (collection_of v) (collection_of w) = None" "both (tuple_of v) (tuple_of w) = None"
    "both (user_type_of v) (user_type_of w) = None" "both (set_of v) (set_of w) = None"
    "both (map_of_zval v) (map_of_zval w) = None"
    using assms by (auto simp: both_def container_defs split: zval.splits)
  ultimately show ?thesis by (simp add: value_compare_flat)
qed


lemma numeric_class_other [simp]:
  "numeric_class n \<noteq> ''Blob''" "''Blob'' \<noteq> numeric_class n"
  "numeric_class n \<noteq> ''Inet''" "''Inet'' \<noteq> numeric_class n"
  "numeric_class n \<noteq> ''Duration''" "''Duration'' \<noteq> numeric_class n"
  "numeric_class n \<noteq> ''Collection''" "''Collection'' \<noteq> numeric_class n"
  "numeric_class n \<noteq> ''Set''" "''Set'' \<noteq> numeric_class n"
  "numeric_class n \<noteq> ''Map''" "''Map'' \<noteq> numeric_class n"
  "numeric_class n \<noteq> ''Tuple''" "''Tuple'' \<noteq> numeric_class n"
  "numeric_class n \<noteq> ''UserTypeValue''" "''UserTypeValue'' \<noteq> numeric_class n"
  "numeric_class n \<noteq> ''Timeuuid''" "''Timeuuid'' \<noteq> numeric_class n"
  "numeric_class n \<noteq> ''Uuid''" "''Uuid'' \<noteq> numeric_class n"
  "numeric_class n \<noteq> ''Timestamp''" "''Timestamp'' \<noteq> numeric_class n"
  "numeric_class n \<noteq> ''Date''" "''Date'' \<noteq> numeric_class n"
  "numeric_class n \<noteq> ''Time''" "''Time'' \<noteq> numeric_class n"
  by (cases n; simp)+

text \<open>The constructor, and that values of different constructors or classes differ.\<close>

fun ctor :: "zval \<Rightarrow> nat" where
  "ctor (ZNumeric _) = 0"
| "ctor (ZCollection _ _) = 1"
| "ctor (ZTuple _ _) = 2"
| "ctor (ZUserType _ _) = 3"
| "ctor v = 4"

lemma ctor_repr [simp]: "ctor (key_repr v) = ctor v"
  by (induction v rule: key_repr.induct) auto

lemma ctor_class: "keyable v \<Longrightarrow> keyable w \<Longrightarrow> z_type v = z_type w \<Longrightarrow> class_name v = class_name w \<Longrightarrow> ctor v = ctor w"
  by (cases v; cases w) (auto split: if_splits)

lemma ctor_differ:
  assumes "keyable v" and "keyable w" and "ctor v \<noteq> ctor w"
  shows "php_scylladb_value_compare E v w = 0 \<longleftrightarrow> key_repr v = key_repr w"
  using assms value_compare_differ [OF assms(1,2)] ctor_class [OF assms(1,2)] ctor_repr by metis

lemma canonical_nan [simp]: "ieee_isnan 52 11 0x7ff8000000000000" "ieee_isnan 23 8 0x7fc00000"
  by (simp_all add: ieee_isnan_def ieee_exp_def ieee_frac_def)

lemma flat_compare_zero:
  assumes "gmp_spec (gmp_lib E)" and "keyable v" and "keyable w" and "ctor v = 4" and "ctor w = 4"
  shows "flat_compare E v w = 0 \<longleftrightarrow> key_repr v = key_repr w"
  using assms(2-)
  by (cases v; cases w)
    (auto simp: flat_compare_def double_compare_zero php_scylladb_blob_compare_def php_scylladb_inet_compare_def memcmp_zero
      php_scylladb_duration_compare_def php_scylladb_timeuuid_compare_def php_scylladb_uuid_compare_def
      php_scylladb_timestamp_compare_def php_scylladb_date_compare_def php_scylladb_time_compare_def)

lemma container_compare_zero:
  assumes "inj (type_codes E)" and "named t" and "named u"
  shows "type_count_compare E t u (length vs) (length ws) (walk_compare cmp vs ws) = 0 \<longleftrightarrow>
    erase_type t = erase_type u \<and> list_all2 (\<lambda>v w. cmp v w = 0) vs ws"
  using type_compare_erase [OF assms] walk_zero [of vs ws cmp]
  by (auto simp: type_count_compare_def Let_def dest: list_all2_lengthD)

lemma map_eq_list_all2: "map f xs = map g ys \<longleftrightarrow> list_all2 (\<lambda>x y. f x = g y) xs ys"
  by (induction xs arbitrary: ys) (auto simp: list_all2_Cons1 Cons_eq_map_conv)


lemma compare_zero_flat:
  assumes "gmp_spec (gmp_lib E)" and "ctor v = 4" and "keyable v" and "keyable w"
  shows "php_scylladb_value_compare E v w = 0 \<longleftrightarrow> key_repr v = key_repr w"
proof (cases "ctor w = 4")
  case True
  have "both (collection_of v) (collection_of w) = None" "both (tuple_of v) (tuple_of w) = None"
    "both (user_type_of v) (user_type_of w) = None" "both (set_of v) (set_of w) = None"
    "both (map_of_zval v) (map_of_zval w) = None"
    using assms by (auto simp: both_def container_defs split: zval.splits)
  then show ?thesis using flat_compare_zero [OF assms(1,3,4,2) True] by (simp add: value_compare_flat)
qed (use assms in \<open>simp add: ctor_differ\<close>)

lemma list_all2_IH:
  assumes "\<And>v w. v \<in> f ` set vs \<Longrightarrow> K v \<Longrightarrow> K w \<Longrightarrow> P v w \<longleftrightarrow> Q v w"
    and "list_all (\<lambda>v. K (f v)) vs" and "list_all (\<lambda>w. K (g w)) ws"
  shows "list_all2 (\<lambda>v w. P (f v) (g w)) vs ws \<longleftrightarrow> list_all2 (\<lambda>v w. Q (f v) (g w)) vs ws"
  using assms by (induction vs arbitrary: ws) (auto simp: list_all2_Cons1)

lemma value_compare_zero:
  assumes "gmp_spec (gmp_lib E)" and "inj (type_codes E)" and "keyable v" and "keyable w"
  shows "php_scylladb_value_compare E v w = 0 \<longleftrightarrow> key_repr v = key_repr w"
  using assms(3,4)
proof (induction v arbitrary: w)
  case (ZCollection t vs)
  note IH = list_all2_IH [where f = id and g = id and vs = vs and K = keyable and Q = "\<lambda>v w. key_repr v = key_repr w"
      and P = "\<lambda>v w. php_scylladb_value_compare E v w = 0"]
  show ?case
  proof (cases "ctor w = 1")
    case True
    then obtain u ws where w: "w = ZCollection u ws" by (cases w) auto
    have "list_all2 (\<lambda>v w. php_scylladb_value_compare E v w = 0) vs ws \<longleftrightarrow> list_all2 (\<lambda>v w. key_repr v = key_repr w) vs ws"
      using IH [of ws] ZCollection w by simp
    then show ?thesis using ZCollection.prems w container_compare_zero [OF assms(2), of t u vs ws]
      by (simp add: value_compare_containers php_scylladb_collection_compare_def map_eq_list_all2)
  qed (use ZCollection.prems in \<open>simp add: ctor_differ\<close>)
next
  case (ZTuple t vs)
  have ih: "php_scylladb_value_compare E v w = 0 \<longleftrightarrow> key_repr v = key_repr w" if "v \<in> snd ` set vs" "keyable v" "keyable w" for v w
    using that ZTuple.IH by (fastforce simp: snds.simps)
  show ?case
  proof (cases "ctor w = 2")
    case True
    then obtain u ws where w: "w = ZTuple u ws" by (cases w) auto
    have "list_all2 (\<lambda>v w. php_scylladb_value_compare E (snd v) (snd w) = 0) vs ws \<longleftrightarrow>
        list_all2 (\<lambda>v w. key_repr (snd v) = key_repr (snd w)) vs ws"
      by (rule list_all2_IH [where f = snd and g = snd and K = keyable and Q = "\<lambda>v w. key_repr v = key_repr w" and
            P = "\<lambda>v w. php_scylladb_value_compare E v w = 0"]) (use ih ZTuple.prems w in auto)
    then show ?thesis using ZTuple.prems w container_compare_zero [OF assms(2), of t u vs ws]
      by (simp add: value_compare_containers php_scylladb_tuple_compare_def map_eq_list_all2)
  qed (use ZTuple.prems in \<open>simp add: ctor_differ\<close>)
next
  case (ZUserType t vs)
  have ih: "php_scylladb_value_compare E v w = 0 \<longleftrightarrow> key_repr v = key_repr w" if "v \<in> snd ` set vs" "keyable v" "keyable w" for v w
    using that ZUserType.IH by (fastforce simp: snds.simps)
  show ?case
  proof (cases "ctor w = 3")
    case True
    then obtain u ws where w: "w = ZUserType u ws" by (cases w) auto
    have "list_all2 (\<lambda>v w. php_scylladb_value_compare E (snd v) (snd w) = 0) vs ws \<longleftrightarrow>
        list_all2 (\<lambda>v w. key_repr (snd v) = key_repr (snd w)) vs ws"
      by (rule list_all2_IH [where f = snd and g = snd and K = keyable and Q = "\<lambda>v w. key_repr v = key_repr w" and
            P = "\<lambda>v w. php_scylladb_value_compare E v w = 0"]) (use ih ZUserType.prems w in auto)
    then show ?thesis using ZUserType.prems w container_compare_zero [OF assms(2), of t u vs ws]
      by (simp add: value_compare_containers php_scylladb_user_type_value_compare_def map_eq_list_all2)
  qed (use ZUserType.prems in \<open>simp add: ctor_differ\<close>)
next
  case (ZNumeric n)
  show ?case
  proof (cases "ctor w = 0")
    case True
    then obtain m where w: "w = ZNumeric m" by (cases w) auto
    have "flat_compare E (ZNumeric n) w = numeric_compare E n m" by (simp add: flat_compare_def w)
    then show ?thesis using numeric_compare_zero [OF assms(1), of n m]
      by (simp add: w value_compare_flat both_def container_defs)
  qed (use ZNumeric.prems in \<open>simp add: ctor_differ\<close>)
qed (rule compare_zero_flat [OF assms(1)]; simp)+

lemma value_hash_repr: "php_scylladb_value_hash E (key_repr v) = php_scylladb_value_hash E v"
proof (induction v rule: key_repr.induct)
  case (1 d)
  then show ?case by (auto simp: double_hash_def double_to_bits_def ieee_bits_def)
next
  case (2 f)
  then show ?case by (auto simp: php_scylladb_float_hash_value_def float_to_bits_def ieee_bits_def float_isNaN_def)
qed (auto simp: comp_def cong: map_cong)

lemma value_hash_equal:
  assumes "gmp_spec (gmp_lib E)" and "inj (type_codes E)" and "keyable v" and "keyable w"
    and "php_scylladb_value_compare E v w = 0"
  shows "php_scylladb_value_hash E v = php_scylladb_value_hash E w"
  using value_compare_zero [OF assms(1-4)] assms(5) value_hash_repr by metis

section \<open>The contract of the hash tables\<close>

text \<open>The two assumptions the handlers need of the outside: GMP behaves as documented, type codes are distinct.\<close>

locale value_env =
  fixes E :: php_env
  assumes env_gmp: "gmp_spec (gmp_lib E)" and env_codes: "inj (type_codes E)"
begin

lemmas compare_zero = value_compare_zero [OF env_gmp env_codes]

lemmas hash_equal = value_hash_equal [OF env_gmp env_codes]

end

definition value_key_hash :: "php_env \<Rightarrow> zval \<Rightarrow> nat" where
  "value_key_hash E v = unat (php_scylladb_value_hash E v)"

sublocale value_env \<subseteq> value_keys: hash_keys "{v. keyable v}" "value_key_hash E" "php_scylladb_value_compare E"
proof unfold_locales
  show "value_key_hash E k = value_key_hash E l"
    if "k \<in> {v. keyable v}" "l \<in> {v. keyable v}" "php_scylladb_value_compare E k l = 0" for k l
    using hash_equal [of k l] that by (simp add: value_key_hash_def)
qed (simp_all add: compare_zero)

text \<open>An environment in which the assumptions hold: the reference GMP and the driver's codes.\<close>

definition env_ref :: php_env where
  "env_ref = \<lparr>zend_inline_hash_func = \<lambda>s. of_nat (length s), other_hash = \<lambda>_. 0, other_compare = \<lambda>_ _. 1,
     type_codes = cass_codes, gmp_lib = gmp_ref\<rparr>"

interpretation env_ref: value_env env_ref
  by unfold_locales (simp_all add: env_ref_def gmp_ref_spec cass_codes_inj)

text \<open>
  Property C11. On values that contain no array, set, map or foreign object and whose types name
  their user types, the comparison's zero is an equivalence and equal values have equal hashes, which
  is what the hash tables of Map and Set need of their keys. Sets break the contract: two sets of the
  same elements added in different orders compare equal and hash differently.
\<close>

theorem value_compare_contract:
  assumes "gmp_spec (gmp_lib E)" and "inj (type_codes E)" and "keyable u" and "keyable v" and "keyable w"
  shows "php_scylladb_value_compare E v v = 0 \<and>
    (php_scylladb_value_compare E v w = 0 \<longleftrightarrow> php_scylladb_value_compare E w v = 0) \<and>
    (php_scylladb_value_compare E u v = 0 \<and> php_scylladb_value_compare E v w = 0 \<longrightarrow> php_scylladb_value_compare E u w = 0) \<and>
    (php_scylladb_value_compare E v w = 0 \<longrightarrow> php_scylladb_value_hash E v = php_scylladb_value_hash E w) \<and>
    (let s = ZSet (T_Set (T_Scalar CASS_VALUE_TYPE_INT)) 32 [ZLong 1, ZLong 2];
         t = ZSet (T_Set (T_Scalar CASS_VALUE_TYPE_INT)) 32 [ZLong 2, ZLong 1]
     in php_scylladb_value_compare E s t = 0 \<and> php_scylladb_value_hash E s \<noteq> php_scylladb_value_hash E t)"
proof -
  have E: "value_env E" using assms(1,2) by unfold_locales
  have flat: "php_scylladb_value_compare E (ZLong a) (ZLong b) = php_scylladb_compare a b" for a b
    by (simp add: value_compare_flat both_def container_defs flat_compare_def)
  have h: "combine_all [php_scylladb_bigint_hash 1, php_scylladb_bigint_hash 2] \<noteq>
      combine_all [php_scylladb_bigint_hash 2, php_scylladb_bigint_hash 1]" by code_simp
  note c = value_env.compare_zero [OF E]
  show ?thesis unfolding Let_def
  proof (intro conjI)
    show "php_scylladb_value_compare E v w = 0 \<longleftrightarrow> php_scylladb_value_compare E w v = 0"
      using c [OF assms(4,5)] c [OF assms(5,4)] by metis
    show "php_scylladb_value_compare E u v = 0 \<and> php_scylladb_value_compare E v w = 0 \<longrightarrow> php_scylladb_value_compare E u w = 0"
      using c [OF assms(3,4)] c [OF assms(4,5)] c [OF assms(3,5)] by simp
    show "php_scylladb_value_compare E v w = 0 \<longrightarrow> php_scylladb_value_hash E v = php_scylladb_value_hash E w"
      using value_env.hash_equal [OF E assms(4,5)] by blast
    show "php_scylladb_value_compare E (ZSet (T_Set (T_Scalar CASS_VALUE_TYPE_INT)) 32 [ZLong 1, ZLong 2])
        (ZSet (T_Set (T_Scalar CASS_VALUE_TYPE_INT)) 32 [ZLong 2, ZLong 1]) = 0"
      by (simp add: value_compare_containers php_scylladb_set_compare_def type_count_compare_def flat same_bucket_def
          php_scylladb_compare_def)
    show "php_scylladb_value_compare E v v = 0" using c [OF assms(4,4)] by simp
  qed (use h in simp)
qed

theorem value_compare_contract_witness:
  "keyable (ZDouble 0x7ff8000000000001) \<and> keyable (ZCollection (T_List (T_Scalar CASS_VALUE_TYPE_TEXT)) [ZString ''a'']) \<and>
   php_scylladb_value_compare env_ref (ZCollection (T_List (T_Scalar CASS_VALUE_TYPE_TEXT)) [ZString ''a''])
     (ZCollection (T_List (T_Scalar CASS_VALUE_TYPE_VARCHAR)) [ZString ''a'']) = 0 \<and>
   php_scylladb_value_hash env_ref (ZCollection (T_List (T_Scalar CASS_VALUE_TYPE_TEXT)) [ZString ''a'']) =
     php_scylladb_value_hash env_ref (ZCollection (T_List (T_Scalar CASS_VALUE_TYPE_VARCHAR)) [ZString ''a''])"
proof -
  let ?v = "ZCollection (T_List (T_Scalar CASS_VALUE_TYPE_TEXT)) [ZString ''a'']"
  let ?w = "ZCollection (T_List (T_Scalar CASS_VALUE_TYPE_VARCHAR)) [ZString ''a'']"
  have k: "keyable ?v" "keyable ?w" "keyable (ZDouble 0x7ff8000000000001)" by code_simp+
  have z: "php_scylladb_value_compare env_ref ?v ?w = 0" using env_ref.compare_zero k by simp
  show ?thesis
    using k z value_compare_contract [OF env_ref.env_gmp env_ref.env_codes k(1,1,2)] by blast
qed

end
