(* ===== verification/Conversions.thy ===== *)
theory Conversions
  imports ValueHash
begin

text \<open>
  The type checks of \<^verbatim>\<open>src/Type/Conversions.c\<close>: \<^verbatim>\<open>php_scylladb_validate_object\<close>,
  which every container calls before it stores a value, and \<^verbatim>\<open>php_scylladb_value_type\<close>,
  which reads the name of a scalar type. A result \<open>Ret False\<close> is a refusal without an exception.
\<close>

section \<open>Does a value belong to a type?\<close>

definition accept :: "bool \<Rightarrow> string \<Rightarrow> bool outcome" where
  "accept ok expected = (if ok then Ret True else throw_arg expected)"

text \<open>\<^verbatim>\<open>INSTANCE_OF\<close> for the classes of the extension.\<close>

definition instance_of :: "zval \<Rightarrow> string \<Rightarrow> bool" where
  "instance_of object cls \<longleftrightarrow> is_object object \<and> class_name object = cls"

text \<open>A container object must also have the type itself, up to \<^verbatim>\<open>php_scylladb_type_compare\<close>.\<close>

definition accept_container :: "php_env \<Rightarrow> cass_type option \<Rightarrow> cass_type \<Rightarrow> string \<Rightarrow> bool outcome" where
  "accept_container E own type expected =
     (case own of
        None \<Rightarrow> throw_arg expected
      | Some t \<Rightarrow> Ret (php_scylladb_type_compare (type_codes E) t type = 0))"

definition php_scylladb_validate_object :: "php_env \<Rightarrow> zval \<Rightarrow> cass_type \<Rightarrow> bool outcome" where
  "php_scylladb_validate_object E object type =
     (if object = ZNull then Ret True
      else case type_of type of
          CASS_VALUE_TYPE_VARCHAR \<Rightarrow> accept (case object of ZString _ \<Rightarrow> True | _ \<Rightarrow> False) ''a string''
        | CASS_VALUE_TYPE_TEXT \<Rightarrow> accept (case object of ZString _ \<Rightarrow> True | _ \<Rightarrow> False) ''a string''
        | CASS_VALUE_TYPE_ASCII \<Rightarrow> accept (case object of ZString _ \<Rightarrow> True | _ \<Rightarrow> False) ''a string''
        | CASS_VALUE_TYPE_DOUBLE \<Rightarrow> accept (case object of ZDouble _ \<Rightarrow> True | _ \<Rightarrow> False) ''a float''
        | CASS_VALUE_TYPE_INT \<Rightarrow> accept (case object of ZLong _ \<Rightarrow> True | _ \<Rightarrow> False) ''an int''
        | CASS_VALUE_TYPE_BOOLEAN \<Rightarrow> accept (object = ZTrue \<or> object = ZFalse) ''a boolean''
        | CASS_VALUE_TYPE_FLOAT \<Rightarrow> accept (instance_of object ''Float'') ''an instance of Float''
        | CASS_VALUE_TYPE_COUNTER \<Rightarrow> accept (instance_of object ''Bigint'') ''an instance of Bigint''
        | CASS_VALUE_TYPE_BIGINT \<Rightarrow> accept (instance_of object ''Bigint'') ''an instance of Bigint''
        | CASS_VALUE_TYPE_SMALL_INT \<Rightarrow> accept (instance_of object ''Smallint'') ''an instance of Smallint''
        | CASS_VALUE_TYPE_TINY_INT \<Rightarrow> accept (instance_of object ''Tinyint'') ''an instance of Tinyint''
        | CASS_VALUE_TYPE_BLOB \<Rightarrow> accept (instance_of object ''Blob'') ''an instance of Blob''
        | CASS_VALUE_TYPE_DECIMAL \<Rightarrow> accept (instance_of object ''Decimal'') ''an instance of Decimal''
        | CASS_VALUE_TYPE_DURATION \<Rightarrow> accept (instance_of object ''Duration'') ''an instance of Duration''
        | CASS_VALUE_TYPE_TIMESTAMP \<Rightarrow> accept (instance_of object ''Timestamp'') ''an instance of Timestamp''
        | CASS_VALUE_TYPE_DATE \<Rightarrow> accept (instance_of object ''Date'') ''an instance of Date''
        | CASS_VALUE_TYPE_TIME \<Rightarrow> accept (instance_of object ''Time'') ''an instance of Time''
        | CASS_VALUE_TYPE_UUID \<Rightarrow> accept (instance_of object ''Uuid'') ''an instance of Uuid''
        | CASS_VALUE_TYPE_VARINT \<Rightarrow> accept (instance_of object ''Varint'') ''an instance of Varint''
        | CASS_VALUE_TYPE_TIMEUUID \<Rightarrow> accept (instance_of object ''Timeuuid'') ''an instance of Timeuuid''
        | CASS_VALUE_TYPE_INET \<Rightarrow> accept (instance_of object ''Inet'') ''an instance of Inet''
        | CASS_VALUE_TYPE_MAP \<Rightarrow> accept_container E (map_option fst (map_of_zval object)) type ''an instance of Map''
        | CASS_VALUE_TYPE_SET \<Rightarrow> accept_container E (map_option fst (set_of object)) type ''an instance of Set''
        | CASS_VALUE_TYPE_LIST \<Rightarrow> accept_container E (map_option fst (collection_of object)) type ''an instance of Collection''
        | CASS_VALUE_TYPE_TUPLE \<Rightarrow> accept_container E (map_option fst (tuple_of object)) type ''an instance of Tuple''
        | CASS_VALUE_TYPE_UDT \<Rightarrow> accept_container E (map_option fst (user_type_of object)) type ''an instance of UserTypeValue''
        | CASS_VALUE_TYPE_CUSTOM \<Rightarrow> throw_arg ''a simple value'')"

section \<open>Names of scalar types\<close>

definition value_type_names :: "(string \<times> cass_value_type) list" where
  "value_type_names =
     [(''ascii'', CASS_VALUE_TYPE_ASCII), (''bigint'', CASS_VALUE_TYPE_BIGINT), (''smallint'', CASS_VALUE_TYPE_SMALL_INT),
      (''tinyint'', CASS_VALUE_TYPE_TINY_INT), (''blob'', CASS_VALUE_TYPE_BLOB), (''boolean'', CASS_VALUE_TYPE_BOOLEAN),
      (''counter'', CASS_VALUE_TYPE_COUNTER), (''decimal'', CASS_VALUE_TYPE_DECIMAL), (''duration'', CASS_VALUE_TYPE_DURATION),
      (''double'', CASS_VALUE_TYPE_DOUBLE), (''float'', CASS_VALUE_TYPE_FLOAT), (''int'', CASS_VALUE_TYPE_INT),
      (''text'', CASS_VALUE_TYPE_TEXT), (''timestamp'', CASS_VALUE_TYPE_TIMESTAMP), (''date'', CASS_VALUE_TYPE_DATE),
      (''time'', CASS_VALUE_TYPE_TIME), (''uuid'', CASS_VALUE_TYPE_UUID), (''varchar'', CASS_VALUE_TYPE_VARCHAR),
      (''varint'', CASS_VALUE_TYPE_VARINT), (''timeuuid'', CASS_VALUE_TYPE_TIMEUUID), (''inet'', CASS_VALUE_TYPE_INET)]"

definition php_scylladb_value_type :: "string \<Rightarrow> cass_value_type outcome" where
  "php_scylladb_value_type type =
     (case map_of value_type_names type of
        Some c \<Rightarrow> Ret c
      | None \<Rightarrow> Throw (Exn InvalidArgumentException (''Unsupported type '' @ type)))"

lemma value_type_scalar: "php_scylladb_value_type s = Ret c \<longleftrightarrow> scalar_name c = Some s"
  by (cases c) (auto simp: php_scylladb_value_type_def value_type_names_def scalar_name_def scalar_types_map_def)

text \<open>The type given to a container's constructor: a scalar type's name, or a type object.\<close>

definition type_argument :: "zval \<Rightarrow> cass_type outcome" where
  "type_argument z =
     (case z of
        ZString s \<Rightarrow> bind_outcome (php_scylladb_value_type s) (\<lambda>c. Ret (T_Scalar c))
      | ZType t \<Rightarrow> php_scylladb_type_validate z
      | _ \<Rightarrow> throw_arg ''a string or an instance of Type'')"

section \<open>Well typed values\<close>

text \<open>
  A container holds only values that were accepted for its element types, and no null except in tuples
  and user types.
\<close>

definition accepted :: "php_env \<Rightarrow> cass_type \<Rightarrow> zval \<Rightarrow> bool" where
  "accepted E t v \<longleftrightarrow> php_scylladb_validate_object E v t = Ret True"

fun well_typed :: "php_env \<Rightarrow> zval \<Rightarrow> bool" where
  "well_typed E (ZCollection t vs) =
     (case t of T_List u \<Rightarrow> list_all (\<lambda>v. v \<noteq> ZNull \<and> accepted E u v \<and> well_typed E v) vs | _ \<Rightarrow> False)"
| "well_typed E (ZSet t n vs) =
     (case t of T_Set u \<Rightarrow> list_all (\<lambda>v. v \<noteq> ZNull \<and> accepted E u v \<and> well_typed E v) vs | _ \<Rightarrow> False)"
| "well_typed E (ZMap t n kvs) =
     (case t of T_Map k u \<Rightarrow>
        list_all (\<lambda>e. fst e \<noteq> ZNull \<and> snd e \<noteq> ZNull \<and> accepted E k (fst e) \<and> accepted E u (snd e) \<and>
          well_typed E (fst e) \<and> well_typed E (snd e)) kvs
      | _ \<Rightarrow> False)"
| "well_typed E (ZTuple t is) =
     (case t of T_Tuple ts \<Rightarrow>
        list_all (\<lambda>e. fst e < length ts \<and> accepted E (ts ! fst e) (snd e) \<and> well_typed E (snd e)) is
      | _ \<Rightarrow> False)"
| "well_typed E (ZUserType t fs) =
     (case t of T_Udt _ _ ts \<Rightarrow>
        list_all (\<lambda>e. (case map_of ts (fst e) of Some u \<Rightarrow> accepted E u (snd e) | None \<Rightarrow> False) \<and> well_typed E (snd e)) fs
      | _ \<Rightarrow> False)"
| "well_typed E _ = True"

end
