(* ===== verification/MapSet.thy ===== *)
theory MapSet
  imports Conversions
begin

text \<open>
  The objects of \<^verbatim>\<open>src/Map.c\<close> and \<^verbatim>\<open>src/Set.c\<close>: a hash table of entries, the two
  iterator pointers, and the cached hash with its dirty flag. Entries are cells named by addresses. The
  address of a new entry (\<^verbatim>\<open>emalloc\<close>) is an argument; an access through the address
  of a freed entry is undefined. An operation returns its result and the new object.
\<close>

section \<open>Map\<close>

record php_scylladb_map =
  map_type :: cass_type
  map_entries :: "(zval, zval) table"
  map_iter_curr :: "nat option"
  map_iter_temp :: "nat option"
  map_dirty :: bool
  map_hashv :: "32 word"

text \<open>The element types of the object's type.\<close>

definition map_key_type :: "php_scylladb_map \<Rightarrow> cass_type" where
  "map_key_type m = (case map_type m of T_Map k _ \<Rightarrow> k | t \<Rightarrow> t)"

definition map_value_type :: "php_scylladb_map \<Rightarrow> cass_type" where
  "map_value_type m = (case map_type m of T_Map _ v \<Rightarrow> v | t \<Rightarrow> t)"

definition php_scylladb_map_new :: "cass_type \<Rightarrow> php_scylladb_map" where
  "php_scylladb_map_new t =
     \<lparr>map_type = t, map_entries = table_empty, map_iter_curr = None, map_iter_temp = None, map_dirty = True, map_hashv = 0\<rparr>"

definition map_construct :: "zval \<Rightarrow> zval \<Rightarrow> php_scylladb_map outcome" where
  "map_construct key_type value_type =
     bind_outcome (type_argument key_type) (\<lambda>k. bind_outcome (type_argument value_type) (\<lambda>v.
       Ret (php_scylladb_map_new (T_Map k v))))"

text \<open>\<^verbatim>\<open>HASH_FIND_ZVAL\<close>.\<close>

definition find_zval :: "php_env \<Rightarrow> (zval, 'v) table \<Rightarrow> zval \<Rightarrow> nat option" where
  "find_zval E T k = table_find (value_key_hash E) (php_scylladb_value_compare E) T k"

definition add_zval :: "php_env \<Rightarrow> (zval, 'v) table \<Rightarrow> nat \<Rightarrow> zval \<Rightarrow> 'v \<Rightarrow> (zval, 'v) table" where
  "add_zval E T a k v = table_insert (value_key_hash E) T a k v"

text \<open>Overwriting the value of the entry with this key, or adding a new entry.\<close>

definition put_zval :: "php_env \<Rightarrow> (zval, 'v) table \<Rightarrow> nat \<Rightarrow> zval \<Rightarrow> 'v \<Rightarrow> (zval, 'v) table" where
  "put_zval E T addr k v =
     (case find_zval E T k of None \<Rightarrow> add_zval E T addr k v | Some entry \<Rightarrow> table_update T entry v)"

definition check_then :: "bool outcome \<Rightarrow> 's \<Rightarrow> (unit \<Rightarrow> bool outcome \<times> 's) \<Rightarrow> bool outcome \<times> 's" where
  "check_then r s f = (if r = Ret True then f () else (r, s))"

definition php_scylladb_map_set ::
    "php_env \<Rightarrow> nat \<Rightarrow> php_scylladb_map \<Rightarrow> zval \<Rightarrow> zval \<Rightarrow> bool outcome \<times> php_scylladb_map" where
  "php_scylladb_map_set E addr m zkey zvalue =
     (if zkey = ZNull then (Throw (Exn InvalidArgumentException ''Invalid key: null is not supported inside maps''), m)
      else if zvalue = ZNull then (Throw (Exn InvalidArgumentException ''Invalid value: null is not supported inside maps''), m)
      else
        check_then (php_scylladb_validate_object E zkey (map_key_type m)) m (\<lambda>_.
        check_then (php_scylladb_validate_object E zvalue (map_value_type m)) m (\<lambda>_.
          (Ret True,
           m\<lparr>map_dirty := True,
             map_entries := put_zval E (map_entries m) addr zkey zvalue\<rparr>))))"

definition php_scylladb_map_get :: "php_env \<Rightarrow> php_scylladb_map \<Rightarrow> zval \<Rightarrow> zval option outcome" where
  "php_scylladb_map_get E m zkey =
     bind_outcome (php_scylladb_validate_object E zkey (map_key_type m)) (\<lambda>ok.
       Ret (if ok then map_option (\<lambda>a. snd (table_cell (map_entries m) a)) (find_zval E (map_entries m) zkey) else None))"

text \<open>The entry after another one in application order, \<^verbatim>\<open>hh.next\<close>.\<close>

definition entry_next :: "nat list \<Rightarrow> nat \<Rightarrow> nat option" where
  "entry_next xs a = (case dropWhile (\<lambda>b. b \<noteq> a) xs of _ # b # _ \<Rightarrow> Some b | _ \<Rightarrow> None)"

definition php_scylladb_map_del :: "php_env \<Rightarrow> php_scylladb_map \<Rightarrow> zval \<Rightarrow> bool outcome \<times> php_scylladb_map" where
  "php_scylladb_map_del E m zkey =
     check_then (php_scylladb_validate_object E zkey (map_key_type m)) m (\<lambda>_.
       case find_zval E (map_entries m) zkey of
         None \<Rightarrow> (Ret False, m)
       | Some entry \<Rightarrow>
           (Ret True,
            m\<lparr>map_dirty := True,
              map_iter_temp :=
                (if map_iter_temp m = Some entry then entry_next (table_order (map_entries m)) entry else map_iter_temp m),
              map_entries := table_remove (map_entries m) entry\<rparr>))"

definition php_scylladb_map_has :: "php_env \<Rightarrow> php_scylladb_map \<Rightarrow> zval \<Rightarrow> bool outcome" where
  "php_scylladb_map_has E m zkey =
     bind_outcome (php_scylladb_validate_object E zkey (map_key_type m)) (\<lambda>ok.
       Ret (ok \<and> find_zval E (map_entries m) zkey \<noteq> None))"

definition php_scylladb_map_populate_keys :: "php_scylladb_map \<Rightarrow> zval list" where
  "php_scylladb_map_populate_keys m = map fst (table_entries (map_entries m))"

definition php_scylladb_map_populate_values :: "php_scylladb_map \<Rightarrow> zval list" where
  "php_scylladb_map_populate_values m = map snd (table_entries (map_entries m))"

definition map_count :: "php_scylladb_map \<Rightarrow> nat" where
  "map_count m = HASH_COUNT (fst (map_entries m))"

text \<open>Reading through an iterator pointer: null is PHP's null, a freed entry is undefined.\<close>

definition read_entry :: "('k, 'v) table \<Rightarrow> nat option \<Rightarrow> ('k \<times> 'v) option outcome" where
  "read_entry T p =
     (case p of None \<Rightarrow> Ret None | Some a \<Rightarrow> (case snd T a of None \<Rightarrow> UB | Some c \<Rightarrow> Ret (Some (c_key c, c_val c))))"

definition map_current :: "php_scylladb_map \<Rightarrow> zval outcome" where
  "map_current m =
     bind_outcome (read_entry (map_entries m) (map_iter_curr m)) (\<lambda>e. Ret (case e of None \<Rightarrow> ZNull | Some e \<Rightarrow> snd e))"

definition map_key :: "php_scylladb_map \<Rightarrow> zval outcome" where
  "map_key m =
     bind_outcome (read_entry (map_entries m) (map_iter_curr m)) (\<lambda>e. Ret (case e of None \<Rightarrow> ZNull | Some e \<Rightarrow> fst e))"

definition advance :: "('k, 'v) table \<Rightarrow> nat option \<Rightarrow> nat option outcome" where
  "advance T p =
     (case p of
        None \<Rightarrow> Ret None
      | Some a \<Rightarrow> if snd T a = None then UB else Ret (entry_next (table_order T) a))"

definition map_next :: "php_scylladb_map \<Rightarrow> php_scylladb_map outcome" where
  "map_next m =
     bind_outcome (advance (map_entries m) (map_iter_temp m)) (\<lambda>p.
       Ret (m\<lparr>map_iter_curr := map_iter_temp m, map_iter_temp := p\<rparr>))"

definition map_valid :: "php_scylladb_map \<Rightarrow> bool" where
  "map_valid m = (map_iter_curr m \<noteq> None)"

definition first_entry :: "('k, 'v) table \<Rightarrow> nat option" where
  "first_entry T = (case table_order T of [] \<Rightarrow> None | a # _ \<Rightarrow> Some a)"

definition second_entry :: "('k, 'v) table \<Rightarrow> nat option" where
  "second_entry T = (case table_order T of _ # b # _ \<Rightarrow> Some b | _ \<Rightarrow> None)"

definition map_rewind :: "php_scylladb_map \<Rightarrow> php_scylladb_map" where
  "map_rewind m = m\<lparr>map_iter_curr := first_entry (map_entries m), map_iter_temp := second_entry (map_entries m)\<rparr>"

text \<open>The hash is computed over the entries in application order, and cached.\<close>

definition map_entries_hash :: "php_env \<Rightarrow> php_scylladb_map \<Rightarrow> 32 word" where
  "map_entries_hash E m =
     combine_all (concat (map (\<lambda>e. [php_scylladb_value_hash E (fst e), php_scylladb_value_hash E (snd e)])
       (table_entries (map_entries m))))"

definition php_scylladb_map_hash_value :: "php_env \<Rightarrow> php_scylladb_map \<Rightarrow> 32 word \<times> php_scylladb_map" where
  "php_scylladb_map_hash_value E m =
     (if \<not> map_dirty m then (map_hashv m, m)
      else let h = map_entries_hash E m in (h, m\<lparr>map_hashv := h, map_dirty := False\<rparr>))"

text \<open>\<^verbatim>\<open>free_obj\<close>: every entry is removed and freed.\<close>

definition php_scylladb_map_free :: "php_scylladb_map \<Rightarrow> (zval, zval) table" where
  "php_scylladb_map_free m = fold (\<lambda>a T. table_remove T a) (table_order (map_entries m)) (map_entries m)"

text \<open>The object as a value, for comparison with others.\<close>

definition table_buckets :: "('k, 'v) table \<Rightarrow> nat" where
  "table_buckets T = (case fst T of None \<Rightarrow> 0 | Some t \<Rightarrow> num_buckets t)"

definition map_zval :: "php_scylladb_map \<Rightarrow> zval" where
  "map_zval m = ZMap (map_type m) (table_buckets (map_entries m)) (table_entries (map_entries m))"

section \<open>Set\<close>

record php_scylladb_set =
  set_type :: cass_type
  set_entries :: "(zval, unit) table"
  set_iter_curr :: "nat option"
  set_iter_temp :: "nat option"
  set_iter_index :: nat
  set_dirty :: bool
  set_hashv :: "32 word"

definition set_value_type :: "php_scylladb_set \<Rightarrow> cass_type" where
  "set_value_type s = (case set_type s of T_Set t \<Rightarrow> t | t \<Rightarrow> t)"

definition php_scylladb_set_new :: "cass_type \<Rightarrow> php_scylladb_set" where
  "php_scylladb_set_new t =
     \<lparr>set_type = t, set_entries = table_empty, set_iter_curr = None, set_iter_temp = None, set_iter_index = 0,
      set_dirty = True, set_hashv = 0\<rparr>"

definition set_construct :: "zval \<Rightarrow> php_scylladb_set outcome" where
  "set_construct type = bind_outcome (type_argument type) (\<lambda>t. Ret (php_scylladb_set_new (T_Set t)))"

definition php_scylladb_set_add ::
    "php_env \<Rightarrow> nat \<Rightarrow> php_scylladb_set \<Rightarrow> zval \<Rightarrow> bool outcome \<times> php_scylladb_set" where
  "php_scylladb_set_add E addr s object =
     (if object = ZNull then (Throw (Exn InvalidArgumentException ''Invalid value: null is not supported inside sets''), s)
      else
        check_then (php_scylladb_validate_object E object (set_value_type s)) s (\<lambda>_.
          (Ret True,
           case find_zval E (set_entries s) object of
             None \<Rightarrow> s\<lparr>set_dirty := True, set_entries := add_zval E (set_entries s) addr object ()\<rparr>
           | Some _ \<Rightarrow> s)))"

definition php_scylladb_set_del :: "php_env \<Rightarrow> php_scylladb_set \<Rightarrow> zval \<Rightarrow> bool outcome \<times> php_scylladb_set" where
  "php_scylladb_set_del E s object =
     check_then (php_scylladb_validate_object E object (set_value_type s)) s (\<lambda>_.
       case find_zval E (set_entries s) object of
         None \<Rightarrow> (Ret False, s)
       | Some entry \<Rightarrow>
           (Ret True,
            s\<lparr>set_dirty := True,
              set_iter_temp :=
                (if set_iter_temp s = Some entry then entry_next (table_order (set_entries s)) entry else set_iter_temp s),
              set_entries := table_remove (set_entries s) entry\<rparr>))"

definition php_scylladb_set_has :: "php_env \<Rightarrow> php_scylladb_set \<Rightarrow> zval \<Rightarrow> bool outcome" where
  "php_scylladb_set_has E s object =
     bind_outcome (php_scylladb_validate_object E object (set_value_type s)) (\<lambda>ok.
       Ret (ok \<and> find_zval E (set_entries s) object \<noteq> None))"

definition php_scylladb_set_populate :: "php_scylladb_set \<Rightarrow> zval list" where
  "php_scylladb_set_populate s = map fst (table_entries (set_entries s))"

definition set_count :: "php_scylladb_set \<Rightarrow> nat" where
  "set_count s = HASH_COUNT (fst (set_entries s))"

definition set_current :: "php_scylladb_set \<Rightarrow> zval outcome" where
  "set_current s =
     bind_outcome (read_entry (set_entries s) (set_iter_curr s)) (\<lambda>e. Ret (case e of None \<Rightarrow> ZNull | Some e \<Rightarrow> fst e))"

definition set_next :: "php_scylladb_set \<Rightarrow> php_scylladb_set outcome" where
  "set_next s =
     bind_outcome (advance (set_entries s) (set_iter_temp s)) (\<lambda>p.
       Ret (s\<lparr>set_iter_curr := set_iter_temp s, set_iter_temp := p, set_iter_index := set_iter_index s + 1\<rparr>))"

definition set_rewind :: "php_scylladb_set \<Rightarrow> php_scylladb_set" where
  "set_rewind s =
     s\<lparr>set_iter_curr := first_entry (set_entries s), set_iter_temp := second_entry (set_entries s), set_iter_index := 0\<rparr>"

definition set_entries_hash :: "php_env \<Rightarrow> php_scylladb_set \<Rightarrow> 32 word" where
  "set_entries_hash E s = combine_all (map (\<lambda>e. php_scylladb_value_hash E (fst e)) (table_entries (set_entries s)))"

definition php_scylladb_set_hash_value :: "php_env \<Rightarrow> php_scylladb_set \<Rightarrow> 32 word \<times> php_scylladb_set" where
  "php_scylladb_set_hash_value E s =
     (if \<not> set_dirty s then (set_hashv s, s)
      else let h = set_entries_hash E s in (h, s\<lparr>set_hashv := h, set_dirty := False\<rparr>))"

definition php_scylladb_set_free :: "php_scylladb_set \<Rightarrow> (zval, unit) table" where
  "php_scylladb_set_free s = fold (\<lambda>a T. table_remove T a) (table_order (set_entries s)) (set_entries s)"

definition set_zval :: "php_scylladb_set \<Rightarrow> zval" where
  "set_zval s = ZSet (set_type s) (table_buckets (set_entries s)) (map fst (table_entries (set_entries s)))"

definition set_key :: "php_scylladb_set \<Rightarrow> zval" where
  "set_key s = ZLong (int (set_iter_index s))"

definition set_valid :: "php_scylladb_set \<Rightarrow> bool" where
  "set_valid s = (set_iter_curr s \<noteq> None)"

section \<open>Methods\<close>

text \<open>
  The methods PHP code calls: the result of the operation as a PHP value, with the object after the
  call. A method that returns nothing returns null.
\<close>

definition zbool :: "bool \<Rightarrow> zval" where
  "zbool b = (if b then ZTrue else ZFalse)"

definition returning :: "('a \<Rightarrow> zval) \<Rightarrow> 'a outcome \<times> 's \<Rightarrow> zval outcome \<times> 's" where
  "returning f r = (bind_outcome (fst r) (\<lambda>x. Ret (f x)), snd r)"

definition map_method_set :: "php_env \<Rightarrow> nat \<Rightarrow> php_scylladb_map \<Rightarrow> zval \<Rightarrow> zval \<Rightarrow> zval outcome \<times> php_scylladb_map" where
  "map_method_set E addr m key val = returning zbool (php_scylladb_map_set E addr m key val)"

definition map_method_get :: "php_env \<Rightarrow> php_scylladb_map \<Rightarrow> zval \<Rightarrow> zval outcome \<times> php_scylladb_map" where
  "map_method_get E m key = returning (case_option ZNull id) (php_scylladb_map_get E m key, m)"

definition map_method_remove :: "php_env \<Rightarrow> php_scylladb_map \<Rightarrow> zval \<Rightarrow> zval outcome \<times> php_scylladb_map" where
  "map_method_remove E m key = returning zbool (php_scylladb_map_del E m key)"

definition map_method_has :: "php_env \<Rightarrow> php_scylladb_map \<Rightarrow> zval \<Rightarrow> zval outcome \<times> php_scylladb_map" where
  "map_method_has E m key = returning zbool (php_scylladb_map_has E m key, m)"

definition map_offsetSet :: "php_env \<Rightarrow> nat \<Rightarrow> php_scylladb_map \<Rightarrow> zval \<Rightarrow> zval \<Rightarrow> zval outcome \<times> php_scylladb_map" where
  "map_offsetSet E addr m key val = returning (\<lambda>_. ZNull) (php_scylladb_map_set E addr m key val)"

definition map_offsetGet :: "php_env \<Rightarrow> php_scylladb_map \<Rightarrow> zval \<Rightarrow> zval outcome \<times> php_scylladb_map" where
  "map_offsetGet E m key = returning (case_option ZNull id) (php_scylladb_map_get E m key, m)"

definition map_offsetUnset :: "php_env \<Rightarrow> php_scylladb_map \<Rightarrow> zval \<Rightarrow> zval outcome \<times> php_scylladb_map" where
  "map_offsetUnset E m key = returning (\<lambda>_. ZNull) (php_scylladb_map_del E m key)"

definition map_offsetExists :: "php_env \<Rightarrow> php_scylladb_map \<Rightarrow> zval \<Rightarrow> zval outcome \<times> php_scylladb_map" where
  "map_offsetExists E m key = returning zbool (php_scylladb_map_has E m key, m)"

definition set_method_add :: "php_env \<Rightarrow> nat \<Rightarrow> php_scylladb_set \<Rightarrow> zval \<Rightarrow> zval outcome \<times> php_scylladb_set" where
  "set_method_add E addr s object = returning zbool (php_scylladb_set_add E addr s object)"

definition set_method_remove :: "php_env \<Rightarrow> php_scylladb_set \<Rightarrow> zval \<Rightarrow> zval outcome \<times> php_scylladb_set" where
  "set_method_remove E s object = returning zbool (php_scylladb_set_del E s object)"

definition set_method_has :: "php_env \<Rightarrow> php_scylladb_set \<Rightarrow> zval \<Rightarrow> zval outcome \<times> php_scylladb_set" where
  "set_method_has E s object = returning zbool (php_scylladb_set_has E s object, s)"

text \<open>Array access is the same change as the named method.\<close>

lemma offset_methods:
  "snd (map_offsetSet E a m k v) = snd (map_method_set E a m k v)"
  "map_offsetGet E m k = map_method_get E m k"
  "snd (map_offsetUnset E m k) = snd (map_method_remove E m k)"
  "map_offsetExists E m k = map_method_has E m k"
  by (simp_all add: map_offsetSet_def map_method_set_def map_offsetGet_def map_method_get_def
      map_offsetUnset_def map_method_remove_def map_offsetExists_def map_method_has_def returning_def)

section \<open>Invariants\<close>

abbreviation keys_ok :: "php_env \<Rightarrow> (zval, 'v) table \<Rightarrow> bool" where
  "keys_ok E T \<equiv> table_ok {v. keyable v} (value_key_hash E) (php_scylladb_value_compare E) T"

text \<open>
  The table is well formed, the type is a map type, every entry was accepted for it, the second
  iterator points to a listed entry, and a hash that is not dirty is the hash of the entries.
\<close>

definition map_inv :: "php_env \<Rightarrow> php_scylladb_map \<Rightarrow> bool" where
  "map_inv E m \<longleftrightarrow>
     keys_ok E (map_entries m) \<and> (\<exists>k v. map_type m = T_Map k v) \<and>
     (\<forall>e \<in> set (table_entries (map_entries m)). fst e \<noteq> ZNull \<and> snd e \<noteq> ZNull \<and>
        accepted E (map_key_type m) (fst e) \<and> accepted E (map_value_type m) (snd e)) \<and>
     (\<forall>a. map_iter_temp m = Some a \<longrightarrow> a \<in> set (table_order (map_entries m))) \<and>
     (\<not> map_dirty m \<longrightarrow> map_hashv m = map_entries_hash E m)"

definition set_inv :: "php_env \<Rightarrow> php_scylladb_set \<Rightarrow> bool" where
  "set_inv E s \<longleftrightarrow>
     keys_ok E (set_entries s) \<and> (\<exists>t. set_type s = T_Set t) \<and>
     (\<forall>e \<in> set (table_entries (set_entries s)). fst e \<noteq> ZNull \<and> accepted E (set_value_type s) (fst e)) \<and>
     (\<forall>a. set_iter_temp s = Some a \<longrightarrow> a \<in> set (table_order (set_entries s))) \<and>
     (\<not> set_dirty s \<longrightarrow> set_hashv s = set_entries_hash E s)"

text \<open>The life of an object: any sequence of operations, with keys that satisfy the contract.\<close>

inductive map_reachable :: "php_env \<Rightarrow> php_scylladb_map \<Rightarrow> bool" for E where
  new: "map_reachable E (php_scylladb_map_new (T_Map k v))"
| set: "map_reachable E m \<Longrightarrow> keyable k \<Longrightarrow> snd (map_entries m) a = None \<Longrightarrow>
    map_reachable E (snd (php_scylladb_map_set E a m k v))"
| del: "map_reachable E m \<Longrightarrow> keyable k \<Longrightarrow> map_reachable E (snd (php_scylladb_map_del E m k))"
| rewind: "map_reachable E m \<Longrightarrow> map_reachable E (map_rewind m)"
| "next": "map_reachable E m \<Longrightarrow> map_next m = Ret m' \<Longrightarrow> map_reachable E m'"
| hash: "map_reachable E m \<Longrightarrow> map_reachable E (snd (php_scylladb_map_hash_value E m))"

inductive set_reachable :: "php_env \<Rightarrow> php_scylladb_set \<Rightarrow> bool" for E where
  new: "set_reachable E (php_scylladb_set_new (T_Set t))"
| add: "set_reachable E s \<Longrightarrow> keyable v \<Longrightarrow> snd (set_entries s) a = None \<Longrightarrow>
    set_reachable E (snd (php_scylladb_set_add E a s v))"
| del: "set_reachable E s \<Longrightarrow> keyable v \<Longrightarrow> set_reachable E (snd (php_scylladb_set_del E s v))"
| rewind: "set_reachable E s \<Longrightarrow> set_reachable E (set_rewind s)"
| "next": "set_reachable E s \<Longrightarrow> set_next s = Ret s' \<Longrightarrow> set_reachable E s'"
| hash: "set_reachable E s \<Longrightarrow> set_reachable E (snd (php_scylladb_set_hash_value E s))"

lemma entry_next_in: "entry_next xs a = Some b \<Longrightarrow> b \<in> set xs"
  by (auto simp: entry_next_def split: list.splits dest: set_dropWhileD dest!: arg_cong [of _ _ set])

lemma entry_next_neq: "distinct xs \<Longrightarrow> entry_next xs a = Some b \<Longrightarrow> b \<noteq> a"
proof (induction xs)
  case (Cons x xs)
  then show ?case by (cases "x = a"; cases xs) (auto simp: entry_next_def split: if_splits)
qed (simp add: entry_next_def)

lemma entries_in: "first_entry T = Some a \<Longrightarrow> a \<in> set (table_order T)" "second_entry T = Some a \<Longrightarrow> a \<in> set (table_order T)"
  by (auto simp: first_entry_def second_entry_def split: list.splits)

lemma assoc_put_member: "e \<in> set (assoc_put cmp k v es) \<Longrightarrow> e \<in> set es \<or> e = (k, v) \<or> (\<exists>e' \<in> set es. e = (fst e', v))"
  by (auto simp: assoc_put_def split: if_splits)

lemma assoc_del_member: "e \<in> set (assoc_del cmp k es) \<Longrightarrow> e \<in> set es"
  by (simp add: assoc_del_def)

lemma empty_entries [simp]: "table_entries table_empty = []" "table_order table_empty = []"
  by (simp_all add: table_entries_def table_order_def table_empty_def app_list_def)

lemma map_inv_iter:
  "map_inv E m \<Longrightarrow> (\<And>a. p = Some a \<Longrightarrow> a \<in> set (table_order (map_entries m))) \<Longrightarrow>
   map_inv E (m\<lparr>map_iter_curr := c, map_iter_temp := p\<rparr>)"
  by (simp add: map_inv_def map_key_type_def map_value_type_def map_entries_hash_def)

lemma set_inv_iter:
  "set_inv E s \<Longrightarrow> (\<And>a. p = Some a \<Longrightarrow> a \<in> set (table_order (set_entries s))) \<Longrightarrow>
   set_inv E (s\<lparr>set_iter_curr := c, set_iter_temp := p, set_iter_index := i\<rparr>)"
  by (simp add: set_inv_def set_value_type_def set_entries_hash_def)

lemma next_in: "Option.bind p (entry_next xs) = Some a \<Longrightarrow> a \<in> set xs"
  by (cases p) (auto dest: entry_next_in)

context value_env
begin

lemma add_zval_ok:
  assumes "keys_ok E T" and "keyable k" and "snd T a = None" and "find_zval E T k = None"
  shows "keys_ok E (add_zval E T a k v)" and "table_entries (add_zval E T a k v) = assoc_put (php_scylladb_value_compare E) k v (table_entries T)"
    and "table_order (add_zval E T a k v) = table_order T @ [a]"
proof -
  have k: "k \<in> {v. keyable v}" using assms(2) by simp
  note f = assms(4) [unfolded find_zval_def]
  show "keys_ok E (add_zval E T a k v)" "table_order (add_zval E T a k v) = table_order T @ [a]"
    using value_keys.insert_ok [OF assms(1) k f assms(3)] by (simp_all add: add_zval_def)
  show "table_entries (add_zval E T a k v) = assoc_put (php_scylladb_value_compare E) k v (table_entries T)"
    using value_keys.entries_insert [OF assms(1) k f assms(3)] value_keys.found_ex [OF assms(1) k] f
    by (simp add: add_zval_def assoc_put_def)
qed

lemma put_zval_ok:
  assumes "keys_ok E T" and "keyable k" and "snd T a = None"
  shows "keys_ok E (put_zval E T a k v)" and "table_entries (put_zval E T a k v) = assoc_put (php_scylladb_value_compare E) k v (table_entries T)"
    and "set (table_order T) \<subseteq> set (table_order (put_zval E T a k v))"
proof -
  have k: "k \<in> {v. keyable v}" using assms(2) by simp
  have "keys_ok E (put_zval E T a k v) \<and> table_entries (put_zval E T a k v) = assoc_put (php_scylladb_value_compare E) k v (table_entries T) \<and>
      set (table_order T) \<subseteq> set (table_order (put_zval E T a k v))"
  proof (cases "find_zval E T k")
    case None
    then show ?thesis using add_zval_ok [OF assms None] by (auto simp: put_zval_def)
  next
    case (Some b)
    then have f: "table_find (value_key_hash E) (php_scylladb_value_compare E) T k = Some b" by (simp add: find_zval_def)
    then show ?thesis
      using value_keys.update_ok [OF assms(1)] value_keys.entries_update [OF assms(1) k f] value_keys.found_ex [OF assms(1) k] Some
      by (auto simp: put_zval_def assoc_put_def)
  qed
  then show "keys_ok E (put_zval E T a k v)" "table_entries (put_zval E T a k v) = assoc_put (php_scylladb_value_compare E) k v (table_entries T)"
    "set (table_order T) \<subseteq> set (table_order (put_zval E T a k v))" by blast+
qed

lemma remove_zval_ok:
  assumes "keys_ok E T" and "keyable k" and "find_zval E T k = Some b"
  shows "keys_ok E (table_remove T b)" and "table_entries (table_remove T b) = assoc_del (php_scylladb_value_compare E) k (table_entries T)"
    and "table_order (table_remove T b) = remove1 b (table_order T)" and "distinct (table_order T)" and "snd (table_remove T b) b = None"
proof -
  have k: "k \<in> {v. keyable v}" using assms(2) by simp
  note f = assms(3) [unfolded find_zval_def]
  have b: "snd T b \<noteq> None" using value_keys.found_cell [OF assms(1) k f] by (metis not_None_eq)
  show "keys_ok E (table_remove T b)" "table_order (table_remove T b) = remove1 b (table_order T)" "snd (table_remove T b) b = None"
    using value_keys.remove_ok [OF assms(1) b] by simp_all
  show "table_entries (table_remove T b) = assoc_del (php_scylladb_value_compare E) k (table_entries T)"
    using value_keys.entries_remove [OF assms(1) k f] by (simp add: assoc_del_def)
  show "distinct (table_order T)" using value_keys.order_distinct [OF assms(1)] .
qed

lemma find_zval_assoc:
  assumes "keys_ok E T" and "keyable k"
  shows "map_option (\<lambda>a. snd (table_cell T a)) (find_zval E T k) = assoc_find (php_scylladb_value_compare E) k (table_entries T)"
    and "find_zval E T k = None \<longleftrightarrow> assoc_find (php_scylladb_value_compare E) k (table_entries T) = None"
proof -
  have "k \<in> {v. keyable v}" using assms(2) by simp
  note * = value_keys.entries_find [OF assms(1) this, folded find_zval_def]
  show "map_option (\<lambda>a. snd (table_cell T a)) (find_zval E T k) = assoc_find (php_scylladb_value_compare E) k (table_entries T)" by (rule *)
  show "find_zval E T k = None \<longleftrightarrow> assoc_find (php_scylladb_value_compare E) k (table_entries T) = None"
    unfolding * [symmetric] by simp
qed

lemma temp_ok_remove:
  assumes "\<And>a. p = Some a \<Longrightarrow> a \<in> set xs" and "distinct xs"
  shows "(if p = Some b then entry_next xs b else p) = Some a \<Longrightarrow> a \<in> set (remove1 b xs)"
  using assms entry_next_in [of xs b a] entry_next_neq [of xs b a] by (auto split: if_splits)

lemma map_set_inv:
  assumes m: "map_inv E m" and k: "keyable k" and a: "snd (map_entries m) a = None"
  shows "map_inv E (snd (php_scylladb_map_set E a m k v))"
proof -
  let ?m = "m\<lparr>map_dirty := True, map_entries := put_zval E (map_entries m) a k v\<rparr>"
  have ok: "keys_ok E (map_entries m)" using m by (simp add: map_inv_def)
  note p = put_zval_ok [OF ok k a, of v]
  have "map_inv E ?m" if "k \<noteq> ZNull" "v \<noteq> ZNull" "accepted E (map_key_type m) k" "accepted E (map_value_type m) v"
    using m that p assoc_put_member [of _ "php_scylladb_value_compare E" k v "table_entries (map_entries m)"]
    unfolding map_inv_def map_key_type_def map_value_type_def by fastforce
  then show ?thesis
    using m by (simp add: php_scylladb_map_set_def check_then_def accepted_def)
qed

lemma map_del_inv:
  assumes m: "map_inv E m" and k: "keyable k"
  shows "map_inv E (snd (php_scylladb_map_del E m k))"
proof (cases "find_zval E (map_entries m) k")
  case None
  then show ?thesis using m by (simp add: php_scylladb_map_del_def check_then_def)
next
  case (Some b)
  have ok: "keys_ok E (map_entries m)" using m by (simp add: map_inv_def)
  note r = remove_zval_ok [OF ok k Some]
  define m' where "m' = m\<lparr>map_dirty := True,
      map_iter_temp := (if map_iter_temp m = Some b then entry_next (table_order (map_entries m)) b else map_iter_temp m),
      map_entries := table_remove (map_entries m) b\<rparr>"
  have "a \<in> set (table_order (map_entries m'))" if "map_iter_temp m' = Some a" for a
    using m that temp_ok_remove [of "map_iter_temp m" "table_order (map_entries m)" b a, OF _ r(4)]
    by (simp add: m'_def map_inv_def r(3))
  then have "map_inv E m'"
    using m r(1) by (auto simp: m'_def map_inv_def r(2) map_key_type_def map_value_type_def dest: assoc_del_member)
  then show ?thesis using m Some by (simp add: php_scylladb_map_del_def check_then_def m'_def)
qed

lemma map_next_inv:
  assumes m: "map_inv E m"
  shows "\<exists>m'. map_next m = Ret m'" and "map_next m = Ret m' \<Longrightarrow> map_inv E m'"
proof -
  have ok: "keys_ok E (map_entries m)" using m by (simp add: map_inv_def)
  have "snd (map_entries m) a \<noteq> None" if "map_iter_temp m = Some a" for a
    using m that value_keys.cell_listed [OF ok, of a] by (auto simp: map_inv_def)
  then have n: "map_next m = Ret (m\<lparr>map_iter_curr := map_iter_temp m,
      map_iter_temp := Option.bind (map_iter_temp m) (entry_next (table_order (map_entries m)))\<rparr>)"
    by (cases "map_iter_temp m") (simp_all add: map_next_def advance_def)
  then show "\<exists>m'. map_next m = Ret m'" by simp
  show "map_next m = Ret m' \<Longrightarrow> map_inv E m'"
    using map_inv_iter [OF m next_in] by (auto simp: n)
qed

lemma map_reachable_inv: "map_reachable E m \<Longrightarrow> map_inv E m"
proof (induction rule: map_reachable.induct)
  case (new k v)
  then show ?case
    by (simp add: php_scylladb_map_new_def map_inv_def value_keys.empty_ok)
next
  case (rewind m)
  then show ?case
    unfolding map_rewind_def using entries_in(2) by (intro map_inv_iter)
next
  case (hash m)
  then show ?case
    by (auto simp: php_scylladb_map_hash_value_def map_inv_def map_key_type_def map_value_type_def map_entries_hash_def Let_def)
qed (simp_all add: map_set_inv map_del_inv map_next_inv)

lemma set_add_inv:
  assumes s: "set_inv E s" and v: "keyable v" and a: "snd (set_entries s) a = None"
  shows "set_inv E (snd (php_scylladb_set_add E a s v))"
proof (cases "find_zval E (set_entries s) v")
  case None
  have ok: "keys_ok E (set_entries s)" using s by (simp add: set_inv_def)
  note p = add_zval_ok [OF ok v a None, of "()"]
  have "set_inv E (s\<lparr>set_dirty := True, set_entries := add_zval E (set_entries s) a v ()\<rparr>)"
    if "v \<noteq> ZNull" "accepted E (set_value_type s) v"
    using s that p assoc_put_member [of _ "php_scylladb_value_compare E" v "()" "table_entries (set_entries s)"]
    unfolding set_inv_def set_value_type_def by fastforce
  then show ?thesis using s None by (simp add: php_scylladb_set_add_def check_then_def accepted_def)
qed (use s in \<open>simp add: php_scylladb_set_add_def check_then_def\<close>)

lemma set_del_inv:
  assumes s: "set_inv E s" and v: "keyable v"
  shows "set_inv E (snd (php_scylladb_set_del E s v))"
proof (cases "find_zval E (set_entries s) v")
  case None
  then show ?thesis using s by (simp add: php_scylladb_set_del_def check_then_def)
next
  case (Some b)
  have ok: "keys_ok E (set_entries s)" using s by (simp add: set_inv_def)
  note r = remove_zval_ok [OF ok v Some]
  define s' where "s' = s\<lparr>set_dirty := True,
      set_iter_temp := (if set_iter_temp s = Some b then entry_next (table_order (set_entries s)) b else set_iter_temp s),
      set_entries := table_remove (set_entries s) b\<rparr>"
  have "a \<in> set (table_order (set_entries s'))" if "set_iter_temp s' = Some a" for a
    using s that temp_ok_remove [of "set_iter_temp s" "table_order (set_entries s)" b a, OF _ r(4)]
    by (simp add: s'_def set_inv_def r(3))
  then have "set_inv E s'"
    using s r(1) by (auto simp: s'_def set_inv_def r(2) set_value_type_def dest: assoc_del_member)
  then show ?thesis using s Some by (simp add: php_scylladb_set_del_def check_then_def s'_def)
qed

lemma set_next_inv:
  assumes s: "set_inv E s"
  shows "\<exists>s'. set_next s = Ret s'" and "set_next s = Ret s' \<Longrightarrow> set_inv E s'"
proof -
  have ok: "keys_ok E (set_entries s)" using s by (simp add: set_inv_def)
  have "snd (set_entries s) a \<noteq> None" if "set_iter_temp s = Some a" for a
    using s that value_keys.cell_listed [OF ok, of a] by (auto simp: set_inv_def)
  then have n: "set_next s = Ret (s\<lparr>set_iter_curr := set_iter_temp s,
      set_iter_temp := Option.bind (set_iter_temp s) (entry_next (table_order (set_entries s))),
      set_iter_index := set_iter_index s + 1\<rparr>)"
    by (cases "set_iter_temp s") (simp_all add: set_next_def advance_def)
  then show "\<exists>s'. set_next s = Ret s'" by simp
  show "set_next s = Ret s' \<Longrightarrow> set_inv E s'"
    using set_inv_iter [OF s next_in] by (auto simp: n)
qed

lemma set_reachable_inv: "set_reachable E s \<Longrightarrow> set_inv E s"
proof (induction rule: set_reachable.induct)
  case (new t)
  then show ?case
    by (simp add: php_scylladb_set_new_def set_inv_def value_keys.empty_ok)
next
  case (rewind s)
  then show ?case unfolding set_rewind_def using entries_in(2) by (intro set_inv_iter)
next
  case (hash s)
  then show ?case
    by (auto simp: php_scylladb_set_hash_value_def set_inv_def set_value_type_def set_entries_hash_def Let_def)
qed (simp_all add: set_add_inv set_del_inv set_next_inv)

end

section \<open>Comparison of two objects\<close>

text \<open>\<^verbatim>\<open>php_scylladb_map_compare\<close> and \<^verbatim>\<open>php_scylladb_set_compare\<close> on the tables themselves, for two objects of the class.\<close>

fun map_table_loop :: "php_env \<Rightarrow> (zval \<times> zval) list \<Rightarrow> (zval, zval) table \<Rightarrow> int" where
  "map_table_loop E [] T = 0"
| "map_table_loop E (e # es) T =
     (case find_zval E T (fst e) of
        None \<Rightarrow> 1
      | Some a \<Rightarrow>
          (let r = php_scylladb_value_compare E (snd e) (snd (table_cell T a)) in if r \<noteq> 0 then r else map_table_loop E es T))"

definition map_object_compare :: "php_env \<Rightarrow> php_scylladb_map \<Rightarrow> php_scylladb_map \<Rightarrow> int" where
  "map_object_compare E m1 m2 =
     type_count_compare E (map_type m1) (map_type m2) (map_count m1) (map_count m2)
       (map_table_loop E (table_entries (map_entries m1)) (map_entries m2))"

fun set_table_loop :: "php_env \<Rightarrow> (zval \<times> unit) list \<Rightarrow> (zval, unit) table \<Rightarrow> int" where
  "set_table_loop E [] T = 0"
| "set_table_loop E (e # es) T = (if find_zval E T (fst e) = None then 1 else set_table_loop E es T)"

definition set_object_compare :: "php_env \<Rightarrow> php_scylladb_set \<Rightarrow> php_scylladb_set \<Rightarrow> int" where
  "set_object_compare E s1 s2 =
     type_count_compare E (set_type s1) (set_type s2) (set_count s1) (set_count s2)
       (set_table_loop E (table_entries (set_entries s1)) (set_entries s2))"

context value_env
begin

lemma table_keyable: "keys_ok E T \<Longrightarrow> e \<in> set (table_entries T) \<Longrightarrow> keyable (fst e)"
  using value_keys.entries_ok [of T] by (auto simp: assoc_ok_def)

lemma bucket_irrelevant:
  assumes "keyable k" and "keyable l"
  shows "same_bucket E n l k \<and> php_scylladb_value_compare E l k = 0 \<longleftrightarrow> php_scylladb_value_compare E l k = 0"
  using hash_equal [OF assms(2,1)] by (auto simp: same_bucket_def)

lemma bucket_find:
  assumes T: "keys_ok E T" and k: "keyable k"
  shows "find (\<lambda>e. same_bucket E n (fst e) k \<and> php_scylladb_value_compare E (fst e) k = 0) (table_entries T) =
    find (\<lambda>e. php_scylladb_value_compare E (fst e) k = 0) (table_entries T)"
  using table_keyable [OF T] bucket_irrelevant [OF k] by (intro find_cong) auto

lemma map_loop_tables:
  assumes T: "keys_ok E T" and es: "\<And>e. e \<in> set es \<Longrightarrow> keyable (fst e)"
  shows "map_loop E (php_scylladb_value_compare E) n es (table_entries T) = map_table_loop E es T"
  using es
proof (induction es)
  case (Cons e es)
  have k: "keyable (fst e)" using Cons.prems by simp
  have "find_zval E T (fst e) = None \<longleftrightarrow> find (\<lambda>l. php_scylladb_value_compare E (fst l) (fst e) = 0) (table_entries T) = None"
    "\<And>a l. find_zval E T (fst e) = Some a \<Longrightarrow> find (\<lambda>l. php_scylladb_value_compare E (fst l) (fst e) = 0) (table_entries T) = Some l \<Longrightarrow>
      snd l = snd (table_cell T a)"
    using find_zval_assoc [OF T k] by (auto simp: assoc_find_def)
  then show ?case using Cons by (auto simp: bucket_find [OF T k] Let_def split: option.splits)
qed simp

lemma set_loop_tables:
  assumes T: "keys_ok E T" and es: "\<And>e. e \<in> set es \<Longrightarrow> keyable (fst e)"
  shows "set_loop E (php_scylladb_value_compare E) n (map fst es) (map fst (table_entries T)) = set_table_loop E es T"
  using es
proof (induction es)
  case (Cons e es)
  have k: "keyable (fst e)" using Cons.prems by simp
  have "list_ex (\<lambda>w. same_bucket E n w (fst e) \<and> php_scylladb_value_compare E w (fst e) = 0) (map fst (table_entries T)) \<longleftrightarrow>
      (\<exists>l \<in> set (table_entries T). php_scylladb_value_compare E (fst l) (fst e) = 0)"
    unfolding list_ex_iff set_map bex_simps using bucket_irrelevant [OF k] table_keyable [OF T] by meson
  also have "\<dots> \<longleftrightarrow> find_zval E T (fst e) \<noteq> None"
    unfolding find_zval_assoc(2) [OF T k] assoc_find_def option.map_disc_iff find_None_iff by blast
  finally have "list_ex (\<lambda>w. same_bucket E n w (fst e) \<and> php_scylladb_value_compare E w (fst e) = 0) (map fst (table_entries T)) \<longleftrightarrow>
      find_zval E T (fst e) \<noteq> None" .
  then show ?case using Cons by (simp add: find_None_iff)
qed simp

lemma map_table_loop_zero:
  assumes T: "keys_ok E T" and es: "\<And>e. e \<in> set es \<Longrightarrow> keyable (fst e)"
  shows "map_table_loop E es T = 0 \<longleftrightarrow>
    (\<forall>e \<in> set es. \<exists>w. assoc_find (php_scylladb_value_compare E) (fst e) (table_entries T) = Some w \<and> php_scylladb_value_compare E (snd e) w = 0)"
  using es
proof (induction es)
  case (Cons e es)
  have k: "keyable (fst e)" using Cons.prems by simp
  show ?case using Cons find_zval_assoc(1) [OF T k, symmetric] by (auto simp: Let_def split: option.splits)
qed simp

lemma set_table_loop_zero:
  assumes T: "keys_ok E T" and es: "\<And>e. e \<in> set es \<Longrightarrow> keyable (fst e)"
  shows "set_table_loop E es T = 0 \<longleftrightarrow>
    (\<forall>e \<in> set es. assoc_find (php_scylladb_value_compare E) (fst e) (table_entries T) \<noteq> None)"
  using es
proof (induction es)
  case (Cons e es)
  have k: "keyable (fst e)" using Cons.prems by simp
  show ?case using Cons find_zval_assoc(2) [OF T k] by auto
qed simp

lemma free_all:
  "keys_ok E T \<Longrightarrow> table_order T = xs \<Longrightarrow> snd (fold (\<lambda>a T. table_remove T a) xs T) = Map.empty"
proof (induction xs arbitrary: T)
  case Nil
  then show ?case using value_keys.table_okD(2) [OF Nil.prems(1)] by simp
next
  case (Cons a xs)
  have "snd T a \<noteq> None" using value_keys.cell_listed [OF Cons.prems(1), of a] Cons.prems(2) by simp
  note r = value_keys.remove_ok [OF Cons.prems(1) this]
  show ?case using Cons.IH [OF r(1)] r(2) Cons.prems(2) by simp
qed

lemma count_entries: "keys_ok E T \<Longrightarrow> HASH_COUNT (fst T) = length (table_entries T)"
  using value_keys.count_order [of T] by (simp add: table_entries_def)

end

lemma type_count_zero:
  "type_count_compare E t u n m r = 0 \<longleftrightarrow> php_scylladb_type_compare (type_codes E) t u = 0 \<and> n = m \<and> r = 0"
  by (simp add: type_count_compare_def Let_def)



section \<open>Iteration\<close>

text \<open>A loop of \<open>n\<close> calls of \<^verbatim>\<open>next\<close>.\<close>

primrec map_advance :: "nat \<Rightarrow> php_scylladb_map \<Rightarrow> php_scylladb_map outcome" where
  "map_advance 0 m = Ret m"
| "map_advance (Suc n) m = bind_outcome (map_advance n m) map_next"

definition nth_entry :: "'a list \<Rightarrow> nat \<Rightarrow> 'a option" where
  "nth_entry xs n = (if n < length xs then Some (xs ! n) else None)"

lemma entry_next_nth:
  assumes "distinct xs" and "n < length xs"
  shows "entry_next xs (xs ! n) = nth_entry xs (Suc n)"
proof -
  have "takeWhile (\<lambda>b. b \<noteq> xs ! n) xs = take n xs"
    using assms by (intro takeWhile_eq_take_P_nth) (auto simp: nth_eq_iff_index_eq)
  then have "dropWhile (\<lambda>b. b \<noteq> xs ! n) xs = drop n xs"
    by (metis assms(2) dropWhile_eq_drop length_take less_imp_le_nat min.absorb2)
  then show ?thesis
    using assms(2) Cons_nth_drop_Suc [of n xs] Cons_nth_drop_Suc [of "Suc n" xs]
    by (cases "Suc n < length xs") (auto simp: entry_next_def nth_entry_def split: list.split)
qed

context value_env
begin

lemma map_advance_at:
  assumes m: "map_inv E m"
  shows "map_advance n (map_rewind m) =
    Ret (m\<lparr>map_iter_curr := nth_entry (table_order (map_entries m)) n, map_iter_temp := nth_entry (table_order (map_entries m)) (Suc n)\<rparr>)"
proof (induction n)
  case 0
  have "first_entry T = nth_entry (table_order T) 0" "second_entry T = nth_entry (table_order T) (Suc 0)" for T :: "(zval, zval) table"
    by (auto simp: first_entry_def second_entry_def nth_entry_def split: list.split)
  then show ?case by (simp add: map_rewind_def)
next
  case (Suc n)
  let ?xs = "table_order (map_entries m)"
  have ok: "keys_ok E (map_entries m)" using m by (simp add: map_inv_def)
  have live: "\<exists>c. snd (map_entries m) (?xs ! i) = Some c" if "i < length ?xs" for i
    using value_keys.cell_listed [OF ok, of "?xs ! i"] that by auto
  have "advance (map_entries m) (nth_entry ?xs i) = Ret (nth_entry ?xs (Suc i))" for i
    using entry_next_nth [OF value_keys.order_distinct [OF ok], of i] live [of i]
    by (cases "i < length ?xs") (auto simp: advance_def nth_entry_def)
  then show ?case using Suc by (simp add: map_next_def)
qed

lemma nth_cell:
  assumes "keys_ok E T" and "n < length (table_entries T)"
  shows "read_entry T (nth_entry (table_order T) n) = Ret (Some (table_entries T ! n))"
proof -
  have n: "n < length (table_order T)" using assms(2) by (simp add: table_entries_def)
  then obtain c where "snd T (table_order T ! n) = Some c" using value_keys.cell_listed [OF assms(1)] by (metis nth_mem)
  then show ?thesis using n by (simp add: read_entry_def nth_entry_def table_entries_def table_cell_def)
qed

lemma find_nth:
  assumes "keys_ok E T" and "n < length (table_entries T)"
  shows "find_zval E T (fst (table_entries T ! n)) = Some (table_order T ! n)"
proof -
  have n: "n < length (table_order T)" using assms(2) by (simp add: table_entries_def)
  then obtain c where c: "snd T (table_order T ! n) = Some c" using value_keys.cell_listed [OF assms(1)] by (metis nth_mem)
  have k: "c_key c \<in> {v. keyable v}" using value_keys.table_okD(3) [OF assms(1) c] .
  have "table_entries T ! n = (c_key c, c_val c)" using n c by (simp add: table_entries_def table_cell_def)
  then show ?thesis using value_keys.find_iff [OF assms(1) k] c value_keys.key_refl [OF k] by (simp add: find_zval_def)
qed

end

text \<open>
  Property C38. A loop over a Map visits the entries in insertion order, key and value, and ends after
  the last one. Removing the entry the loop stands on frees it while the iterator still points to it:
  reading the current key or value before the next step is a use after free.
\<close>

theorem map_iteration:
  assumes "gmp_spec (gmp_lib E)" and "inj (type_codes E)" and m: "map_inv E m"
  defines "es \<equiv> table_entries (map_entries m)"
  shows "\<exists>m'. map_advance n (map_rewind m) = Ret m' \<and> (map_valid m' \<longleftrightarrow> n < length es) \<and>
    (n < length es \<longrightarrow> map_key m' = Ret (fst (es ! n)) \<and> map_current m' = Ret (snd (es ! n)) \<and>
      (accepted E (map_key_type m) (fst (es ! n)) \<longrightarrow> map_current (snd (php_scylladb_map_del E m' (fst (es ! n)))) = UB))"
proof -
  have E: "value_env E" using assms(1,2) by unfold_locales
  have ok: "keys_ok E (map_entries m)" using m by (simp add: map_inv_def)
  define m' where "m' = m\<lparr>map_iter_curr := nth_entry (table_order (map_entries m)) n, map_iter_temp := nth_entry (table_order (map_entries m)) (Suc n)\<rparr>"
  have "map_current (snd (php_scylladb_map_del E m' (fst (es ! n)))) = UB"
    if n: "n < length es" and a: "accepted E (map_key_type m) (fst (es ! n))"
  proof -
    have f: "find_zval E (map_entries m) (fst (es ! n)) = Some (table_order (map_entries m) ! n)"
      using value_env.find_nth [OF E ok] n by (simp add: es_def)
    have "keyable (fst (es ! n))" using value_env.table_keyable [OF E ok] n by (simp add: es_def)
    note r = value_env.remove_zval_ok(5) [OF E ok this f]
    have "n < length (table_order (map_entries m))" using n by (simp add: es_def table_entries_def)
    then show ?thesis using a f r
      by (simp add: php_scylladb_map_del_def check_then_def accepted_def m'_def map_key_type_def map_current_def read_entry_def nth_entry_def)
  qed
  moreover have "map_valid m' \<longleftrightarrow> n < length es" by (simp add: map_valid_def m'_def nth_entry_def es_def table_entries_def)
  moreover have "n < length es \<Longrightarrow> map_key m' = Ret (fst (es ! n)) \<and> map_current m' = Ret (snd (es ! n))"
    using value_env.nth_cell [OF E ok] by (simp add: map_key_def map_current_def m'_def es_def)
  ultimately show ?thesis using value_env.map_advance_at [OF E m] m'_def by blast
qed

text \<open>
  Property C39. The comparison of two Maps or two Sets through their hash tables agrees with the
  comparison of their values, and is zero exactly when the types compare equal and both hold the same
  keys with equal values, in whatever order they were added.
\<close>

theorem map_set_equality:
  assumes "gmp_spec (gmp_lib E)" and "inj (type_codes E)"
    and m: "map_inv E m1" "map_inv E m2" and s: "set_inv E s1" "set_inv E s2"
  defines "cmp \<equiv> php_scylladb_value_compare E"
  shows "map_object_compare E m1 m2 = cmp (map_zval m1) (map_zval m2) \<and>
    (map_object_compare E m1 m2 = 0 \<longleftrightarrow>
      php_scylladb_type_compare (type_codes E) (map_type m1) (map_type m2) = 0 \<and> map_count m1 = map_count m2 \<and>
      (\<forall>e \<in> set (table_entries (map_entries m1)).
        \<exists>w. assoc_find cmp (fst e) (table_entries (map_entries m2)) = Some w \<and> cmp (snd e) w = 0)) \<and>
    set_object_compare E s1 s2 = cmp (set_zval s1) (set_zval s2) \<and>
    (set_object_compare E s1 s2 = 0 \<longleftrightarrow>
      php_scylladb_type_compare (type_codes E) (set_type s1) (set_type s2) = 0 \<and> set_count s1 = set_count s2 \<and>
      (\<forall>e \<in> set (table_entries (set_entries s1)). assoc_find cmp (fst e) (table_entries (set_entries s2)) \<noteq> None))"
proof -
  have E: "value_env E" using assms(1,2) by unfold_locales
  have ok: "keys_ok E (map_entries m1)" "keys_ok E (map_entries m2)" "keys_ok E (set_entries s1)" "keys_ok E (set_entries s2)"
    using m s by (simp_all add: map_inv_def set_inv_def)
  note km = value_env.table_keyable [OF E ok(1)] and ks = value_env.table_keyable [OF E ok(3)]
  note c = value_env.count_entries [OF E ok(1)] value_env.count_entries [OF E ok(2)]
    value_env.count_entries [OF E ok(3)] value_env.count_entries [OF E ok(4)]
  have mz: "map_object_compare E m1 m2 = cmp (map_zval m1) (map_zval m2)"
    using value_env.map_loop_tables [OF E ok(2) km]
    by (simp add: cmp_def map_object_compare_def map_zval_def value_compare_containers php_scylladb_map_compare_def map_count_def c)
  have sz: "set_object_compare E s1 s2 = cmp (set_zval s1) (set_zval s2)"
    using value_env.set_loop_tables [OF E ok(4) ks]
    by (simp add: cmp_def set_object_compare_def set_zval_def value_compare_containers php_scylladb_set_compare_def set_count_def c)
  note zero = value_env.map_table_loop_zero [OF E ok(2), of "table_entries (map_entries m1)", OF km]
    value_env.set_table_loop_zero [OF E ok(4), of "table_entries (set_entries s1)", OF ks]
  show ?thesis
    unfolding mz [symmetric] sz [symmetric] unfolding map_object_compare_def set_object_compare_def type_count_zero cmp_def
    by (simp add: zero)
qed

text \<open>
  Property C16. A Set refines a list of pairwise different elements in insertion order:
  \<^verbatim>\<open>add\<close> appends an element that compares different from all present ones and otherwise
  changes nothing, \<^verbatim>\<open>has\<close> and \<^verbatim>\<open>remove\<close> look up and delete; a null or
  refused argument leaves the set as it was.
\<close>

theorem set_refines_list:
  assumes "gmp_spec (gmp_lib E)" and "inj (type_codes E)" and s: "set_inv E s" and v: "keyable v" and a: "snd (set_entries s) a = None"
  defines "vs \<equiv> php_scylladb_set_populate s" and "member \<equiv> list_ex (\<lambda>w. php_scylladb_value_compare E w v = 0) (php_scylladb_set_populate s)"
  shows "if accepted E (set_value_type s) v
    then (v \<noteq> ZNull \<longrightarrow> fst (php_scylladb_set_add E a s v) = Ret True \<and>
        php_scylladb_set_populate (snd (php_scylladb_set_add E a s v)) = (if member then vs else vs @ [v])) \<and>
      (v = ZNull \<longrightarrow> fst (php_scylladb_set_add E a s v) \<noteq> Ret True \<and> snd (php_scylladb_set_add E a s v) = s) \<and>
      php_scylladb_set_has E s v = Ret member \<and> fst (php_scylladb_set_del E s v) = Ret member \<and>
      php_scylladb_set_populate (snd (php_scylladb_set_del E s v)) = filter (\<lambda>w. php_scylladb_value_compare E w v \<noteq> 0) vs
    else snd (php_scylladb_set_add E a s v) = s \<and> snd (php_scylladb_set_del E s v) = s \<and>
      fst (php_scylladb_set_add E a s v) \<noteq> Ret True \<and> fst (php_scylladb_set_del E s v) \<noteq> Ret True"
proof -
  have E: "value_env E" using assms(1,2) by unfold_locales
  have ok: "keys_ok E (set_entries s)" using s by (simp add: set_inv_def)
  have mem: "find_zval E (set_entries s) v \<noteq> None \<longleftrightarrow> member"
    unfolding value_env.find_zval_assoc(2) [OF E ok v] member_def php_scylladb_set_populate_def assoc_find_def
      option.map_disc_iff find_None_iff list_ex_iff set_map bex_simps by blast
  have add: "map fst (table_entries (add_zval E (set_entries s) a v ())) = vs @ [v]" if "find_zval E (set_entries s) v = None"
    using value_env.add_zval_ok(2) [OF E ok v a that] that mem
    by (simp add: vs_def php_scylladb_set_populate_def assoc_put_def member_def list_ex_iff)
  have del: "map fst (table_entries (table_remove (set_entries s) b)) = filter (\<lambda>w. php_scylladb_value_compare E w v \<noteq> 0) vs"
    if "find_zval E (set_entries s) v = Some b" for b
    using value_env.remove_zval_ok(2) [OF E ok v that]
    by (simp add: vs_def php_scylladb_set_populate_def assoc_del_def filter_map comp_def)
  have none: "filter (\<lambda>w. php_scylladb_value_compare E w v \<noteq> 0) vs = vs" if "\<not> member"
    using that by (simp add: member_def vs_def list_ex_iff filter_id_conv)
  show ?thesis
    using mem add del none
    by (cases "find_zval E (set_entries s) v")
      (simp_all add: php_scylladb_set_add_def php_scylladb_set_has_def php_scylladb_set_del_def check_then_def accepted_def vs_def php_scylladb_set_populate_def)
qed

section \<open>Examples\<close>

definition example_map :: php_scylladb_map where
  "example_map = snd (php_scylladb_map_set env_ref 7
     (php_scylladb_map_new (T_Map (T_Scalar CASS_VALUE_TYPE_INT) (T_Scalar CASS_VALUE_TYPE_VARCHAR))) (ZLong 1) (ZString ''a''))"

definition example_set :: php_scylladb_set where
  "example_set = snd (php_scylladb_set_add env_ref 7 (php_scylladb_set_new (T_Set (T_Scalar CASS_VALUE_TYPE_INT))) (ZLong 1))"

lemma example_reachable: "map_reachable env_ref example_map" "set_reachable env_ref example_set"
  unfolding example_map_def example_set_def
  by (intro map_reachable.set map_reachable.new set_reachable.add set_reachable.new;
      simp add: php_scylladb_map_new_def php_scylladb_set_new_def table_empty_def)+

lemma example_inv: "map_inv env_ref example_map" "set_inv env_ref example_set"
  using example_reachable env_ref.map_reachable_inv env_ref.set_reachable_inv by blast+

lemma example_entries:
  "table_entries (map_entries example_map) = [(ZLong 1, ZString ''a'')]" "php_scylladb_set_populate example_set = [ZLong 1]"
  "snd (map_entries example_map) 8 = None" "snd (set_entries example_set) 8 = None" "snd (map_entries example_map) 7 \<noteq> None"
  "map_type example_map = T_Map (T_Scalar CASS_VALUE_TYPE_INT) (T_Scalar CASS_VALUE_TYPE_VARCHAR)"
  "set_type example_set = T_Set (T_Scalar CASS_VALUE_TYPE_INT)"
  by code_simp+

lemma example_accepted:
  "accepted env_ref (map_key_type example_map) (ZLong n)" "accepted env_ref (map_value_type example_map) (ZString x)"
  "accepted env_ref (set_value_type example_set) (ZLong n)"
  by (simp_all add: accepted_def map_key_type_def map_value_type_def set_value_type_def example_entries php_scylladb_validate_object_def accept_def)




theorem map_iteration_witness:
  "\<exists>m'. map_advance 0 (map_rewind example_map) = Ret m' \<and> map_valid m' \<and> map_current m' = Ret (ZString ''a'') \<and>
    map_current (snd (php_scylladb_map_del env_ref m' (ZLong 1))) = UB"
  using map_iteration [OF env_ref.env_gmp env_ref.env_codes example_inv(1), of 0]
  by (simp add: example_accepted example_entries)

theorem map_set_equality_witness:
  "map_object_compare env_ref example_map example_map = 0 \<and> set_object_compare env_ref example_set example_set = 0"
proof -
  have c: "php_scylladb_value_compare env_ref (ZLong n) (ZLong n) = 0" "php_scylladb_value_compare env_ref (ZString x) (ZString x) = 0" for n x
    by (simp_all add: value_compare_flat both_def container_defs flat_compare_def php_scylladb_compare_def)
  have "table_entries (set_entries example_set) = [(ZLong 1, ())]"
    using example_entries(2) by (auto simp: php_scylladb_set_populate_def)
  then show ?thesis
    using map_set_equality [OF env_ref.env_gmp env_ref.env_codes example_inv(1,1) example_inv(2,2)]
    by (simp add: example_entries type_compare_refl assoc_find_def c)
qed

theorem set_refines_list_witness:
  "php_scylladb_set_populate (snd (php_scylladb_set_add env_ref 8 example_set (ZLong 1))) = [ZLong 1] \<and>
   php_scylladb_set_populate (snd (php_scylladb_set_add env_ref 8 example_set (ZLong 2))) = [ZLong 1, ZLong 2]"
proof -
  have c: "php_scylladb_value_compare env_ref (ZLong 1) (ZLong n) = (if n = 1 then 0 else if 1 < n then -1 else 1)" for n
    by (simp add: value_compare_flat both_def container_defs flat_compare_def php_scylladb_compare_def)
  show ?thesis
    using set_refines_list [OF env_ref.env_gmp env_ref.env_codes example_inv(2) _ example_entries(4), of "ZLong 1"]
      set_refines_list [OF env_ref.env_gmp env_ref.env_codes example_inv(2) _ example_entries(4), of "ZLong 2"]
    by (simp add: example_accepted example_entries c)
qed

end
