(* ===== verification/Sequences.thy ===== *)
theory Sequences
  imports MapSet "HOL-Library.AList"
begin

text \<open>
  The objects of \<^verbatim>\<open>src/Collection.c\<close>, \<^verbatim>\<open>src/Tuple.c\<close> and \<^verbatim>\<open>src/UserTypeValue.c\<close>. Their
  values live in PHP hash tables: keys with values in order of insertion, the next free index, and the
  internal pointer, here the number of entries before it. An operation returns its result and the new
  object. The object \<open>==\<close> of PHP is a parameter where \<^verbatim>\<open>find\<close> uses it.
\<close>

section \<open>PHP hash tables\<close>

record 'k zend_hash =
  ht_entries :: "('k \<times> zval) list"
  ht_next :: nat
  ht_pos :: nat

definition zend_hash_init :: "'k zend_hash" where
  "zend_hash_init = \<lparr>ht_entries = [], ht_next = 0, ht_pos = 0\<rparr>"

definition zend_hash_find :: "'k zend_hash \<Rightarrow> 'k \<Rightarrow> zval option" where
  "zend_hash_find H k = map_of (ht_entries H) k"

definition zend_hash_update :: "'k zend_hash \<Rightarrow> 'k \<Rightarrow> zval \<Rightarrow> 'k zend_hash" where
  "zend_hash_update H k v = H\<lparr>ht_entries := AList.update k v (ht_entries H)\<rparr>"

definition zend_hash_next_index_insert :: "nat zend_hash \<Rightarrow> zval \<Rightarrow> nat zend_hash" where
  "zend_hash_next_index_insert H v = H\<lparr>ht_entries := ht_entries H @ [(ht_next H, v)], ht_next := Suc (ht_next H)\<rparr>"

text \<open>A pointer to the removed entry moves on to the entry after it.\<close>

definition zend_hash_del :: "'k zend_hash \<Rightarrow> 'k \<Rightarrow> 'k zend_hash option" where
  "zend_hash_del H k =
     (if zend_hash_find H k = None then None
      else Some (H\<lparr>ht_entries := AList.delete k (ht_entries H),
                   ht_pos := (if k \<in> fst ` set (take (ht_pos H) (ht_entries H)) then ht_pos H - 1 else ht_pos H)\<rparr>))"

definition zend_hash_get_current :: "'k zend_hash \<Rightarrow> ('k \<times> zval) option" where
  "zend_hash_get_current H = (if ht_pos H < length (ht_entries H) then Some (ht_entries H ! ht_pos H) else None)"

definition zend_hash_move_forward :: "'k zend_hash \<Rightarrow> 'k zend_hash" where
  "zend_hash_move_forward H = (if ht_pos H < length (ht_entries H) then H\<lparr>ht_pos := Suc (ht_pos H)\<rparr> else H)"

definition zend_hash_internal_pointer_reset :: "'k zend_hash \<Rightarrow> 'k zend_hash" where
  "zend_hash_internal_pointer_reset H = H\<lparr>ht_pos := 0\<rparr>"

section \<open>Collection\<close>

record php_scylladb_collection =
  coll_type :: cass_type
  coll_values :: "nat zend_hash"
  coll_dirty :: bool
  coll_hashv :: "32 word"

definition coll_value_type :: "php_scylladb_collection \<Rightarrow> cass_type" where
  "coll_value_type c = (case coll_type c of T_List t \<Rightarrow> t | t \<Rightarrow> t)"

definition php_scylladb_collection_new :: "cass_type \<Rightarrow> php_scylladb_collection" where
  "php_scylladb_collection_new t = \<lparr>coll_type = t, coll_values = zend_hash_init, coll_dirty = True, coll_hashv = 0\<rparr>"

definition collection_construct :: "zval \<Rightarrow> php_scylladb_collection outcome" where
  "collection_construct type = bind_outcome (type_argument type) (\<lambda>t. Ret (php_scylladb_collection_new (T_List t)))"

definition php_scylladb_collection_add :: "php_scylladb_collection \<Rightarrow> zval \<Rightarrow> php_scylladb_collection" where
  "php_scylladb_collection_add c object =
     c\<lparr>coll_values := zend_hash_next_index_insert (coll_values c) object, coll_dirty := True\<rparr>"

definition php_scylladb_collection_del :: "php_scylladb_collection \<Rightarrow> nat \<Rightarrow> bool \<times> php_scylladb_collection" where
  "php_scylladb_collection_del c index =
     (case zend_hash_del (coll_values c) index of
        None \<Rightarrow> (False, c)
      | Some H \<Rightarrow> (True, c\<lparr>coll_values := H, coll_dirty := True\<rparr>))"

definition php_scylladb_collection_get :: "php_scylladb_collection \<Rightarrow> nat \<Rightarrow> zval option" where
  "php_scylladb_collection_get c index = zend_hash_find (coll_values c) index"

definition php_scylladb_collection_find :: "(zval \<Rightarrow> zval \<Rightarrow> bool) \<Rightarrow> php_scylladb_collection \<Rightarrow> zval \<Rightarrow> nat option" where
  "php_scylladb_collection_find is_equal c object =
     map_option fst (List.find (\<lambda>e. is_equal object (snd e)) (ht_entries (coll_values c)))"

definition php_scylladb_collection_populate :: "php_scylladb_collection \<Rightarrow> zval list" where
  "php_scylladb_collection_populate c = map snd (ht_entries (coll_values c))"

text \<open>\<^verbatim>\<open>add\<close>: every argument is checked before the first is added.\<close>

fun check_arguments :: "php_env \<Rightarrow> cass_type \<Rightarrow> zval list \<Rightarrow> bool outcome" where
  "check_arguments E t [] = Ret True"
| "check_arguments E t (v # vs) =
     (if v = ZNull then Throw (Exn InvalidArgumentException ''Invalid value: null is not supported inside collections'')
      else case php_scylladb_validate_object E v t of Ret True \<Rightarrow> check_arguments E t vs | r \<Rightarrow> r)"

definition collection_add :: "php_env \<Rightarrow> php_scylladb_collection \<Rightarrow> zval list \<Rightarrow> zval outcome \<times> php_scylladb_collection" where
  "collection_add E c args =
     (case check_arguments E (coll_value_type c) args of
        Ret True \<Rightarrow>
          let c = fold (\<lambda>v c. php_scylladb_collection_add c v) args c
          in (Ret (ZLong (int (length (ht_entries (coll_values c))))), c)
      | Ret False \<Rightarrow> (Ret ZFalse, c)
      | Throw e \<Rightarrow> (Throw e, c)
      | UB \<Rightarrow> (UB, c))"

text \<open>Indexes are PHP integers; a negative one is never found.\<close>

definition collection_get :: "php_scylladb_collection \<Rightarrow> int \<Rightarrow> zval" where
  "collection_get c key = (if key < 0 then ZNull else case_option ZNull id (php_scylladb_collection_get c (nat key)))"

definition collection_find :: "(zval \<Rightarrow> zval \<Rightarrow> bool) \<Rightarrow> php_scylladb_collection \<Rightarrow> zval \<Rightarrow> zval" where
  "collection_find is_equal c object = case_option ZNull (\<lambda>i. ZLong (int i)) (php_scylladb_collection_find is_equal c object)"

definition collection_remove :: "php_scylladb_collection \<Rightarrow> int \<Rightarrow> bool \<times> php_scylladb_collection" where
  "collection_remove c index = (if index < 0 then (False, c) else php_scylladb_collection_del c (nat index))"

definition collection_count :: "php_scylladb_collection \<Rightarrow> nat" where
  "collection_count c = length (ht_entries (coll_values c))"

definition collection_current :: "php_scylladb_collection \<Rightarrow> zval" where
  "collection_current c = case_option ZNull snd (zend_hash_get_current (coll_values c))"

definition collection_key :: "php_scylladb_collection \<Rightarrow> zval" where
  "collection_key c = case_option ZNull (\<lambda>e. ZLong (int (fst e))) (zend_hash_get_current (coll_values c))"

definition collection_next :: "php_scylladb_collection \<Rightarrow> php_scylladb_collection" where
  "collection_next c = c\<lparr>coll_values := zend_hash_move_forward (coll_values c)\<rparr>"

definition collection_valid :: "php_scylladb_collection \<Rightarrow> bool" where
  "collection_valid c \<longleftrightarrow> zend_hash_get_current (coll_values c) \<noteq> None"

definition collection_rewind :: "php_scylladb_collection \<Rightarrow> php_scylladb_collection" where
  "collection_rewind c = c\<lparr>coll_values := zend_hash_internal_pointer_reset (coll_values c)\<rparr>"

text \<open>The hash over the values in order, cached until the next change.\<close>

definition values_hash :: "php_env \<Rightarrow> zval list \<Rightarrow> 32 word" where
  "values_hash E vs = combine_all (map (php_scylladb_value_hash E) vs)"

definition php_scylladb_collection_hash_value :: "php_env \<Rightarrow> php_scylladb_collection \<Rightarrow> 32 word \<times> php_scylladb_collection" where
  "php_scylladb_collection_hash_value E c =
     (if \<not> coll_dirty c then (coll_hashv c, c)
      else let h = values_hash E (map snd (ht_entries (coll_values c))) in (h, c\<lparr>coll_hashv := h, coll_dirty := False\<rparr>))"

definition collection_zval :: "php_scylladb_collection \<Rightarrow> zval" where
  "collection_zval c = ZCollection (coll_type c) (map snd (ht_entries (coll_values c)))"

section \<open>Tuple\<close>

text \<open>The iterator is a position in the list of the type's elements; none before the first rewind.\<close>

record php_scylladb_tuple =
  tup_type :: cass_type
  tup_values :: "nat zend_hash"
  tup_pos :: "nat option"
  tup_dirty :: bool
  tup_hashv :: "32 word"

definition tup_types :: "php_scylladb_tuple \<Rightarrow> cass_type list" where
  "tup_types t = (case tup_type t of T_Tuple ts \<Rightarrow> ts | _ \<Rightarrow> [])"

definition php_scylladb_tuple_new :: "cass_type \<Rightarrow> php_scylladb_tuple" where
  "php_scylladb_tuple_new ty = \<lparr>tup_type = ty, tup_values = zend_hash_init, tup_pos = None, tup_dirty = True, tup_hashv = 0\<rparr>"

fun type_arguments :: "zval list \<Rightarrow> cass_type list outcome" where
  "type_arguments [] = Ret []"
| "type_arguments (z # zs) = bind_outcome (type_argument z) (\<lambda>t. bind_outcome (type_arguments zs) (\<lambda>ts. Ret (t # ts)))"

definition tuple_construct :: "zval list \<Rightarrow> php_scylladb_tuple outcome" where
  "tuple_construct types = bind_outcome (type_arguments types) (\<lambda>ts. Ret (php_scylladb_tuple_new (T_Tuple ts)))"

definition php_scylladb_tuple_set :: "php_scylladb_tuple \<Rightarrow> nat \<Rightarrow> zval \<Rightarrow> php_scylladb_tuple" where
  "php_scylladb_tuple_set t index object = t\<lparr>tup_values := zend_hash_update (tup_values t) index object, tup_dirty := True\<rparr>"

definition php_scylladb_tuple_populate :: "php_scylladb_tuple \<Rightarrow> zval list" where
  "php_scylladb_tuple_populate t = map (\<lambda>i. case_option ZNull id (zend_hash_find (tup_values t) i)) [0..<length (tup_types t)]"

definition tuple_set :: "php_env \<Rightarrow> php_scylladb_tuple \<Rightarrow> int \<Rightarrow> zval \<Rightarrow> bool outcome \<times> php_scylladb_tuple" where
  "tuple_set E t index val =
     (if index < 0 \<or> int (length (tup_types t)) \<le> index
      then (Throw (Exn InvalidArgumentException ''Index out of bounds''), t)
      else check_then (php_scylladb_validate_object E val (tup_types t ! nat index)) t
             (\<lambda>_. (Ret True, php_scylladb_tuple_set t (nat index) val)))"

definition tuple_get :: "php_scylladb_tuple \<Rightarrow> int \<Rightarrow> zval outcome" where
  "tuple_get t index =
     (if index < 0 \<or> int (length (tup_types t)) \<le> index
      then Throw (Exn InvalidArgumentException ''Index out of bounds'')
      else Ret (case_option ZNull id (zend_hash_find (tup_values t) (nat index))))"

definition tuple_count :: "php_scylladb_tuple \<Rightarrow> nat" where
  "tuple_count t = length (tup_types t)"

text \<open>A position in a list of \<open>n\<close> elements.\<close>

definition pos_valid :: "nat \<Rightarrow> nat option \<Rightarrow> bool" where
  "pos_valid n p = (case p of None \<Rightarrow> False | Some i \<Rightarrow> i < n)"

definition pos_next :: "nat \<Rightarrow> nat option \<Rightarrow> nat option" where
  "pos_next n p = (if pos_valid n p then map_option Suc p else p)"

definition tuple_current :: "php_scylladb_tuple \<Rightarrow> zval" where
  "tuple_current t =
     (if pos_valid (length (tup_types t)) (tup_pos t)
      then case_option ZNull id (zend_hash_find (tup_values t) (the (tup_pos t))) else ZNull)"

definition tuple_key :: "php_scylladb_tuple \<Rightarrow> zval" where
  "tuple_key t = (if pos_valid (length (tup_types t)) (tup_pos t) then ZLong (int (the (tup_pos t))) else ZNull)"

definition tuple_next :: "php_scylladb_tuple \<Rightarrow> php_scylladb_tuple" where
  "tuple_next t = t\<lparr>tup_pos := pos_next (length (tup_types t)) (tup_pos t)\<rparr>"

definition tuple_valid :: "php_scylladb_tuple \<Rightarrow> bool" where
  "tuple_valid t = pos_valid (length (tup_types t)) (tup_pos t)"

definition tuple_rewind :: "php_scylladb_tuple \<Rightarrow> php_scylladb_tuple" where
  "tuple_rewind t = t\<lparr>tup_pos := Some 0\<rparr>"

definition php_scylladb_tuple_hash_value :: "php_env \<Rightarrow> php_scylladb_tuple \<Rightarrow> 32 word \<times> php_scylladb_tuple" where
  "php_scylladb_tuple_hash_value E t =
     (if \<not> tup_dirty t then (tup_hashv t, t)
      else let h = values_hash E (map snd (ht_entries (tup_values t))) in (h, t\<lparr>tup_hashv := h, tup_dirty := False\<rparr>))"

definition tuple_zval :: "php_scylladb_tuple \<Rightarrow> zval" where
  "tuple_zval t = ZTuple (tup_type t) (ht_entries (tup_values t))"

section \<open>User type value\<close>

record php_scylladb_user_type_value =
  udt_type :: cass_type
  udt_values :: "string zend_hash"
  udt_pos :: "nat option"
  udt_dirty :: bool
  udt_hashv :: "32 word"

definition udt_fields :: "php_scylladb_user_type_value \<Rightarrow> (string \<times> cass_type) list" where
  "udt_fields u = (case udt_type u of T_Udt _ _ fs \<Rightarrow> fs | _ \<Rightarrow> [])"

definition php_scylladb_user_type_value_new :: "cass_type \<Rightarrow> php_scylladb_user_type_value" where
  "php_scylladb_user_type_value_new ty =
     \<lparr>udt_type = ty, udt_values = zend_hash_init, udt_pos = None, udt_dirty = True, udt_hashv = 0\<rparr>"

text \<open>The constructor's array: a name, none for an integer key, and a type.\<close>

fun field_arguments :: "(string option \<times> zval) list \<Rightarrow> (string \<times> cass_type) list outcome" where
  "field_arguments [] = Ret []"
| "field_arguments ((name, z) # zs) =
     (case name of
        None \<Rightarrow> Throw (Exn InvalidArgumentException ''Argument is not a string'')
      | Some s \<Rightarrow> bind_outcome (type_argument z) (\<lambda>t. bind_outcome (field_arguments zs) (\<lambda>ts. Ret ((s, t) # ts))))"

definition user_type_value_construct :: "(string option \<times> zval) list \<Rightarrow> php_scylladb_user_type_value outcome" where
  "user_type_value_construct types =
     bind_outcome (field_arguments types) (\<lambda>fs. Ret (php_scylladb_user_type_value_new (T_Udt None None fs)))"

definition php_scylladb_user_type_value_set ::
    "php_scylladb_user_type_value \<Rightarrow> string \<Rightarrow> zval \<Rightarrow> php_scylladb_user_type_value" where
  "php_scylladb_user_type_value_set u name object =
     u\<lparr>udt_values := zend_hash_update (udt_values u) name object, udt_dirty := True\<rparr>"

definition php_scylladb_user_type_value_populate :: "php_scylladb_user_type_value \<Rightarrow> (string \<times> zval) list" where
  "php_scylladb_user_type_value_populate u =
     map (\<lambda>f. (fst f, case_option ZNull id (zend_hash_find (udt_values u) (fst f)))) (udt_fields u)"

definition user_type_value_set ::
    "php_env \<Rightarrow> php_scylladb_user_type_value \<Rightarrow> string \<Rightarrow> zval \<Rightarrow> bool outcome \<times> php_scylladb_user_type_value" where
  "user_type_value_set E u name val =
     (case map_of (udt_fields u) name of
        None \<Rightarrow> (Throw (Exn InvalidArgumentException (''Invalid name '' @ name)), u)
      | Some sub_type \<Rightarrow>
          check_then (php_scylladb_validate_object E val sub_type) u
            (\<lambda>_. (Ret True, php_scylladb_user_type_value_set u name val)))"

definition user_type_value_get :: "php_scylladb_user_type_value \<Rightarrow> string \<Rightarrow> zval outcome" where
  "user_type_value_get u name =
     (if map_of (udt_fields u) name = None then Throw (Exn InvalidArgumentException (''Invalid name '' @ name))
      else Ret (case_option ZNull id (zend_hash_find (udt_values u) name)))"

definition user_type_value_count :: "php_scylladb_user_type_value \<Rightarrow> nat" where
  "user_type_value_count u = length (udt_fields u)"

definition user_type_value_current :: "php_scylladb_user_type_value \<Rightarrow> zval" where
  "user_type_value_current u =
     (if pos_valid (length (udt_fields u)) (udt_pos u)
      then case_option ZNull id (zend_hash_find (udt_values u) (fst (udt_fields u ! the (udt_pos u)))) else ZNull)"

definition user_type_value_key :: "php_scylladb_user_type_value \<Rightarrow> zval" where
  "user_type_value_key u =
     (if pos_valid (length (udt_fields u)) (udt_pos u) then ZString (fst (udt_fields u ! the (udt_pos u))) else ZNull)"

definition user_type_value_next :: "php_scylladb_user_type_value \<Rightarrow> php_scylladb_user_type_value" where
  "user_type_value_next u = u\<lparr>udt_pos := pos_next (length (udt_fields u)) (udt_pos u)\<rparr>"

definition user_type_value_valid :: "php_scylladb_user_type_value \<Rightarrow> bool" where
  "user_type_value_valid u = pos_valid (length (udt_fields u)) (udt_pos u)"

definition user_type_value_rewind :: "php_scylladb_user_type_value \<Rightarrow> php_scylladb_user_type_value" where
  "user_type_value_rewind u = u\<lparr>udt_pos := Some 0\<rparr>"

definition php_scylladb_user_type_value_hash_value ::
    "php_env \<Rightarrow> php_scylladb_user_type_value \<Rightarrow> 32 word \<times> php_scylladb_user_type_value" where
  "php_scylladb_user_type_value_hash_value E u =
     (if \<not> udt_dirty u then (udt_hashv u, u)
      else let h = values_hash E (map snd (ht_entries (udt_values u))) in (h, u\<lparr>udt_hashv := h, udt_dirty := False\<rparr>))"

definition user_type_value_zval :: "php_scylladb_user_type_value \<Rightarrow> zval" where
  "user_type_value_zval u = ZUserType (udt_type u) (ht_entries (udt_values u))"

section \<open>Collections\<close>

text \<open>
  The indexes are in ascending order below the next free one, the pointer is inside the table, every
  value was accepted for the element type, and a hash that is not dirty is the hash of the values.
\<close>

definition coll_inv :: "php_env \<Rightarrow> php_scylladb_collection \<Rightarrow> bool" where
  "coll_inv E c \<longleftrightarrow>
     (\<exists>t. coll_type c = T_List t) \<and> sorted_wrt (<) (map fst (ht_entries (coll_values c))) \<and>
     (\<forall>e \<in> set (ht_entries (coll_values c)). fst e < ht_next (coll_values c) \<and> snd e \<noteq> ZNull \<and> accepted E (coll_value_type c) (snd e)) \<and>
     ht_pos (coll_values c) \<le> length (ht_entries (coll_values c)) \<and>
     (\<not> coll_dirty c \<longrightarrow> coll_hashv c = values_hash E (map snd (ht_entries (coll_values c))))"

inductive coll_reachable :: "php_env \<Rightarrow> php_scylladb_collection \<Rightarrow> bool" for E where
  new: "coll_reachable E (php_scylladb_collection_new (T_List t))"
| add: "coll_reachable E c \<Longrightarrow> coll_reachable E (snd (collection_add E c vs))"
| remove: "coll_reachable E c \<Longrightarrow> coll_reachable E (snd (collection_remove c i))"
| "next": "coll_reachable E c \<Longrightarrow> coll_reachable E (collection_next c)"
| rewind: "coll_reachable E c \<Longrightarrow> coll_reachable E (collection_rewind c)"
| hash: "coll_reachable E c \<Longrightarrow> coll_reachable E (snd (php_scylladb_collection_hash_value E c))"

lemma check_arguments_iff:
  "check_arguments E t vs = Ret True \<longleftrightarrow> (\<forall>v \<in> set vs. v \<noteq> ZNull \<and> accepted E t v)"
  by (induction vs) (auto simp: accepted_def split: outcome.splits bool.splits)

abbreviation add_all :: "zval list \<Rightarrow> php_scylladb_collection \<Rightarrow> php_scylladb_collection" where
  "add_all vs c \<equiv> fold (\<lambda>v c. php_scylladb_collection_add c v) vs c"

lemma add_all_result:
  "ht_entries (coll_values (add_all vs c)) = ht_entries (coll_values c) @ zip [ht_next (coll_values c)..<ht_next (coll_values c) + length vs] vs \<and>
   ht_next (coll_values (add_all vs c)) = ht_next (coll_values c) + length vs \<and>
   ht_pos (coll_values (add_all vs c)) = ht_pos (coll_values c) \<and> coll_type (add_all vs c) = coll_type c \<and>
   (vs \<noteq> [] \<longrightarrow> coll_dirty (add_all vs c))"
proof (induction vs arbitrary: c)
  case (Cons v vs)
  let ?c = "php_scylladb_collection_add c v"
  have c: "ht_entries (coll_values ?c) = ht_entries (coll_values c) @ [(ht_next (coll_values c), v)]"
    "ht_next (coll_values ?c) = Suc (ht_next (coll_values c))" "ht_pos (coll_values ?c) = ht_pos (coll_values c)"
    "coll_type ?c = coll_type c" "coll_dirty ?c"
    by (simp_all add: php_scylladb_collection_add_def zend_hash_next_index_insert_def)
  then show ?case using Cons [of ?c] by (cases "vs = []") (simp_all add: upt_conv_Cons del: upt_Suc)
qed simp

lemma fold_add_entries:
  "ht_entries (coll_values (add_all vs c)) = ht_entries (coll_values c) @ zip [ht_next (coll_values c)..<ht_next (coll_values c) + length vs] vs"
  "ht_next (coll_values (add_all vs c)) = ht_next (coll_values c) + length vs"
  "ht_pos (coll_values (add_all vs c)) = ht_pos (coll_values c)"
  "coll_type (add_all vs c) = coll_type c"
  "vs \<noteq> [] \<Longrightarrow> coll_dirty (add_all vs c)"
  using add_all_result [of vs c] by simp_all

lemma add_result:
  "check_arguments E (coll_value_type c) vs = Ret True \<Longrightarrow>
     collection_add E c vs = (Ret (ZLong (int (collection_count c + length vs))), add_all vs c)"
  "check_arguments E (coll_value_type c) vs \<noteq> Ret True \<Longrightarrow> snd (collection_add E c vs) = c"
  by (auto simp: collection_add_def fold_add_entries collection_count_def Let_def split: outcome.splits bool.splits)

lemma coll_inv_add: "coll_inv E c \<Longrightarrow> coll_inv E (snd (collection_add E c vs))"
proof (cases "check_arguments E (coll_value_type c) vs = Ret True")
  case True
  assume c: "coll_inv E c"
  let ?c = "add_all vs c" and ?n = "ht_next (coll_values c)"
  have ty: "coll_value_type ?c = coll_value_type c" by (simp add: coll_value_type_def fold_add_entries)
  have ok: "\<forall>v \<in> set vs. v \<noteq> ZNull \<and> accepted E (coll_value_type c) v" using True by (simp add: check_arguments_iff)
  have z: "e \<in> set (zip [?n..<?n + length vs] vs) \<Longrightarrow> ?n \<le> fst e \<and> fst e < ?n + length vs \<and> snd e \<in> set vs" for e
    by (cases e) (auto dest: set_zip_leftD set_zip_rightD)
  have "sorted_wrt (<) (map fst (ht_entries (coll_values ?c)))"
    using c by (auto simp: coll_inv_def fold_add_entries sorted_wrt_append)
  moreover have "\<forall>e \<in> set (ht_entries (coll_values ?c)). fst e < ?n + length vs \<and> snd e \<noteq> ZNull \<and> accepted E (coll_value_type c) (snd e)"
    using c ok z by (fastforce simp: coll_inv_def fold_add_entries)
  moreover have "\<not> coll_dirty ?c \<Longrightarrow> coll_hashv ?c = values_hash E (map snd (ht_entries (coll_values ?c)))"
    using c fold_add_entries(5) [of vs c] by (cases "vs = []") (simp_all add: coll_inv_def)
  ultimately show ?thesis
    using c add_result(1) [OF True] ty by (simp add: coll_inv_def fold_add_entries(2-4)) (simp add: fold_add_entries(1))
qed (simp add: add_result(2))

lemma length_delete:
  "distinct (map fst xs) \<Longrightarrow> length (AList.delete k xs) = (if k \<in> fst ` set xs then length xs - 1 else length xs)"
proof (induction xs)
  case (Cons x xs)
  then have "fst x \<notin> fst ` set xs" by simp
  then have "AList.delete (fst x) xs = xs" by (simp add: delete_idem)
  moreover have "k \<in> fst ` set xs \<Longrightarrow> 0 < length xs" by (cases xs) auto
  ultimately show ?case using Cons by auto
qed simp

text \<open>Removing an entry keeps the entries before and after the pointer, without it.\<close>

lemma del_split:
  fixes p :: nat and k :: 'k
  assumes "distinct (map fst es)" and "p \<le> length es"
  defines "q \<equiv> (if k \<in> fst ` set (take p es) then p - 1 else p)"
  shows "take q (AList.delete k es) = AList.delete k (take p es)" and "drop q (AList.delete k es) = AList.delete k (drop p es)"
    and "q \<le> length (AList.delete k es)"
proof -
  have app: "AList.delete k es = AList.delete k (take p es) @ AList.delete k (drop p es)"
    by (metis append_take_drop_id AList.delete_eq filter_append)
  have "distinct (map fst (take p es))" using assms(1) by (metis distinct_take take_map)
  then have len: "length (AList.delete k (take p es)) = q" using assms(2) by (simp add: length_delete q_def)
  show "take q (AList.delete k es) = AList.delete k (take p es)" "drop q (AList.delete k es) = AList.delete k (drop p es)"
    "q \<le> length (AList.delete k es)"
    using app len by simp_all
qed

lemma remove_cases:
  "collection_remove c i =
     (if i < 0 \<or> map_of (ht_entries (coll_values c)) (nat i) = None then (False, c)
      else (True, c\<lparr>coll_values := (coll_values c)\<lparr>ht_entries := AList.delete (nat i) (ht_entries (coll_values c)),
                ht_pos := (if nat i \<in> fst ` set (take (ht_pos (coll_values c)) (ht_entries (coll_values c)))
                           then ht_pos (coll_values c) - 1 else ht_pos (coll_values c))\<rparr>, coll_dirty := True\<rparr>))"
  by (simp add: collection_remove_def php_scylladb_collection_del_def zend_hash_del_def zend_hash_find_def)

lemma sorted_wrt_delete: "sorted_wrt (<) (map fst es) \<Longrightarrow> sorted_wrt (<) (map fst (AList.delete k es))" for es :: "(nat \<times> 'v) list"
  by (induction es) (auto simp: AList.delete_eq)

lemma coll_inv_remove: "coll_inv E c \<Longrightarrow> coll_inv E (snd (collection_remove c i))"
proof -
  assume c: "coll_inv E c"
  have "distinct (map fst (ht_entries (coll_values c)))"
    using c by (simp add: coll_inv_def strict_sorted_iff)
  note d = del_split [OF this, of "ht_pos (coll_values c)" "nat i"]
  have "set (AList.delete k es) \<subseteq> set es" for k and es :: "(nat \<times> zval) list" by (auto simp: AList.delete_eq)
  then show ?thesis
    using c d(3) unfolding remove_cases coll_inv_def
    by (auto simp: coll_value_type_def sorted_wrt_delete)
qed

lemma coll_reachable_inv: "coll_reachable E c \<Longrightarrow> coll_inv E c"
proof (induction rule: coll_reachable.induct)
  case (add c vs) then show ?case by (simp add: coll_inv_add)
next
  case (remove c i) then show ?case by (simp add: coll_inv_remove)
next
  case (hash c) then show ?case by (auto simp: php_scylladb_collection_hash_value_def coll_inv_def coll_value_type_def Let_def)
qed (auto simp: coll_inv_def php_scylladb_collection_new_def zend_hash_init_def collection_next_def zend_hash_move_forward_def
    collection_rewind_def zend_hash_internal_pointer_reset_def coll_value_type_def)

text \<open>Walking from the pointer.\<close>

lemma next_pow:
  "ht_pos (coll_values c) \<le> length (ht_entries (coll_values c)) \<Longrightarrow>
   (collection_next ^^ n) c = c\<lparr>coll_values := (coll_values c)\<lparr>ht_pos := min (ht_pos (coll_values c) + n) (length (ht_entries (coll_values c)))\<rparr>\<rparr>"
  by (induction n) (auto simp: collection_next_def zend_hash_move_forward_def min_def)

definition from_pointer :: "php_scylladb_collection \<Rightarrow> (nat \<times> zval) list" where
  "from_pointer c = drop (ht_pos (coll_values c)) (ht_entries (coll_values c))"

lemma walk:
  assumes "ht_pos (coll_values c) \<le> length (ht_entries (coll_values c))"
  shows "collection_valid ((collection_next ^^ n) c) \<longleftrightarrow> n < length (from_pointer c)"
    and "n < length (from_pointer c) \<Longrightarrow> collection_current ((collection_next ^^ n) c) = snd (from_pointer c ! n)"
    and "n < length (from_pointer c) \<Longrightarrow> collection_key ((collection_next ^^ n) c) = ZLong (int (fst (from_pointer c ! n)))"
  using assms
  by (auto simp: next_pow collection_valid_def collection_current_def collection_key_def zend_hash_get_current_def from_pointer_def min_def split: if_splits)

section \<open>Tuples and user types\<close>

text \<open>
  An object with a fixed list of keys: a value is put under a key and found under it. The keys and the
  test for a value do not change.
\<close>

locale keyed_values =
  fixes keys :: "'s \<Rightarrow> 'k list" and accepts :: "'s \<Rightarrow> 'k \<Rightarrow> zval \<Rightarrow> bool"
    and put :: "'s \<Rightarrow> 'k \<Rightarrow> zval \<Rightarrow> 's" and look :: "'s \<Rightarrow> 'k \<Rightarrow> zval option"
  assumes look_put: "look (put s k v) j = (if j = k then Some v else look s j)"
    and keys_put: "keys (put s k v) = keys s"
    and accepts_put: "accepts (put s k v) = accepts s"
begin

lemma stored_accepted:
  assumes "\<And>j w. look s j = Some w \<Longrightarrow> j \<in> set (keys s) \<and> accepts s j w" and "k \<in> set (keys s)" and "accepts s k v"
    and "look (put s k v) j = Some w"
  shows "j \<in> set (keys (put s k v)) \<and> accepts (put s k v) j w"
  using assms by (auto simp: look_put keys_put accepts_put split: if_splits)

text \<open>Values put under the same keys read the same in any order.\<close>

lemma puts_look: "distinct (map fst kvs) \<Longrightarrow> look (fold (\<lambda>e s. put s (fst e) (snd e)) kvs s) j = (case map_of kvs j of None \<Rightarrow> look s j | Some v \<Rightarrow> Some v)"
proof (induction kvs arbitrary: s)
  case (Cons e kvs)
  then have "fst e \<notin> set (map fst kvs)" by simp
  then have "map_of kvs (fst e) = None" by (simp add: map_of_eq_None_iff)
  then show ?case using Cons by (auto simp: look_put split: option.splits)
qed simp

lemma puts_commute:
  assumes "distinct (map fst xs)" and "distinct (map fst ys)" and "set xs = set ys"
  shows "look (fold (\<lambda>e s. put s (fst e) (snd e)) xs s) j = look (fold (\<lambda>e s. put s (fst e) (snd e)) ys s) j"
  using map_of_inject_set [OF assms(1,2)] assms(3) by (simp add: puts_look [OF assms(1)] puts_look [OF assms(2)])

end

text \<open>The pointer moves on when the entry it points to is removed.\<close>

lemma remove_current:
  assumes "distinct (map fst (ht_entries (coll_values c)))" and "ht_pos (coll_values c) \<le> length (ht_entries (coll_values c))"
    and fp: "from_pointer c = (a, v) # rest"
  shows "from_pointer (snd (collection_remove c (int a))) = rest"
proof -
  let ?es = "ht_entries (coll_values c)" and ?p = "ht_pos (coll_values c)"
  have es: "?es = take ?p ?es @ (a, v) # rest" using fp by (metis append_take_drop_id from_pointer_def)
  then have d: "distinct (map fst (take ?p ?es @ (a, v) # rest))" using assms(1) by metis
  then have "AList.delete a ((a, v) # rest) = rest" by (simp add: delete_idem)
  moreover have "map_of ?es a \<noteq> None" by (subst es) (simp add: map_of_eq_None_iff)
  ultimately show ?thesis
    using del_split(2) [OF assms(1,2), of a] fp by (simp add: from_pointer_def remove_cases)
qed

definition tuple_accepts :: "php_env \<Rightarrow> php_scylladb_tuple \<Rightarrow> nat \<Rightarrow> zval \<Rightarrow> bool" where
  "tuple_accepts E t i v \<longleftrightarrow> accepted E (tup_types t ! i) v"

definition udt_accepts :: "php_env \<Rightarrow> php_scylladb_user_type_value \<Rightarrow> string \<Rightarrow> zval \<Rightarrow> bool" where
  "udt_accepts E u name v \<longleftrightarrow> accepted E (the (map_of (udt_fields u) name)) v"

interpretation tuple_keys: keyed_values "\<lambda>t. [0..<length (tup_types t)]" "tuple_accepts E" php_scylladb_tuple_set "\<lambda>t. zend_hash_find (tup_values t)"
  for E
  by unfold_locales
    (auto simp: php_scylladb_tuple_set_def zend_hash_find_def zend_hash_update_def update_conv' tup_types_def tuple_accepts_def fun_eq_iff)

interpretation udt_keys: keyed_values "\<lambda>u. map fst (udt_fields u)" "udt_accepts E" php_scylladb_user_type_value_set "\<lambda>u. zend_hash_find (udt_values u)"
  for E
  by unfold_locales
    (auto simp: php_scylladb_user_type_value_set_def zend_hash_find_def zend_hash_update_def update_conv' udt_fields_def udt_accepts_def fun_eq_iff)

definition tuple_inv :: "php_env \<Rightarrow> php_scylladb_tuple \<Rightarrow> bool" where
  "tuple_inv E t \<longleftrightarrow>
     (\<exists>ts. tup_type t = T_Tuple ts) \<and> distinct (map fst (ht_entries (tup_values t))) \<and>
     (\<forall>i v. zend_hash_find (tup_values t) i = Some v \<longrightarrow> i \<in> set [0..<length (tup_types t)] \<and> tuple_accepts E t i v) \<and>
     (\<not> tup_dirty t \<longrightarrow> tup_hashv t = values_hash E (map snd (ht_entries (tup_values t))))"

definition udt_inv :: "php_env \<Rightarrow> php_scylladb_user_type_value \<Rightarrow> bool" where
  "udt_inv E u \<longleftrightarrow>
     (\<exists>k n fs. udt_type u = T_Udt k n fs) \<and> distinct (map fst (ht_entries (udt_values u))) \<and>
     (\<forall>s v. zend_hash_find (udt_values u) s = Some v \<longrightarrow> s \<in> set (map fst (udt_fields u)) \<and> udt_accepts E u s v) \<and>
     (\<not> udt_dirty u \<longrightarrow> udt_hashv u = values_hash E (map snd (ht_entries (udt_values u))))"

inductive tuple_reachable :: "php_env \<Rightarrow> php_scylladb_tuple \<Rightarrow> bool" for E where
  new: "tuple_reachable E (php_scylladb_tuple_new (T_Tuple ts))"
| set: "tuple_reachable E t \<Longrightarrow> tuple_reachable E (snd (tuple_set E t i v))"
| "next": "tuple_reachable E t \<Longrightarrow> tuple_reachable E (tuple_next t)"
| rewind: "tuple_reachable E t \<Longrightarrow> tuple_reachable E (tuple_rewind t)"
| hash: "tuple_reachable E t \<Longrightarrow> tuple_reachable E (snd (php_scylladb_tuple_hash_value E t))"

inductive udt_reachable :: "php_env \<Rightarrow> php_scylladb_user_type_value \<Rightarrow> bool" for E where
  new: "udt_reachable E (php_scylladb_user_type_value_new (T_Udt k n fs))"
| set: "udt_reachable E u \<Longrightarrow> udt_reachable E (snd (user_type_value_set E u s v))"
| "next": "udt_reachable E u \<Longrightarrow> udt_reachable E (user_type_value_next u)"
| rewind: "udt_reachable E u \<Longrightarrow> udt_reachable E (user_type_value_rewind u)"
| hash: "udt_reachable E u \<Longrightarrow> udt_reachable E (snd (php_scylladb_user_type_value_hash_value E u))"

lemma tuple_set_cases:
  "0 \<le> i \<Longrightarrow> i < int (length (tup_types t)) \<Longrightarrow> accepted E (tup_types t ! nat i) v \<Longrightarrow>
     tuple_set E t i v = (Ret True, php_scylladb_tuple_set t (nat i) v)"
  "\<not> (0 \<le> i \<and> i < int (length (tup_types t)) \<and> accepted E (tup_types t ! nat i) v) \<Longrightarrow> snd (tuple_set E t i v) = t \<and> fst (tuple_set E t i v) \<noteq> Ret True"
  by (auto simp: tuple_set_def accepted_def check_then_def)

lemma udt_set_cases:
  "map_of (udt_fields u) s = Some ty \<Longrightarrow> accepted E ty v \<Longrightarrow> user_type_value_set E u s v = (Ret True, php_scylladb_user_type_value_set u s v)"
  "(\<forall>ty. map_of (udt_fields u) s = Some ty \<longrightarrow> \<not> accepted E ty v) \<Longrightarrow> snd (user_type_value_set E u s v) = u \<and> fst (user_type_value_set E u s v) \<noteq> Ret True"
  by (auto simp: user_type_value_set_def accepted_def check_then_def split: option.splits)

lemma tuple_inv_set:
  assumes t: "tuple_inv E t"
  shows "tuple_inv E (snd (tuple_set E t i v))"
proof (cases "0 \<le> i \<and> i < int (length (tup_types t)) \<and> accepted E (tup_types t ! nat i) v")
  case True
  let ?t = "php_scylladb_tuple_set t (nat i) v"
  have "zend_hash_find (tup_values ?t) j = Some w \<Longrightarrow> j \<in> set [0..<length (tup_types ?t)] \<and> tuple_accepts E ?t j w" for j w
    using t True by (intro tuple_keys.stored_accepted [where E = E]) (auto simp: tuple_inv_def tuple_accepts_def)
  moreover have "distinct (map fst (ht_entries (tup_values ?t)))" "tup_type ?t = tup_type t" "tup_dirty ?t"
    using t by (simp_all add: tuple_inv_def php_scylladb_tuple_set_def zend_hash_update_def distinct_update)
  ultimately have "tuple_inv E ?t" using t by (simp add: tuple_inv_def)
  then show ?thesis using True by (simp add: tuple_set_cases)
qed (use t in \<open>simp add: tuple_set_cases(2)\<close>)

lemma udt_inv_set:
  assumes u: "udt_inv E u"
  shows "udt_inv E (snd (user_type_value_set E u s v))"
proof (cases "\<exists>ty. map_of (udt_fields u) s = Some ty \<and> accepted E ty v")
  case True
  then obtain ty where ty: "map_of (udt_fields u) s = Some ty" "accepted E ty v" by blast
  have "s \<in> set (map fst (udt_fields u))" using ty(1) by (force dest: map_of_SomeD)
  let ?u = "php_scylladb_user_type_value_set u s v"
  have "zend_hash_find (udt_values ?u) j = Some w \<Longrightarrow> j \<in> set (map fst (udt_fields ?u)) \<and> udt_accepts E ?u j w" for j w
    using u ty \<open>s \<in> _\<close> by (intro udt_keys.stored_accepted [where E = E]) (auto simp: udt_inv_def udt_accepts_def)
  moreover have "distinct (map fst (ht_entries (udt_values ?u)))" "udt_type ?u = udt_type u" "udt_dirty ?u"
    using u by (simp_all add: udt_inv_def php_scylladb_user_type_value_set_def zend_hash_update_def distinct_update)
  ultimately have "udt_inv E ?u" using u by (simp add: udt_inv_def)
  then show ?thesis using ty by (simp add: udt_set_cases)
qed (use u in \<open>simp add: udt_set_cases(2)\<close>)

lemma tuple_reachable_inv: "tuple_reachable E t \<Longrightarrow> tuple_inv E t"
proof (induction rule: tuple_reachable.induct)
  case (set t i v) then show ?case by (simp add: tuple_inv_set)
next
  case (hash t) then show ?case by (auto simp: php_scylladb_tuple_hash_value_def tuple_inv_def tuple_accepts_def tup_types_def Let_def)
qed (auto simp: tuple_inv_def php_scylladb_tuple_new_def zend_hash_init_def zend_hash_find_def tuple_next_def tuple_rewind_def
    tuple_accepts_def tup_types_def)

lemma udt_reachable_inv: "udt_reachable E u \<Longrightarrow> udt_inv E u"
proof (induction rule: udt_reachable.induct)
  case (set u s v) then show ?case by (simp add: udt_inv_set)
next
  case (hash u) then show ?case by (auto simp: php_scylladb_user_type_value_hash_value_def udt_inv_def udt_accepts_def udt_fields_def Let_def)
qed (auto simp: udt_inv_def php_scylladb_user_type_value_new_def zend_hash_init_def zend_hash_find_def user_type_value_next_def
    user_type_value_rewind_def udt_accepts_def udt_fields_def)

text \<open>Walking over the elements of a type.\<close>

lemma pos_next_pow: "(pos_next n ^^ k) (Some 0) = Some (min k n)"
  by (induction k) (auto simp: pos_next_def pos_valid_def min_def)

lemma tuple_walk: "(tuple_next ^^ k) (tuple_rewind t) = t\<lparr>tup_pos := Some (min k (length (tup_types t)))\<rparr>"
proof (induction k)
  case (Suc k)
  then show ?case by (auto simp: tuple_next_def tuple_rewind_def tup_types_def pos_next_def pos_valid_def min_def)
qed (simp add: tuple_rewind_def)

lemma udt_walk: "(user_type_value_next ^^ k) (user_type_value_rewind u) = u\<lparr>udt_pos := Some (min k (length (udt_fields u)))\<rparr>"
proof (induction k)
  case (Suc k)
  then show ?case by (auto simp: user_type_value_next_def user_type_value_rewind_def udt_fields_def pos_next_def pos_valid_def min_def)
qed (simp add: user_type_value_rewind_def)

lemma tup_types_puts: "tup_types (fold (\<lambda>e t. php_scylladb_tuple_set t (fst e) (snd e)) xs t) = tup_types t"
  by (induction xs arbitrary: t) (simp_all add: php_scylladb_tuple_set_def tup_types_def)

text \<open>The same two elements, set in both orders.\<close>

definition pair_type :: cass_type where
  "pair_type = T_Tuple [T_Scalar CASS_VALUE_TYPE_INT, T_Scalar CASS_VALUE_TYPE_INT]"

definition pair_forth :: php_scylladb_tuple where
  "pair_forth = snd (tuple_set env_ref (snd (tuple_set env_ref (php_scylladb_tuple_new pair_type) 0 (ZLong 1))) 1 (ZLong 2))"

definition pair_back :: php_scylladb_tuple where
  "pair_back = snd (tuple_set env_ref (snd (tuple_set env_ref (php_scylladb_tuple_new pair_type) 1 (ZLong 2))) 0 (ZLong 1))"

lemma order_matters:
  "\<exists>t1 t2. tuple_reachable env_ref t1 \<and> tuple_reachable env_ref t2 \<and> php_scylladb_tuple_populate t1 = php_scylladb_tuple_populate t2 \<and>
    php_scylladb_value_compare env_ref (tuple_zval t1) (tuple_zval t2) \<noteq> 0"
proof (intro exI conjI)
  show "tuple_reachable env_ref pair_forth" "tuple_reachable env_ref pair_back"
    unfolding pair_forth_def pair_back_def pair_type_def by (intro tuple_reachable.intros)+
  show "php_scylladb_tuple_populate pair_forth = php_scylladb_tuple_populate pair_back" by code_simp
  show "php_scylladb_value_compare env_ref (tuple_zval pair_forth) (tuple_zval pair_back) \<noteq> 0" by code_simp
qed

section \<open>Properties\<close>

lemma collection_parts:
  assumes "coll_reachable E c"
  defines "es \<equiv> ht_entries (coll_values c)" and "n \<equiv> ht_next (coll_values c)"
  shows "(\<forall>v \<in> set vs. v \<noteq> ZNull \<and> accepted E (coll_value_type c) v) \<Longrightarrow>
      fst (collection_add E c vs) = Ret (ZLong (int (length es + length vs))) \<and>
      ht_entries (coll_values (snd (collection_add E c vs))) = es @ zip [n..<n + length vs] vs"
    and "\<not> (\<forall>v \<in> set vs. v \<noteq> ZNull \<and> accepted E (coll_value_type c) v) \<Longrightarrow> snd (collection_add E c vs) = c"
    and "sorted_wrt (<) (map fst es)" and "e \<in> set es \<Longrightarrow> fst e < n \<and> snd e \<noteq> ZNull \<and> accepted E (coll_value_type c) (snd e)"
    and "fst (collection_remove c i) \<longleftrightarrow> 0 \<le> i \<and> nat i \<in> fst ` set es"
    and "collection_get (snd (collection_remove c i)) j = (if j = i then ZNull else collection_get c j)"
    and "collection_valid ((collection_next ^^ k) (collection_rewind c)) \<longleftrightarrow> k < length es"
    and "k < length es \<Longrightarrow> collection_current ((collection_next ^^ k) (collection_rewind c)) = snd (es ! k) \<and>
      collection_key ((collection_next ^^ k) (collection_rewind c)) = ZLong (int (fst (es ! k)))"
    and "from_pointer c = (a, v) # rest \<Longrightarrow> from_pointer (snd (collection_remove c (int a))) = rest"
    and "fst (php_scylladb_collection_hash_value E c) = values_hash E (map snd es)"
proof -
  have c: "coll_inv E c" by (rule coll_reachable_inv [OF assms(1)])
  have dist: "distinct (map fst es)" and le: "ht_pos (coll_values c) \<le> length es"
    using c by (simp_all add: coll_inv_def strict_sorted_iff es_def)
  show "fst (collection_add E c vs) = Ret (ZLong (int (length es + length vs))) \<and>
      ht_entries (coll_values (snd (collection_add E c vs))) = es @ zip [n..<n + length vs] vs"
    if "\<forall>v \<in> set vs. v \<noteq> ZNull \<and> accepted E (coll_value_type c) v"
    using that by (simp add: add_result(1) check_arguments_iff fold_add_entries es_def n_def collection_count_def)
  show "snd (collection_add E c vs) = c" if "\<not> (\<forall>v \<in> set vs. v \<noteq> ZNull \<and> accepted E (coll_value_type c) v)"
    using that by (intro add_result(2)) (simp add: check_arguments_iff)
  show "sorted_wrt (<) (map fst es)" "e \<in> set es \<Longrightarrow> fst e < n \<and> snd e \<noteq> ZNull \<and> accepted E (coll_value_type c) (snd e)"
    using c by (simp_all add: coll_inv_def es_def n_def)
  show "fst (collection_remove c i) \<longleftrightarrow> 0 \<le> i \<and> nat i \<in> fst ` set es"
    by (auto simp: remove_cases es_def map_of_eq_None_iff)
  show "collection_get (snd (collection_remove c i)) j = (if j = i then ZNull else collection_get c j)"
    by (auto simp: remove_cases collection_get_def php_scylladb_collection_get_def zend_hash_find_def delete_conv')
  have r: "from_pointer (collection_rewind c) = es" "ht_pos (coll_values (collection_rewind c)) \<le> length (ht_entries (coll_values (collection_rewind c)))"
    by (simp_all add: collection_rewind_def zend_hash_internal_pointer_reset_def from_pointer_def es_def)
  show "collection_valid ((collection_next ^^ k) (collection_rewind c)) \<longleftrightarrow> k < length es"
    "k < length es \<Longrightarrow> collection_current ((collection_next ^^ k) (collection_rewind c)) = snd (es ! k) \<and>
      collection_key ((collection_next ^^ k) (collection_rewind c)) = ZLong (int (fst (es ! k)))"
    using walk [OF r(2)] by (simp_all add: r(1))
  show "from_pointer (snd (collection_remove c (int a))) = rest" if fp: "from_pointer c = (a, v) # rest"
    using remove_current [OF dist [unfolded es_def] le [unfolded es_def] fp] .
  show "fst (php_scylladb_collection_hash_value E c) = values_hash E (map snd es)"
    using c by (simp add: php_scylladb_collection_hash_value_def coll_inv_def es_def Let_def)
qed


lemma keyed_parts:
  assumes t: "tuple_reachable E t" and u: "udt_reachable E u"
  shows "tuple_inv E t" and "udt_inv E u"
    and "\<not> (0 \<le> i \<and> i < int (tuple_count t) \<and> accepted E (tup_types t ! nat i) v) \<Longrightarrow> snd (tuple_set E t i v) = t"
    and "(\<forall>ty. map_of (udt_fields u) s = Some ty \<longrightarrow> \<not> accepted E ty v) \<Longrightarrow> snd (user_type_value_set E u s v) = u"
    and "0 \<le> i \<Longrightarrow> i < int (tuple_count t) \<Longrightarrow> accepted E (tup_types t ! nat i) v \<Longrightarrow>
      tuple_get (snd (tuple_set E t i v)) j = (if j = i then Ret v else tuple_get t j)"
    and "map_of (udt_fields u) s = Some ty \<Longrightarrow> accepted E ty v \<Longrightarrow>
      user_type_value_get (snd (user_type_value_set E u s v)) r = (if r = s then Ret v else user_type_value_get u r)"
    and "distinct (map fst xs) \<Longrightarrow> distinct (map fst ys) \<Longrightarrow> set xs = set ys \<Longrightarrow>
      tuple_get (fold (\<lambda>e t. php_scylladb_tuple_set t (fst e) (snd e)) xs t) j = tuple_get (fold (\<lambda>e t. php_scylladb_tuple_set t (fst e) (snd e)) ys t) j"
    and "tuple_valid ((tuple_next ^^ k) (tuple_rewind t)) \<longleftrightarrow> k < tuple_count t"
    and "k < tuple_count t \<Longrightarrow> tuple_current ((tuple_next ^^ k) (tuple_rewind t)) = php_scylladb_tuple_populate t ! k"
    and "user_type_value_valid ((user_type_value_next ^^ k) (user_type_value_rewind u)) \<longleftrightarrow> k < user_type_value_count u"
    and "k < user_type_value_count u \<Longrightarrow>
      (user_type_value_key ((user_type_value_next ^^ k) (user_type_value_rewind u)), user_type_value_current ((user_type_value_next ^^ k) (user_type_value_rewind u))) =
      (ZString (fst (php_scylladb_user_type_value_populate u ! k)), snd (php_scylladb_user_type_value_populate u ! k))"
    and "\<exists>t1 t2. tuple_reachable env_ref t1 \<and> tuple_reachable env_ref t2 \<and> php_scylladb_tuple_populate t1 = php_scylladb_tuple_populate t2 \<and>
      php_scylladb_value_compare env_ref (tuple_zval t1) (tuple_zval t2) \<noteq> 0"
proof -
  show "tuple_inv E t" "udt_inv E u" by (rule tuple_reachable_inv [OF t], rule udt_reachable_inv [OF u])
  show "\<not> (0 \<le> i \<and> i < int (tuple_count t) \<and> accepted E (tup_types t ! nat i) v) \<Longrightarrow> snd (tuple_set E t i v) = t"
    unfolding tuple_count_def using tuple_set_cases(2) by blast
  show "(\<forall>ty. map_of (udt_fields u) s = Some ty \<longrightarrow> \<not> accepted E ty v) \<Longrightarrow> snd (user_type_value_set E u s v) = u"
    using udt_set_cases(2) by blast
  show "tuple_get (snd (tuple_set E t i v)) j = (if j = i then Ret v else tuple_get t j)"
    if "0 \<le> i" "i < int (tuple_count t)" "accepted E (tup_types t ! nat i) v"
    using that tuple_keys.look_put [of t "nat i" v "nat j"] tuple_keys.keys_put [of t "nat i" v]
    by (auto simp: tuple_set_cases(1) tuple_count_def tuple_get_def php_scylladb_tuple_set_def tup_types_def)
  show "user_type_value_get (snd (user_type_value_set E u s v)) r = (if r = s then Ret v else user_type_value_get u r)"
    if "map_of (udt_fields u) s = Some ty" "accepted E ty v"
    using that udt_keys.look_put [of u s v r]
    by (auto simp: udt_set_cases(1) user_type_value_get_def) (simp_all add: php_scylladb_user_type_value_set_def udt_fields_def)
  show "tuple_get (fold (\<lambda>e t. php_scylladb_tuple_set t (fst e) (snd e)) xs t) j = tuple_get (fold (\<lambda>e t. php_scylladb_tuple_set t (fst e) (snd e)) ys t) j"
    if "distinct (map fst xs)" "distinct (map fst ys)" "set xs = set ys"
    using tuple_keys.puts_commute [OF that, of t "nat j"] by (simp add: tuple_get_def tup_types_puts)
  show "tuple_valid ((tuple_next ^^ k) (tuple_rewind t)) \<longleftrightarrow> k < tuple_count t"
    "k < tuple_count t \<Longrightarrow> tuple_current ((tuple_next ^^ k) (tuple_rewind t)) = php_scylladb_tuple_populate t ! k"
    by (auto simp: tuple_walk tuple_valid_def tuple_current_def pos_valid_def tuple_count_def php_scylladb_tuple_populate_def tup_types_def min_def)
  show "user_type_value_valid ((user_type_value_next ^^ k) (user_type_value_rewind u)) \<longleftrightarrow> k < user_type_value_count u"
    by (auto simp: udt_walk user_type_value_valid_def pos_valid_def user_type_value_count_def udt_fields_def min_def)
  show "(user_type_value_key ((user_type_value_next ^^ k) (user_type_value_rewind u)), user_type_value_current ((user_type_value_next ^^ k) (user_type_value_rewind u))) =
      (ZString (fst (php_scylladb_user_type_value_populate u ! k)), snd (php_scylladb_user_type_value_populate u ! k))"
    if "k < user_type_value_count u"
    using that by (auto simp: udt_walk user_type_value_key_def user_type_value_current_def pos_valid_def user_type_value_count_def
        php_scylladb_user_type_value_populate_def udt_fields_def min_def)
  show "\<exists>t1 t2. tuple_reachable env_ref t1 \<and> tuple_reachable env_ref t2 \<and> php_scylladb_tuple_populate t1 = php_scylladb_tuple_populate t2 \<and>
      php_scylladb_value_compare env_ref (tuple_zval t1) (tuple_zval t2) \<noteq> 0"
    by (rule order_matters)
qed

text \<open>
  Property C40. Tuples and user type values, whatever operations made them, hold only values accepted
  for the element they are stored under; \<^verbatim>\<open>set\<close> with a wrong index or name, or with a value that is
  not accepted, changes nothing; a value set is the value read, the others are untouched, and the order
  of the calls does not matter for what is read; iteration reads the elements of the type in order, null
  where nothing was set. The comparison does depend on the order: two tuples with the same elements can
  compare different.
\<close>

theorem keyed_values_objects:
  assumes t: "tuple_reachable E t" and u: "udt_reachable E u"
  shows "tuple_inv E t \<and> udt_inv E u \<and>
    (\<not> (0 \<le> i \<and> i < int (tuple_count t) \<and> accepted E (tup_types t ! nat i) v) \<longrightarrow> snd (tuple_set E t i v) = t) \<and>
    ((\<forall>ty. map_of (udt_fields u) s = Some ty \<longrightarrow> \<not> accepted E ty v) \<longrightarrow> snd (user_type_value_set E u s v) = u) \<and>
    (0 \<le> i \<longrightarrow> i < int (tuple_count t) \<longrightarrow> accepted E (tup_types t ! nat i) v \<longrightarrow>
      tuple_get (snd (tuple_set E t i v)) j = (if j = i then Ret v else tuple_get t j)) \<and>
    (map_of (udt_fields u) s = Some ty \<longrightarrow> accepted E ty v \<longrightarrow>
      user_type_value_get (snd (user_type_value_set E u s v)) r = (if r = s then Ret v else user_type_value_get u r)) \<and>
    (distinct (map fst xs) \<longrightarrow> distinct (map fst ys) \<longrightarrow> set xs = set ys \<longrightarrow>
      tuple_get (fold (\<lambda>e t. php_scylladb_tuple_set t (fst e) (snd e)) xs t) j = tuple_get (fold (\<lambda>e t. php_scylladb_tuple_set t (fst e) (snd e)) ys t) j) \<and>
    (tuple_valid ((tuple_next ^^ k) (tuple_rewind t)) \<longleftrightarrow> k < tuple_count t) \<and>
    (k < tuple_count t \<longrightarrow> tuple_current ((tuple_next ^^ k) (tuple_rewind t)) = php_scylladb_tuple_populate t ! k) \<and>
    (user_type_value_valid ((user_type_value_next ^^ k) (user_type_value_rewind u)) \<longleftrightarrow> k < user_type_value_count u) \<and>
    (k < user_type_value_count u \<longrightarrow>
      (user_type_value_key ((user_type_value_next ^^ k) (user_type_value_rewind u)), user_type_value_current ((user_type_value_next ^^ k) (user_type_value_rewind u))) =
      (ZString (fst (php_scylladb_user_type_value_populate u ! k)), snd (php_scylladb_user_type_value_populate u ! k))) \<and>
    (\<exists>t1 t2. tuple_reachable env_ref t1 \<and> tuple_reachable env_ref t2 \<and> php_scylladb_tuple_populate t1 = php_scylladb_tuple_populate t2 \<and>
      php_scylladb_value_compare env_ref (tuple_zval t1) (tuple_zval t2) \<noteq> 0)"
  by (intro keyed_parts [OF t u] conjI impI)

section \<open>Witnesses\<close>

definition example_coll :: php_scylladb_collection where
  "example_coll = snd (collection_add env_ref (php_scylladb_collection_new (T_List (T_Scalar CASS_VALUE_TYPE_INT))) [ZLong 7, ZLong 8])"

lemma example_coll_reachable: "coll_reachable env_ref example_coll"
  unfolding example_coll_def by (intro coll_reachable.intros)


theorem keyed_values_objects_witness:
  "tuple_get (snd (tuple_set env_ref (php_scylladb_tuple_new (T_Tuple [T_Scalar CASS_VALUE_TYPE_INT])) 0 (ZLong 5))) 0 = Ret (ZLong 5)"
proof -
  have "accepted env_ref (tup_types (php_scylladb_tuple_new (T_Tuple [T_Scalar CASS_VALUE_TYPE_INT])) ! nat 0) (ZLong 5)"
    "0 < int (tuple_count (php_scylladb_tuple_new (T_Tuple [T_Scalar CASS_VALUE_TYPE_INT])))" by code_simp+
  then show ?thesis
    using keyed_values_objects [OF tuple_reachable.new udt_reachable.new [of _ None None "[]"], where i = 0 and j = 0 and v = "ZLong 5"] by simp
qed

end
