(* ===== verification/Codec.thy ===== *)
theory Codec
  imports Sequences
begin

text \<open>
  PHP values on their way to and from the server: the conversions of \<^verbatim>\<open>src/Type/Conversions.c\<close> into the
  driver's collections, tuples and user types, and \<^verbatim>\<open>php_scylladb_value\<close> of
  \<^verbatim>\<open>src/Database/ResultDecoder.c\<close>, which reads a value of a result. A driver value is what the
  extension handed over: the calls on an element, in order. How the driver gives the elements back, and
  when it refuses a call, is a parameter with its documented laws.
\<close>

section \<open>Values of the driver\<close>

datatype cval =
    V_Null
  | V_String string
  | V_Int8 int
  | V_Int16 int
  | V_Int32 int
  | V_Int64 int
  | V_Uint32 int
  | V_Bytes "byte list"
  | V_Bool bool
  | V_Double "64 word"
  | V_Float "32 word"
  | V_Uuid "64 word" "64 word"
  | V_Decimal "byte list" int
  | V_Duration int int int
  | V_Inet "byte list"
  | V_Items "cval list" \<comment> \<open>the values appended to a collection, keys and values of a map in turn\<close>
  | V_Tuple "(nat \<times> cval) list" \<comment> \<open>the items set, by position\<close>
  | V_User_type "(string \<times> cval) list" \<comment> \<open>the fields set, by name\<close>

text \<open>
  The driver: the error of storing a value as an element of a type, and its iterators over collections,
  maps, tuples (of so many items) and user types (of these fields).
\<close>

record driver =
  dr_error :: "cass_value_type \<Rightarrow> cval \<Rightarrow> exn option"
  dr_items :: "cval \<Rightarrow> cval list"
  dr_pairs :: "cval \<Rightarrow> (cval \<times> cval) list"
  dr_tuple :: "nat \<Rightarrow> cval \<Rightarrow> cval list"
  dr_fields :: "string list \<Rightarrow> cval \<Rightarrow> (string \<times> cval) list"

section \<open>To the driver\<close>

text \<open>A conversion fails with an exception, or returns false without one (\<open>Ret None\<close>).\<close>

definition bind_conv :: "'a option outcome \<Rightarrow> ('a \<Rightarrow> 'b option outcome) \<Rightarrow> 'b option outcome" where
  "bind_conv x f = bind_outcome x (\<lambda>r. case r of None \<Rightarrow> Ret None | Some a \<Rightarrow> f a)"

fun conv_all :: "('a \<Rightarrow> 'b option outcome) \<Rightarrow> 'a list \<Rightarrow> 'b list option outcome" where
  "conv_all f [] = Ret (Some [])"
| "conv_all f (x # xs) = bind_conv (f x) (\<lambda>y. bind_conv (conv_all f xs) (\<lambda>ys. Ret (Some (y # ys))))"

text \<open>Where an element goes: the C string functions used for fields stop at a NUL byte.\<close>

datatype sink = In_collection | In_tuple | In_user_type

definition c_string :: "string \<Rightarrow> string" where
  "c_string s = takeWhile (\<lambda>c. c \<noteq> CHR 0x00) s"

definition sink_text :: "sink \<Rightarrow> string \<Rightarrow> string" where
  "sink_text k s = (if k = In_user_type then c_string s else s)"

text \<open>The cases for scalars, the same in the three functions.\<close>

definition scalar_element :: "php_env \<Rightarrow> sink \<Rightarrow> zval \<Rightarrow> cass_value_type \<Rightarrow> cval outcome" where
  "scalar_element E k v c =
     (if c \<in> {CASS_VALUE_TYPE_TEXT, CASS_VALUE_TYPE_ASCII, CASS_VALUE_TYPE_VARCHAR} then
        (case v of ZString s \<Rightarrow> Ret (V_String (sink_text k s)) | _ \<Rightarrow> UB)
      else if c \<in> {CASS_VALUE_TYPE_BIGINT, CASS_VALUE_TYPE_COUNTER} then
        (case v of ZNumeric (N_Bigint n) \<Rightarrow> Ret (V_Int64 n) | _ \<Rightarrow> UB)
      else if c = CASS_VALUE_TYPE_SMALL_INT then (case v of ZNumeric (N_Smallint n) \<Rightarrow> Ret (V_Int16 n) | _ \<Rightarrow> UB)
      else if c = CASS_VALUE_TYPE_TINY_INT then (case v of ZNumeric (N_Tinyint n) \<Rightarrow> Ret (V_Int8 n) | _ \<Rightarrow> UB)
      else if c = CASS_VALUE_TYPE_BLOB then (case v of ZBlob b \<Rightarrow> Ret (V_Bytes b) | _ \<Rightarrow> UB)
      else if c = CASS_VALUE_TYPE_BOOLEAN then Ret (V_Bool (v = ZTrue))
      else if c = CASS_VALUE_TYPE_DOUBLE then (case v of ZDouble d \<Rightarrow> Ret (V_Double d) | _ \<Rightarrow> UB)
      else if c = CASS_VALUE_TYPE_FLOAT then (case v of ZNumeric (N_Float f) \<Rightarrow> Ret (V_Float f) | _ \<Rightarrow> UB)
      else if c = CASS_VALUE_TYPE_INT then (case v of ZLong n \<Rightarrow> Ret (V_Int32 (cast_s 32 n)) | _ \<Rightarrow> UB)
      else if c = CASS_VALUE_TYPE_TIMESTAMP then (case v of ZTimestamp n \<Rightarrow> Ret (V_Int64 n) | _ \<Rightarrow> UB)
      else if c = CASS_VALUE_TYPE_DATE then (case v of ZDate n \<Rightarrow> Ret (V_Uint32 n) | _ \<Rightarrow> UB)
      else if c = CASS_VALUE_TYPE_TIME then (case v of ZTime n \<Rightarrow> Ret (V_Int64 n) | _ \<Rightarrow> UB)
      else if c \<in> {CASS_VALUE_TYPE_UUID, CASS_VALUE_TYPE_TIMEUUID} then (case v of ZUuid _ hi lo \<Rightarrow> Ret (V_Uuid hi lo) | _ \<Rightarrow> UB)
      else if c = CASS_VALUE_TYPE_VARINT then
        (case v of ZNumeric (N_Varint n) \<Rightarrow> Ret (V_Bytes (export_twos_complement (gmp_lib E) n)) | _ \<Rightarrow> UB)
      else if c = CASS_VALUE_TYPE_DECIMAL then
        (case v of ZNumeric (N_Decimal n s) \<Rightarrow> Ret (V_Decimal (export_twos_complement (gmp_lib E) n) (cast_s 32 s)) | _ \<Rightarrow> UB)
      else if c = CASS_VALUE_TYPE_DURATION then (case v of ZDuration m d n \<Rightarrow> Ret (V_Duration m d n) | _ \<Rightarrow> UB)
      else if c = CASS_VALUE_TYPE_INET then (case v of ZInet b \<Rightarrow> Ret (V_Inet b) | _ \<Rightarrow> UB)
      else Throw (Exn RuntimeException ''Unsupported collection type''))"

text \<open>The containers, over the function that converts an element of a given type.\<close>

definition collection_from_collection :: "(zval \<Rightarrow> cass_value_type \<Rightarrow> cval option outcome) \<Rightarrow> cass_type \<Rightarrow> zval list \<Rightarrow> cval option outcome" where
  "collection_from_collection add_item t vs =
     (case t of T_List u \<Rightarrow> bind_conv (conv_all (\<lambda>v. add_item v (type_of u)) vs) (\<lambda>cs. Ret (Some (V_Items cs))) | _ \<Rightarrow> UB)"

definition collection_from_set :: "(zval \<Rightarrow> cass_value_type \<Rightarrow> cval option outcome) \<Rightarrow> cass_type \<Rightarrow> zval list \<Rightarrow> cval option outcome" where
  "collection_from_set add_item t vs =
     (case t of T_Set u \<Rightarrow> bind_conv (conv_all (\<lambda>v. add_item v (type_of u)) vs) (\<lambda>cs. Ret (Some (V_Items cs))) | _ \<Rightarrow> UB)"

definition collection_from_map :: "(zval \<Rightarrow> cass_value_type \<Rightarrow> cval option outcome) \<Rightarrow> cass_type \<Rightarrow> (zval \<times> zval) list \<Rightarrow> cval option outcome" where
  "collection_from_map add_item t kvs =
     (case t of
        T_Map k u \<Rightarrow>
          bind_conv (conv_all (\<lambda>e. bind_conv (add_item (fst e) (type_of k)) (\<lambda>x. bind_conv (add_item (snd e) (type_of u)) (\<lambda>y. Ret (Some [x, y])))) kvs)
            (\<lambda>cs. Ret (Some (V_Items (concat cs))))
      | _ \<Rightarrow> UB)"

text \<open>Each item of a tuple and field of a user type is checked against its type again.\<close>

definition checked_item :: "php_env \<Rightarrow> (zval \<Rightarrow> cass_value_type \<Rightarrow> cval option outcome) \<Rightarrow> cass_type option \<Rightarrow> zval \<Rightarrow> cval option outcome" where
  "checked_item E set_item sub_type v =
     (case sub_type of
        None \<Rightarrow> Ret None
      | Some u \<Rightarrow> bind_outcome (php_scylladb_validate_object E v u) (\<lambda>ok. if ok then set_item v (type_of u) else Ret None))"

definition tuple_from_tuple :: "php_env \<Rightarrow> (zval \<Rightarrow> cass_value_type \<Rightarrow> cval option outcome) \<Rightarrow> cass_type \<Rightarrow> (nat \<times> zval) list \<Rightarrow> cval option outcome" where
  "tuple_from_tuple E set_item t es =
     (case t of
        T_Tuple ts \<Rightarrow>
          bind_conv (conv_all (\<lambda>e. bind_conv (checked_item E set_item (if fst e < length ts then Some (ts ! fst e) else None) (snd e))
            (\<lambda>c. Ret (Some (fst e, c)))) es) (\<lambda>cs. Ret (Some (V_Tuple cs)))
      | _ \<Rightarrow> UB)"

definition user_type_from_user_type_value ::
    "php_env \<Rightarrow> (zval \<Rightarrow> cass_value_type \<Rightarrow> cval option outcome) \<Rightarrow> cass_type \<Rightarrow> (string \<times> zval) list \<Rightarrow> cval option outcome" where
  "user_type_from_user_type_value E set_item t es =
     (case t of
        T_Udt _ _ fs \<Rightarrow>
          bind_conv (conv_all (\<lambda>e. bind_conv (checked_item E set_item (map_of fs (fst e)) (snd e))
            (\<lambda>c. Ret (Some (c_string (fst e), c)))) es) (\<lambda>cs. Ret (Some (V_User_type cs)))
      | _ \<Rightarrow> UB)"

lemma bind_conv_cong [fundef_cong]:
  "x = y \<Longrightarrow> (\<And>a. y = Ret (Some a) \<Longrightarrow> f a = g a) \<Longrightarrow> bind_conv x f = bind_conv y g"
  by (cases y) (auto simp: bind_conv_def split: option.splits)

lemma conv_all_cong [fundef_cong]:
  "xs = ys \<Longrightarrow> (\<And>x. x \<in> set ys \<Longrightarrow> f x = g x) \<Longrightarrow> conv_all f xs = conv_all g ys"
  by (induction xs arbitrary: ys) (auto simp: bind_conv_def)

lemma from_collection_cong [fundef_cong]:
  "t = t' \<Longrightarrow> vs = vs' \<Longrightarrow> (\<And>v c. v \<in> set vs' \<Longrightarrow> f v c = g v c) \<Longrightarrow>
     collection_from_collection f t vs = collection_from_collection g t' vs'"
  "t = t' \<Longrightarrow> vs = vs' \<Longrightarrow> (\<And>v c. v \<in> set vs' \<Longrightarrow> f v c = g v c) \<Longrightarrow> collection_from_set f t vs = collection_from_set g t' vs'"
  unfolding collection_from_collection_def collection_from_set_def
  by (auto split: cass_type.splits intro!: bind_conv_cong conv_all_cong)

lemma from_map_cong [fundef_cong]:
  "t = t' \<Longrightarrow> kvs = kvs' \<Longrightarrow> (\<And>k v c. (k, v) \<in> set kvs' \<Longrightarrow> f k c = g k c) \<Longrightarrow> (\<And>k v c. (k, v) \<in> set kvs' \<Longrightarrow> f v c = g v c) \<Longrightarrow>
     collection_from_map f t kvs = collection_from_map g t' kvs'"
  unfolding collection_from_map_def
  by (auto split: cass_type.splits intro!: bind_conv_cong conv_all_cong)

lemma checked_item_cong: "(\<And>c. f v c = g v c) \<Longrightarrow> checked_item E f u v = checked_item E g u v"
  by (auto simp: checked_item_def split: option.splits intro!: arg_cong [where f = "bind_outcome _"])

lemma from_tuple_cong [fundef_cong]:
  "t = t' \<Longrightarrow> es = es' \<Longrightarrow> (\<And>i v c. (i, v) \<in> set es' \<Longrightarrow> f v c = g v c) \<Longrightarrow> tuple_from_tuple E f t es = tuple_from_tuple E g t' es'"
  unfolding tuple_from_tuple_def
  by (auto split: cass_type.splits intro!: bind_conv_cong conv_all_cong checked_item_cong)

lemma from_user_type_cong [fundef_cong]:
  "t = t' \<Longrightarrow> es = es' \<Longrightarrow> (\<And>s v c. (s, v) \<in> set es' \<Longrightarrow> f v c = g v c) \<Longrightarrow>
     user_type_from_user_type_value E f t es = user_type_from_user_type_value E g t' es'"
  unfolding user_type_from_user_type_value_def
  by (auto split: cass_type.splits intro!: bind_conv_cong conv_all_cong checked_item_cong)

text \<open>What the driver's call returns: its error becomes an exception.\<close>

definition store :: "driver \<Rightarrow> cass_value_type \<Rightarrow> cval \<Rightarrow> cval option outcome" where
  "store D c x = (case dr_error D c x of None \<Rightarrow> Ret (Some x) | Some e \<Rightarrow> Throw e)"

text \<open>
  An element, for the three places it can go: \<^verbatim>\<open>php_scylladb_collection_append\<close>,
  \<^verbatim>\<open>php_scylladb_tuple_set\<close> and \<^verbatim>\<open>php_scylladb_user_type_set\<close>. A null is an element of tuples and user
  types only.
\<close>

function element :: "php_env \<Rightarrow> driver \<Rightarrow> sink \<Rightarrow> zval \<Rightarrow> cass_value_type \<Rightarrow> cval option outcome" where
  "element E D k v c =
     (if v = ZNull \<and> k \<noteq> In_collection then store D c V_Null
      else bind_conv
        (if c = CASS_VALUE_TYPE_LIST then
           (case collection_of v of None \<Rightarrow> UB | Some a \<Rightarrow> collection_from_collection (\<lambda>x. element E D In_collection x) (fst a) (snd a))
         else if c = CASS_VALUE_TYPE_MAP then
           (case map_of_zval v of None \<Rightarrow> UB | Some a \<Rightarrow> collection_from_map (\<lambda>x. element E D In_collection x) (fst a) (snd (snd a)))
         else if c = CASS_VALUE_TYPE_SET then
           (case set_of v of None \<Rightarrow> UB | Some a \<Rightarrow> collection_from_set (\<lambda>x. element E D In_collection x) (fst a) (snd (snd a)))
         else if c = CASS_VALUE_TYPE_TUPLE then
           (case tuple_of v of None \<Rightarrow> UB | Some a \<Rightarrow> tuple_from_tuple E (\<lambda>x. element E D In_tuple x) (fst a) (snd a))
         else if c = CASS_VALUE_TYPE_UDT then
           (case user_type_of v of None \<Rightarrow> UB | Some a \<Rightarrow> user_type_from_user_type_value E (\<lambda>x. element E D In_user_type x) (fst a) (snd a))
         else bind_outcome (scalar_element E k v c) (\<lambda>x. Ret (Some x)))
        (store D c))"
  by pat_completeness auto
termination
  by (relation "measure (\<lambda>(E, D, k, v, c). size v)")
    (auto dest: collection_part tuple_part user_type_part set_part map_part)

declare element.simps [simp del]

definition php_scylladb_collection_append :: "php_env \<Rightarrow> driver \<Rightarrow> zval \<Rightarrow> cass_value_type \<Rightarrow> cval option outcome" where
  "php_scylladb_collection_append E D v c = element E D In_collection v c"

definition conversions_tuple_set :: "php_env \<Rightarrow> driver \<Rightarrow> zval \<Rightarrow> cass_value_type \<Rightarrow> cval option outcome" where
  "conversions_tuple_set E D v c = element E D In_tuple v c"

definition conversions_user_type_set :: "php_env \<Rightarrow> driver \<Rightarrow> zval \<Rightarrow> cass_value_type \<Rightarrow> cval option outcome" where
  "conversions_user_type_set E D v c = element E D In_user_type v c"

text \<open>The whole objects, as statement arguments.\<close>

definition php_scylladb_collection_from_collection :: "php_env \<Rightarrow> driver \<Rightarrow> php_scylladb_collection \<Rightarrow> cval option outcome" where
  "php_scylladb_collection_from_collection E D c =
     collection_from_collection (php_scylladb_collection_append E D) (coll_type c) (php_scylladb_collection_populate c)"

definition php_scylladb_collection_from_set :: "php_env \<Rightarrow> driver \<Rightarrow> php_scylladb_set \<Rightarrow> cval option outcome" where
  "php_scylladb_collection_from_set E D s =
     collection_from_set (php_scylladb_collection_append E D) (set_type s) (map fst (table_entries (set_entries s)))"

definition php_scylladb_collection_from_map :: "php_env \<Rightarrow> driver \<Rightarrow> php_scylladb_map \<Rightarrow> cval option outcome" where
  "php_scylladb_collection_from_map E D m =
     collection_from_map (php_scylladb_collection_append E D) (map_type m) (table_entries (map_entries m))"

definition php_scylladb_tuple_from_tuple :: "php_env \<Rightarrow> driver \<Rightarrow> php_scylladb_tuple \<Rightarrow> cval option outcome" where
  "php_scylladb_tuple_from_tuple E D t = tuple_from_tuple E (conversions_tuple_set E D) (tup_type t) (ht_entries (tup_values t))"

definition php_scylladb_user_type_from_user_type_value :: "php_env \<Rightarrow> driver \<Rightarrow> php_scylladb_user_type_value \<Rightarrow> cval option outcome" where
  "php_scylladb_user_type_from_user_type_value E D u =
     user_type_from_user_type_value E (conversions_user_type_set E D) (udt_type u) (ht_entries (udt_values u))"

section \<open>From the driver\<close>

text \<open>The driver refuses to read a value as something else.\<close>

definition wrong_type :: "'a outcome" where
  "wrong_type = Throw (Exn InvalidArgumentException ''Invalid value type'')"

definition decode_scalar :: "php_env \<Rightarrow> cass_value_type \<Rightarrow> cval \<Rightarrow> zval outcome" where
  "decode_scalar E c x =
     (if c \<in> {CASS_VALUE_TYPE_ASCII, CASS_VALUE_TYPE_TEXT, CASS_VALUE_TYPE_VARCHAR} then
        (case x of V_String s \<Rightarrow> Ret (ZString s) | _ \<Rightarrow> wrong_type)
      else if c = CASS_VALUE_TYPE_INT then (case x of V_Int32 n \<Rightarrow> Ret (ZLong n) | _ \<Rightarrow> wrong_type)
      else if c \<in> {CASS_VALUE_TYPE_COUNTER, CASS_VALUE_TYPE_BIGINT} then
        (case x of V_Int64 n \<Rightarrow> Ret (ZNumeric (N_Bigint n)) | _ \<Rightarrow> wrong_type)
      else if c = CASS_VALUE_TYPE_SMALL_INT then (case x of V_Int16 n \<Rightarrow> Ret (ZNumeric (N_Smallint n)) | _ \<Rightarrow> wrong_type)
      else if c = CASS_VALUE_TYPE_TINY_INT then (case x of V_Int8 n \<Rightarrow> Ret (ZNumeric (N_Tinyint n)) | _ \<Rightarrow> wrong_type)
      else if c = CASS_VALUE_TYPE_TIMESTAMP then (case x of V_Int64 n \<Rightarrow> Ret (ZTimestamp n) | _ \<Rightarrow> wrong_type)
      else if c = CASS_VALUE_TYPE_DATE then (case x of V_Uint32 n \<Rightarrow> Ret (ZDate n) | _ \<Rightarrow> wrong_type)
      else if c = CASS_VALUE_TYPE_TIME then (case x of V_Int64 n \<Rightarrow> Ret (ZTime n) | _ \<Rightarrow> wrong_type)
      else if c = CASS_VALUE_TYPE_BLOB then (case x of V_Bytes b \<Rightarrow> Ret (ZBlob b) | _ \<Rightarrow> wrong_type)
      else if c = CASS_VALUE_TYPE_VARINT then
        (case x of V_Bytes b \<Rightarrow> bind_outcome (import_twos_complement (gmp_lib E) b) (\<lambda>n. Ret (ZNumeric (N_Varint n))) | _ \<Rightarrow> wrong_type)
      else if c = CASS_VALUE_TYPE_UUID then (case x of V_Uuid hi lo \<Rightarrow> Ret (ZUuid False hi lo) | _ \<Rightarrow> wrong_type)
      else if c = CASS_VALUE_TYPE_TIMEUUID then (case x of V_Uuid hi lo \<Rightarrow> Ret (ZUuid True hi lo) | _ \<Rightarrow> wrong_type)
      else if c = CASS_VALUE_TYPE_BOOLEAN then (case x of V_Bool b \<Rightarrow> Ret (if b then ZTrue else ZFalse) | _ \<Rightarrow> wrong_type)
      else if c = CASS_VALUE_TYPE_INET then (case x of V_Inet b \<Rightarrow> Ret (ZInet b) | _ \<Rightarrow> wrong_type)
      else if c = CASS_VALUE_TYPE_DECIMAL then
        (case x of V_Decimal b s \<Rightarrow> bind_outcome (import_twos_complement (gmp_lib E) b) (\<lambda>n. Ret (ZNumeric (N_Decimal n s))) | _ \<Rightarrow> wrong_type)
      else if c = CASS_VALUE_TYPE_DURATION then (case x of V_Duration m d n \<Rightarrow> Ret (ZDuration m d n) | _ \<Rightarrow> wrong_type)
      else if c = CASS_VALUE_TYPE_DOUBLE then (case x of V_Double d \<Rightarrow> Ret (ZDouble d) | _ \<Rightarrow> wrong_type)
      else if c = CASS_VALUE_TYPE_FLOAT then (case x of V_Float f \<Rightarrow> Ret (ZNumeric (N_Float f)) | _ \<Rightarrow> wrong_type)
      else Ret ZNull)"

text \<open>
  The loops over the driver's iterators. The results of \<^verbatim>\<open>map_set\<close> and \<^verbatim>\<open>set_add\<close> are not looked at:
  an exception stays pending and surfaces when the call returns. The position of an element is the
  address of its entry.
\<close>

definition surface :: "bool outcome \<times> 's \<Rightarrow> 's outcome" where
  "surface r = bind_outcome (fst r) (\<lambda>_. Ret (snd r))"

fun decode_list :: "(cval \<Rightarrow> zval outcome) \<Rightarrow> cval list \<Rightarrow> php_scylladb_collection \<Rightarrow> php_scylladb_collection outcome" where
  "decode_list f [] c = Ret c"
| "decode_list f (x # xs) c = bind_outcome (f x) (\<lambda>v. decode_list f xs (php_scylladb_collection_add c v))"

fun decode_set :: "php_env \<Rightarrow> (cval \<Rightarrow> zval outcome) \<Rightarrow> nat \<Rightarrow> cval list \<Rightarrow> php_scylladb_set \<Rightarrow> php_scylladb_set outcome" where
  "decode_set E f i [] s = Ret s"
| "decode_set E f i (x # xs) s =
     bind_outcome (f x) (\<lambda>v. bind_outcome (surface (php_scylladb_set_add E i s v)) (decode_set E f (Suc i) xs))"

fun decode_map ::
    "php_env \<Rightarrow> (cval \<Rightarrow> zval outcome) \<Rightarrow> (cval \<Rightarrow> zval outcome) \<Rightarrow> nat \<Rightarrow> (cval \<times> cval) list \<Rightarrow> php_scylladb_map \<Rightarrow> php_scylladb_map outcome" where
  "decode_map E f g i [] m = Ret m"
| "decode_map E f g i ((x, y) # xs) m =
     bind_outcome (f x) (\<lambda>k. bind_outcome (g y) (\<lambda>v.
       bind_outcome (surface (php_scylladb_map_set E i m k v)) (decode_map E f g (Suc i) xs)))"

text \<open>Null items and fields are left out.\<close>

fun decode_tuple :: "(cass_type \<times> cval \<Rightarrow> zval outcome) \<Rightarrow> nat \<Rightarrow> (cass_type \<times> cval) list \<Rightarrow> php_scylladb_tuple \<Rightarrow> php_scylladb_tuple outcome" where
  "decode_tuple f i [] t = Ret t"
| "decode_tuple f i (p # ps) t =
     (if snd p = V_Null then decode_tuple f (Suc i) ps t
      else bind_outcome (f p) (\<lambda>v. decode_tuple f (Suc i) ps (php_scylladb_tuple_set t i v)))"

fun decode_user_type ::
    "(cass_type \<times> cval \<Rightarrow> zval outcome) \<Rightarrow> (string \<times> cass_type \<times> cval) list \<Rightarrow> php_scylladb_user_type_value \<Rightarrow> php_scylladb_user_type_value outcome" where
  "decode_user_type f [] u = Ret u"
| "decode_user_type f ((name, p) # ps) u =
     (if snd p = V_Null then decode_user_type f ps u
      else bind_outcome (f p) (\<lambda>v. decode_user_type f ps (php_scylladb_user_type_value_set u name v)))"

lemma decode_tuple_cong [fundef_cong]:
  "i = j \<Longrightarrow> ps = qs \<Longrightarrow> t = u \<Longrightarrow> (\<And>a x. (a, x) \<in> set qs \<Longrightarrow> f (a, x) = g (a, x)) \<Longrightarrow> decode_tuple f i ps t = decode_tuple g j qs u"
proof (induction ps arbitrary: i j t u qs)
  case (Cons p ps)
  then have "f p = g p" by (metis list.set_intros(1) surj_pair)
  then show ?case using Cons by (auto intro!: arg_cong2 [where f = bind_outcome])
qed simp

lemma decode_user_type_cong [fundef_cong]:
  "ps = qs \<Longrightarrow> t = u \<Longrightarrow> (\<And>n a x. (n, a, x) \<in> set qs \<Longrightarrow> f (a, x) = g (a, x)) \<Longrightarrow> decode_user_type f ps t = decode_user_type g qs u"
proof (induction ps arbitrary: t u qs)
  case (Cons p ps)
  obtain n a x where p: "p = (n, a, x)" by (cases p)
  then have "f (a, x) = g (a, x)" using Cons.prems by (metis list.set_intros(1))
  moreover have "decode_user_type f ps w = decode_user_type g ps w" for w
    using Cons.IH [of ps w w] Cons.prems by (metis list.set_intros(2))
  ultimately show ?case using Cons.prems by (auto simp: p)
qed simp

lemma field_part_size: "(a, b) \<in> set fs \<Longrightarrow> size b < Suc (size_list (size_prod (\<lambda>x. 0) size) fs)" for fs :: "(string \<times> cass_type) list"
  by (rule snd_part_size [of b fs size "\<lambda>x. 0"]) force

text \<open>
  \<^verbatim>\<open>php_scylladb_value\<close>. The type is the one that \<^verbatim>\<open>php_scylladb_type_from_data_type\<close> makes of
  the driver's data type.
\<close>

function php_scylladb_value :: "php_env \<Rightarrow> driver \<Rightarrow> cass_type \<Rightarrow> cval \<Rightarrow> zval outcome" where
  "php_scylladb_value E D t x =
     (if x = V_Null then Ret ZNull
      else case t of
        T_Scalar c \<Rightarrow> decode_scalar E c x
      | T_Custom _ \<Rightarrow> Ret ZNull
      | T_List u \<Rightarrow>
          bind_outcome (decode_list (\<lambda>y. php_scylladb_value E D u y) (dr_items D x) (php_scylladb_collection_new t)) (\<lambda>c. Ret (collection_zval c))
      | T_Map k u \<Rightarrow>
          bind_outcome (decode_map E (\<lambda>y. php_scylladb_value E D k y) (\<lambda>y. php_scylladb_value E D u y) 0 (dr_pairs D x) (php_scylladb_map_new t)) (\<lambda>m. Ret (map_zval m))
      | T_Set u \<Rightarrow>
          bind_outcome (decode_set E (\<lambda>y. php_scylladb_value E D u y) 0 (dr_items D x) (php_scylladb_set_new t)) (\<lambda>s. Ret (set_zval s))
      | T_Tuple ts \<Rightarrow>
          bind_outcome (decode_tuple (\<lambda>p. php_scylladb_value E D (fst p) (snd p)) 0 (zip ts (dr_tuple D (length ts) x)) (php_scylladb_tuple_new t))
            (\<lambda>t. Ret (tuple_zval t))
      | T_Udt _ _ fs \<Rightarrow>
          bind_outcome (decode_user_type (\<lambda>p. php_scylladb_value E D (fst p) (snd p))
              (map (\<lambda>(ty, n, y). (n, ty, y)) (zip (map snd fs) (dr_fields D (map fst fs) x))) (php_scylladb_user_type_value_new t))
            (\<lambda>u. Ret (user_type_value_zval u)))"
  by pat_completeness auto
termination
  by (relation "measure (\<lambda>(E, D, t, x). size t)") (auto dest!: set_zip_leftD intro: list_part_size, rule field_part_size, assumption)

declare php_scylladb_value.simps [simp del]

text \<open>A row of a result: columns of the same name overwrite each other. Keys are written as strings, also
  those that PHP keeps as integers.\<close>

fun decode_row :: "php_env \<Rightarrow> driver \<Rightarrow> (string \<times> cass_type) list \<Rightarrow> cval list \<Rightarrow> (string \<times> zval) list \<Rightarrow> (string \<times> zval) list outcome" where
  "decode_row E D ((name, t) # cols) (x # xs) row =
     bind_outcome (php_scylladb_value E D t x) (\<lambda>v. decode_row E D cols xs (AList.update name v row))"
| "decode_row E D _ _ row = Ret row"

fun php_scylladb_get_result :: "php_env \<Rightarrow> driver \<Rightarrow> (string \<times> cass_type) list \<Rightarrow> cval list list \<Rightarrow> zval list outcome" where
  "php_scylladb_get_result E D cols [] = Ret []"
| "php_scylladb_get_result E D cols (r # rs) =
     bind_outcome (decode_row E D cols r []) (\<lambda>row. bind_outcome (php_scylladb_get_result E D cols rs) (\<lambda>rows. Ret (ZArray row # rows)))"

section \<open>What the driver documents\<close>

text \<open>An element of a type takes a null, and values of the functions made for the type.\<close>

definition stores :: "cass_value_type \<Rightarrow> cval \<Rightarrow> bool" where
  "stores c x \<longleftrightarrow>
     (case x of
        V_Null \<Rightarrow> True
      | V_String _ \<Rightarrow> c \<in> {CASS_VALUE_TYPE_TEXT, CASS_VALUE_TYPE_ASCII, CASS_VALUE_TYPE_VARCHAR}
      | V_Int8 _ \<Rightarrow> c = CASS_VALUE_TYPE_TINY_INT
      | V_Int16 _ \<Rightarrow> c = CASS_VALUE_TYPE_SMALL_INT
      | V_Int32 _ \<Rightarrow> c = CASS_VALUE_TYPE_INT
      | V_Int64 _ \<Rightarrow> c \<in> {CASS_VALUE_TYPE_BIGINT, CASS_VALUE_TYPE_COUNTER, CASS_VALUE_TYPE_TIMESTAMP, CASS_VALUE_TYPE_TIME}
      | V_Uint32 _ \<Rightarrow> c = CASS_VALUE_TYPE_DATE
      | V_Bytes _ \<Rightarrow> c \<in> {CASS_VALUE_TYPE_BLOB, CASS_VALUE_TYPE_VARINT}
      | V_Bool _ \<Rightarrow> c = CASS_VALUE_TYPE_BOOLEAN
      | V_Double _ \<Rightarrow> c = CASS_VALUE_TYPE_DOUBLE
      | V_Float _ \<Rightarrow> c = CASS_VALUE_TYPE_FLOAT
      | V_Uuid _ _ \<Rightarrow> c \<in> {CASS_VALUE_TYPE_UUID, CASS_VALUE_TYPE_TIMEUUID}
      | V_Decimal _ _ \<Rightarrow> c = CASS_VALUE_TYPE_DECIMAL
      | V_Duration _ _ _ \<Rightarrow> c = CASS_VALUE_TYPE_DURATION
      | V_Inet _ \<Rightarrow> c = CASS_VALUE_TYPE_INET
      | V_Items _ \<Rightarrow> c \<in> {CASS_VALUE_TYPE_LIST, CASS_VALUE_TYPE_SET, CASS_VALUE_TYPE_MAP}
      | V_Tuple _ \<Rightarrow> c = CASS_VALUE_TYPE_TUPLE
      | V_User_type _ \<Rightarrow> c = CASS_VALUE_TYPE_UDT)"

text \<open>Iterators give the values in order; items and fields never set are null.\<close>

definition driver_spec :: "driver \<Rightarrow> bool" where
  "driver_spec D \<longleftrightarrow>
     (\<forall>c x. stores c x \<longrightarrow> dr_error D c x = None) \<and>
     (\<forall>xs. dr_items D (V_Items xs) = xs) \<and>
     (\<forall>ps. dr_pairs D (V_Items (concat (map (\<lambda>p. [fst p, snd p]) ps))) = ps) \<and>
     (\<forall>n es. distinct (map fst es) \<longrightarrow> dr_tuple D n (V_Tuple es) = map (\<lambda>i. case_option V_Null id (map_of es i)) [0..<n]) \<and>
     (\<forall>ns es. distinct (map fst es) \<longrightarrow> dr_fields D ns (V_User_type es) = map (\<lambda>s. (s, case_option V_Null id (map_of es s))) ns)"

lemma driver_specD:
  assumes "driver_spec D"
  shows "stores c x \<Longrightarrow> store D c x = Ret (Some x)" and "dr_items D (V_Items xs) = xs"
    and "dr_pairs D (V_Items (concat (map (\<lambda>p. [fst p, snd p]) ps))) = ps"
    and "distinct (map fst es) \<Longrightarrow> dr_tuple D n (V_Tuple es) = map (\<lambda>i. case_option V_Null id (map_of es i)) [0..<n]"
    and "distinct (map fst fs) \<Longrightarrow> dr_fields D ns (V_User_type fs) = map (\<lambda>s. (s, case_option V_Null id (map_of fs s))) ns"
  using assms by (simp_all add: driver_spec_def store_def)

text \<open>An instance.\<close>

fun pair_up :: "'a list \<Rightarrow> ('a \<times> 'a) list" where
  "pair_up (x # y # zs) = (x, y) # pair_up zs"
| "pair_up _ = []"

definition driver_ref :: driver where
  "driver_ref =
     \<lparr>dr_error = (\<lambda>c x. if stores c x then None else Some (Exn InvalidArgumentException ''Invalid value type'')),
      dr_items = (\<lambda>x. case x of V_Items xs \<Rightarrow> xs | _ \<Rightarrow> []),
      dr_pairs = (\<lambda>x. case x of V_Items xs \<Rightarrow> pair_up xs | _ \<Rightarrow> []),
      dr_tuple = (\<lambda>n x. map (\<lambda>i. case x of V_Tuple es \<Rightarrow> case_option V_Null id (map_of es i) | _ \<Rightarrow> V_Null) [0..<n]),
      dr_fields = (\<lambda>ns x. map (\<lambda>s. (s, case x of V_User_type es \<Rightarrow> case_option V_Null id (map_of es s) | _ \<Rightarrow> V_Null)) ns)\<rparr>"

lemma pair_up_concat: "pair_up (concat (map (\<lambda>p. [fst p, snd p]) ps)) = ps"
  by (induction ps) auto

lemma driver_ref_spec: "driver_spec driver_ref"
  by (simp add: driver_spec_def driver_ref_def pair_up_concat)

section \<open>Values that can be stored\<close>

definition no_nul :: "zval \<Rightarrow> bool" where
  "no_nul v = (case v of ZString s \<Rightarrow> CHR 0x00 \<notin> set s | _ \<Rightarrow> True)"

text \<open>A scalar of its type, with the numbers in the range of the driver's function.\<close>

definition scalar_ok :: "php_env \<Rightarrow> cass_value_type \<Rightarrow> zval \<Rightarrow> bool" where
  "scalar_ok E c v \<longleftrightarrow>
     scalar_name c \<noteq> None \<and> v \<noteq> ZNull \<and> (\<forall>cls. v \<noteq> ZObject cls) \<and> accepted E (T_Scalar c) v \<and>
     (case v of
        ZLong n \<Rightarrow> fits_s 32 n
      | ZNumeric (N_Varint n) \<Rightarrow> \<not> export_loses n \<and> mpz_sizeinbase (gmp_lib E) n 2 < 2 ^ 64
      | ZNumeric (N_Decimal n s) \<Rightarrow> \<not> export_loses n \<and> mpz_sizeinbase (gmp_lib E) n 2 < 2 ^ 64 \<and> fits_s 32 s
      | _ \<Rightarrow> True)"

definition distinct_keys :: "php_env \<Rightarrow> zval list \<Rightarrow> bool" where
  "distinct_keys E vs \<longleftrightarrow> sorted_wrt (\<lambda>a b. php_scylladb_value_compare E a b \<noteq> 0) vs"

inductive storable :: "php_env \<Rightarrow> cass_type \<Rightarrow> zval \<Rightarrow> bool" for E where
  scalar: "scalar_ok E c v \<Longrightarrow> storable E (T_Scalar c) v"
| list: "(\<And>v. v \<in> set vs \<Longrightarrow> storable E u v) \<Longrightarrow> storable E (T_List u) (ZCollection (T_List u) vs)"
| set: "(\<And>v. v \<in> set vs \<Longrightarrow> scalar_ok E c v \<and> keyable v) \<Longrightarrow> distinct_keys E vs \<Longrightarrow>
    storable E (T_Set (T_Scalar c)) (ZSet (T_Set (T_Scalar c)) n vs)"
| map: "(\<And>k v. (k, v) \<in> set kvs \<Longrightarrow> scalar_ok E c k \<and> keyable k \<and> accepted E u v \<and> storable E u v) \<Longrightarrow> distinct_keys E (map fst kvs) \<Longrightarrow>
    storable E (T_Map (T_Scalar c) u) (ZMap (T_Map (T_Scalar c) u) n kvs)"
| tuple: "distinct (map fst es) \<Longrightarrow>
    (\<And>i v. (i, v) \<in> set es \<Longrightarrow> i < length ts \<and> (v = ZNull \<or> accepted E (ts ! i) v \<and> storable E (ts ! i) v)) \<Longrightarrow>
    storable E (T_Tuple ts) (ZTuple (T_Tuple ts) es)"
| user_type: "distinct (map fst fs) \<Longrightarrow> distinct (map fst es) \<Longrightarrow> (\<And>s. s \<in> fst ` set fs \<Longrightarrow> CHR 0x00 \<notin> set s) \<Longrightarrow>
    (\<And>s v. (s, v) \<in> set es \<Longrightarrow> \<exists>u. map_of fs s = Some u \<and> (v = ZNull \<or> no_nul v \<and> accepted E u v \<and> storable E u v)) \<Longrightarrow>
    storable E (T_Udt ks name fs) (ZUserType (T_Udt ks name fs) es)"

text \<open>
  The same value: equal up to the number of buckets of tables and the order in which items and fields
  were set; an item that is null is the same as one that is not set.
\<close>

definition set_item :: "('k \<times> zval) list \<Rightarrow> 'k \<Rightarrow> zval option" where
  "set_item es k = (case map_of es k of Some ZNull \<Rightarrow> None | r \<Rightarrow> r)"

inductive same :: "zval \<Rightarrow> zval \<Rightarrow> bool" where
  scalar: "same v v"
| list: "list_all2 same vs ws \<Longrightarrow> same (ZCollection t vs) (ZCollection t ws)"
| set: "same (ZSet t n vs) (ZSet t m vs)"
| map: "map fst kvs = map fst kws \<Longrightarrow> list_all2 same (map snd kvs) (map snd kws) \<Longrightarrow> same (ZMap t n kvs) (ZMap t m kws)"
| tuple: "(\<And>i. rel_option same (set_item es i) (set_item es' i)) \<Longrightarrow> same (ZTuple t es) (ZTuple t es')"
| user_type: "(\<And>s. rel_option same (set_item fs s) (set_item fs' s)) \<Longrightarrow> same (ZUserType t fs) (ZUserType t fs')"
  monos option.rel_mono

section \<open>The round trip\<close>

lemma takeWhile_nul: "CHR 0x00 \<notin> set s \<Longrightarrow> c_string s = s"
  by (auto simp: c_string_def takeWhile_eq_all_conv)

lemma sink_text_id: "k \<noteq> In_user_type \<or> CHR 0x00 \<notin> set s \<Longrightarrow> sink_text k s = s"
  by (auto simp: sink_text_def takeWhile_nul)

lemmas accept_defs = accepted_def php_scylladb_validate_object_def accept_def instance_of_def is_object_def accept_container_def
  container_defs

text \<open>Handing over a scalar and reading it back.\<close>

definition scalar_trip :: "php_env \<Rightarrow> sink \<Rightarrow> cass_value_type \<Rightarrow> zval \<Rightarrow> bool" where
  "scalar_trip E k c v \<longleftrightarrow> (\<exists>x. scalar_element E k v c = Ret x \<and> x \<noteq> V_Null \<and> stores c x \<and> decode_scalar E c x = Ret v)"

lemma accepted_scalars:
  "accepted E (T_Scalar c) ZTrue \<longleftrightarrow> c = CASS_VALUE_TYPE_BOOLEAN"
  "accepted E (T_Scalar c) ZFalse \<longleftrightarrow> c = CASS_VALUE_TYPE_BOOLEAN"
  "accepted E (T_Scalar c) (ZLong n) \<longleftrightarrow> c = CASS_VALUE_TYPE_INT"
  "accepted E (T_Scalar c) (ZDouble d) \<longleftrightarrow> c = CASS_VALUE_TYPE_DOUBLE"
  "accepted E (T_Scalar c) (ZString s) \<longleftrightarrow> c \<in> {CASS_VALUE_TYPE_TEXT, CASS_VALUE_TYPE_ASCII, CASS_VALUE_TYPE_VARCHAR}"
  "\<not> accepted E (T_Scalar c) (ZArray es)"
  by (cases c; simp add: accept_defs; fail)+

lemma accepted_type: "\<not> accepted E (T_Scalar c) (ZType t)"
  by (cases t; cases c; simp add: accept_defs)

lemma accepted_objects:
  "accepted E (T_Scalar c) (ZBlob b) \<longleftrightarrow> c = CASS_VALUE_TYPE_BLOB"
  "accepted E (T_Scalar c) (ZInet b) \<longleftrightarrow> c = CASS_VALUE_TYPE_INET"
  "accepted E (T_Scalar c) (ZDuration mo da na) \<longleftrightarrow> c = CASS_VALUE_TYPE_DURATION"
  "accepted E (T_Scalar c) (ZUuid timeuuid hi lo) \<longleftrightarrow> c = (if timeuuid then CASS_VALUE_TYPE_TIMEUUID else CASS_VALUE_TYPE_UUID)"
  "accepted E (T_Scalar c) (ZTimestamp n) \<longleftrightarrow> c = CASS_VALUE_TYPE_TIMESTAMP"
  "accepted E (T_Scalar c) (ZDate n) \<longleftrightarrow> c = CASS_VALUE_TYPE_DATE"
  "accepted E (T_Scalar c) (ZTime n) \<longleftrightarrow> c = CASS_VALUE_TYPE_TIME"
  by (cases c; simp add: accept_defs; fail)+

lemma accepted_numeric:
  "accepted E (T_Scalar c) (ZNumeric (N_Bigint n)) \<longleftrightarrow> c \<in> {CASS_VALUE_TYPE_BIGINT, CASS_VALUE_TYPE_COUNTER}"
  "accepted E (T_Scalar c) (ZNumeric (N_Decimal n s)) \<longleftrightarrow> c = CASS_VALUE_TYPE_DECIMAL"
  "accepted E (T_Scalar c) (ZNumeric (N_Float f)) \<longleftrightarrow> c = CASS_VALUE_TYPE_FLOAT"
  "accepted E (T_Scalar c) (ZNumeric (N_Varint n)) \<longleftrightarrow> c = CASS_VALUE_TYPE_VARINT"
  "accepted E (T_Scalar c) (ZNumeric (N_Smallint n)) \<longleftrightarrow> c = CASS_VALUE_TYPE_SMALL_INT"
  "accepted E (T_Scalar c) (ZNumeric (N_Tinyint n)) \<longleftrightarrow> c = CASS_VALUE_TYPE_TINY_INT"
  by (cases c; simp add: accept_defs; fail)+

lemma scalar_code:
  "scalar_name c \<noteq> None \<Longrightarrow>
     c \<notin> {CASS_VALUE_TYPE_LIST, CASS_VALUE_TYPE_SET, CASS_VALUE_TYPE_MAP, CASS_VALUE_TYPE_TUPLE, CASS_VALUE_TYPE_UDT, CASS_VALUE_TYPE_CUSTOM}"
  by (auto simp: scalar_name_def scalar_types_map_def)

lemma accepted_containers:
  assumes "scalar_name c \<noteq> None"
  shows "\<not> accepted E (T_Scalar c) (ZCollection t vs)" "\<not> accepted E (T_Scalar c) (ZSet t n vs)" "\<not> accepted E (T_Scalar c) (ZMap t n kvs)"
    "\<not> accepted E (T_Scalar c) (ZTuple t es)" "\<not> accepted E (T_Scalar c) (ZUserType t fs)"
  using scalar_code [OF assms] by (cases c; simp add: accept_defs; fail)+

lemmas accepted_simps = accepted_type accepted_scalars accepted_objects accepted_numeric accepted_containers

lemma scalar_ok_trip:
  assumes G: "gmp_spec (gmp_lib E)" and v: "scalar_ok E c v" and k: "k \<noteq> In_user_type \<or> no_nul v"
  shows "scalar_trip E k c v"
proof -
  have c: "scalar_name c \<noteq> None" "accepted E (T_Scalar c) v" "v \<noteq> ZNull" "\<And>cls. v \<noteq> ZObject cls"
    using v by (simp_all add: scalar_ok_def)
  show ?thesis
  proof (cases v)
    case (ZNumeric n)
    have "import_twos_complement (gmp_lib E) (export_twos_complement (gmp_lib E) m) = Ret m" if "n = N_Varint m \<or> (\<exists>s. n = N_Decimal m s)" for m
      using v that ZNumeric twos_complement_iff [OF G, of m] by (auto simp: scalar_ok_def)
    moreover have "n = N_Decimal m s \<Longrightarrow> cast_s 32 s = s" for m s using v ZNumeric by (simp add: scalar_ok_def cast_s_id)
    ultimately show ?thesis
      using c ZNumeric by (cases n) (auto simp: accepted_simps scalar_trip_def scalar_element_def decode_scalar_def stores_def)
  next
    case (ZLong m)
    then have "cast_s 32 m = m" using v by (simp add: scalar_ok_def cast_s_id)
    then show ?thesis using c ZLong by (simp add: accepted_simps scalar_trip_def scalar_element_def decode_scalar_def stores_def)
  next
    case (ZString s)
    then have "sink_text k s = s" using k by (simp add: sink_text_id no_nul_def)
    then show ?thesis using c ZString by (auto simp: accepted_simps scalar_trip_def scalar_element_def decode_scalar_def stores_def)
  next
    case (ZUuid tm hi lo)
    then show ?thesis using c by (cases tm) (simp_all add: accepted_simps scalar_trip_def scalar_element_def decode_scalar_def stores_def)
  qed (use c accepted_containers [OF c(1)] in \<open>simp_all add: accepted_type accepted_scalars accepted_objects scalar_trip_def scalar_element_def decode_scalar_def stores_def\<close>)
qed

lemma conv_all_ok:
  assumes "\<And>x. x \<in> set xs \<Longrightarrow> \<exists>y. f x = Ret (Some y) \<and> P x y"
  shows "\<exists>ys. conv_all f xs = Ret (Some ys) \<and> list_all2 P xs ys"
  using assms
proof (induction xs)
  case (Cons x xs)
  obtain y where "f x = Ret (Some y)" "P x y" using Cons.prems by (meson list.set_intros(1))
  moreover obtain ys where "conv_all f xs = Ret (Some ys)" "list_all2 P xs ys" using Cons by (meson list.set_intros(2))
  ultimately show ?case by (auto simp: bind_conv_def)
qed simp

lemma same_accepted: "same v w \<Longrightarrow> accepted E t v = accepted E t w"
  by (erule same.cases; cases "type_of t"; simp add: accept_defs)

lemma same_null: "same v w \<Longrightarrow> v = ZNull \<longleftrightarrow> w = ZNull"
  by (erule same.cases) auto

text \<open>The loops of the decoder, when every element decodes.\<close>

lemma decode_list_ok:
  "list_all2 (\<lambda>x v. f x = Ret v) xs vs \<Longrightarrow> decode_list f xs c = Ret (add_all vs c)"
  by (induction xs vs arbitrary: c rule: list_all2_induct) auto

lemma assoc_put_new: "(\<And>e. e \<in> set es \<Longrightarrow> cmp (fst e) k \<noteq> 0) \<Longrightarrow> assoc_put cmp k v es = es @ [(k, v)]"
  by (auto simp: assoc_put_def list_ex_iff)

lemma add_zval_dom: "dom (snd (add_zval E T a k v)) = insert a (dom (snd T))"
  by (auto simp: add_zval_def table_insert_def Let_def)

lemma put_zval_dom: "dom (snd (put_zval E T a k v)) \<subseteq> insert a (dom (snd T))"
  by (auto simp: put_zval_def add_zval_def table_insert_def table_update_def Let_def split: option.splits)

lemma decode_set_ok:
  assumes E: "value_env E" and "list_all2 (\<lambda>x v. f x = Ret v) xs vs"
    and "keys_ok E (set_entries s)" and "dom (snd (set_entries s)) \<subseteq> {..<i}"
    and "\<And>v. v \<in> set vs \<Longrightarrow> v \<noteq> ZNull \<and> keyable v \<and> accepted E (set_value_type s) v"
    and "distinct_keys E (map fst (table_entries (set_entries s)) @ vs)"
  shows "\<exists>s'. decode_set E f i xs s = Ret s' \<and> set_type s' = set_type s \<and>
    map fst (table_entries (set_entries s')) = map fst (table_entries (set_entries s)) @ vs"
  using assms(2-)
proof (induction xs vs arbitrary: s i rule: list_all2_induct)
  case (Cons x xs v vs)
  let ?T = "set_entries s"
  have new: "\<And>e. e \<in> set (table_entries ?T) \<Longrightarrow> php_scylladb_value_compare E (fst e) v \<noteq> 0"
    using Cons.prems(4) by (auto simp: distinct_keys_def sorted_wrt_append)
  have v: "v \<noteq> ZNull" "keyable v" "accepted E (set_value_type s) v" using Cons.prems(3) by simp_all
  have none: "find_zval E ?T v = None"
    using value_env.find_zval_assoc [OF E Cons.prems(1) v(2)] new by (auto simp: assoc_find_def find_None_iff)
  have fresh: "snd ?T i = None" using Cons.prems(2) by auto
  note add = value_env.add_zval_ok [OF E Cons.prems(1) v(2) fresh none, of "()"]
  let ?s = "s\<lparr>set_dirty := True, set_entries := add_zval E ?T i v ()\<rparr>"
  have ent: "table_entries (set_entries ?s) = table_entries ?T @ [(v, ())]" using add(2) assoc_put_new [where cmp = "php_scylladb_value_compare E", OF new] by simp
  have "php_scylladb_set_add E i s v = (Ret True, ?s)"
    using v none by (simp add: php_scylladb_set_add_def check_then_def accepted_def)
  then have run: "decode_set E f i (x # xs) s = decode_set E f (Suc i) xs ?s" using Cons.hyps(1) by (simp add: surface_def)
  have "\<exists>s'. decode_set E f (Suc i) xs ?s = Ret s' \<and> set_type s' = set_type ?s \<and>
      map fst (table_entries (set_entries s')) = map fst (table_entries (set_entries ?s)) @ vs"
  proof (rule Cons.IH)
    show "keys_ok E (set_entries ?s)" using add(1) by simp
    show "dom (snd (set_entries ?s)) \<subseteq> {..<Suc i}" using Cons.prems(2) by (auto simp: add_zval_dom)
    show "w \<noteq> ZNull \<and> keyable w \<and> accepted E (set_value_type ?s) w" if "w \<in> set vs" for w
      using Cons.prems(3) that by (simp add: set_value_type_def)
    show "distinct_keys E (map fst (table_entries (set_entries ?s)) @ vs)" unfolding ent using Cons.prems(4) by simp
  qed
  then show ?case unfolding run ent by simp
qed simp

lemma decode_map_ok:
  assumes E: "value_env E" and "list_all2 (\<lambda>p e. f (fst p) = Ret (fst e) \<and> g (snd p) = Ret (snd e)) xs kvs"
    and "keys_ok E (map_entries m)" and "dom (snd (map_entries m)) \<subseteq> {..<i}"
    and "\<And>e. e \<in> set kvs \<Longrightarrow> fst e \<noteq> ZNull \<and> snd e \<noteq> ZNull \<and> keyable (fst e) \<and> accepted E (map_key_type m) (fst e) \<and> accepted E (map_value_type m) (snd e)"
    and "distinct_keys E (map fst (table_entries (map_entries m) @ kvs))"
  shows "\<exists>m'. decode_map E f g i xs m = Ret m' \<and> map_type m' = map_type m \<and> table_entries (map_entries m') = table_entries (map_entries m) @ kvs"
  using assms(2-)
proof (induction xs kvs arbitrary: m i rule: list_all2_induct)
  case (Cons p xs e kvs)
  let ?T = "map_entries m" and ?k = "fst e" and ?v = "snd e"
  have new: "\<And>d. d \<in> set (table_entries ?T) \<Longrightarrow> php_scylladb_value_compare E (fst d) ?k \<noteq> 0"
    using Cons.prems(4) by (auto simp: distinct_keys_def sorted_wrt_append)
  have e: "?k \<noteq> ZNull" "?v \<noteq> ZNull" "keyable ?k" "accepted E (map_key_type m) ?k" "accepted E (map_value_type m) ?v" using Cons.prems(3) by simp_all
  have fresh: "snd ?T i = None" using Cons.prems(2) by auto
  note put = value_env.put_zval_ok [OF E Cons.prems(1) e(3) fresh, of ?v]
  let ?m = "m\<lparr>map_dirty := True, map_entries := put_zval E ?T i ?k ?v\<rparr>"
  have ent: "table_entries (map_entries ?m) = table_entries ?T @ [e]" using put(2) assoc_put_new [where cmp = "php_scylladb_value_compare E", OF new] by simp
  have "php_scylladb_map_set E i m ?k ?v = (Ret True, ?m)"
    using e by (simp add: php_scylladb_map_set_def check_then_def accepted_def)
  then have run: "decode_map E f g i (p # xs) m = decode_map E f g (Suc i) xs ?m" using Cons.hyps(1) by (cases p) (simp add: surface_def)
  have "\<exists>m'. decode_map E f g (Suc i) xs ?m = Ret m' \<and> map_type m' = map_type ?m \<and>
      table_entries (map_entries m') = table_entries (map_entries ?m) @ kvs"
  proof (rule Cons.IH)
    show "keys_ok E (map_entries ?m)" using put(1) by simp
    show "dom (snd (map_entries ?m)) \<subseteq> {..<Suc i}" using Cons.prems(2) by (auto dest!: subsetD [OF put_zval_dom, OF domI])
    show "fst d \<noteq> ZNull \<and> snd d \<noteq> ZNull \<and> keyable (fst d) \<and> accepted E (map_key_type ?m) (fst d) \<and> accepted E (map_value_type ?m) (snd d)" if "d \<in> set kvs" for d
      using Cons.prems(3) that by (simp add: map_key_type_def map_value_type_def)
    show "distinct_keys E (map fst (table_entries (map_entries ?m) @ kvs))" unfolding ent using Cons.prems(4) by simp
  qed
  then show ?case unfolding run ent by simp
qed simp

lemma decode_tuple_ok:
  assumes "\<And>p. p \<in> set ps \<Longrightarrow> snd p \<noteq> V_Null \<Longrightarrow> f p = Ret (h p)"
  shows "\<exists>t'. decode_tuple f i ps t = Ret t' \<and> tup_type t' = tup_type t \<and>
    (\<forall>j. zend_hash_find (tup_values t') j =
      (if i \<le> j \<and> j < i + length ps \<and> snd (ps ! (j - i)) \<noteq> V_Null then Some (h (ps ! (j - i))) else zend_hash_find (tup_values t) j))"
  using assms
proof (induction ps arbitrary: i t)
  case (Cons p ps)
  let ?t = "if snd p = V_Null then t else php_scylladb_tuple_set t i (h p)"
  have run: "decode_tuple f i (p # ps) t = decode_tuple f (Suc i) ps ?t" using Cons.prems [of p] by simp
  have "\<And>p. p \<in> set ps \<Longrightarrow> snd p \<noteq> V_Null \<Longrightarrow> f p = Ret (h p)" using Cons.prems by simp
  then obtain t' where t': "decode_tuple f (Suc i) ps ?t = Ret t'" "tup_type t' = tup_type ?t"
      "\<forall>j. zend_hash_find (tup_values t') j =
        (if Suc i \<le> j \<and> j < Suc i + length ps \<and> snd (ps ! (j - Suc i)) \<noteq> V_Null then Some (h (ps ! (j - Suc i))) else zend_hash_find (tup_values ?t) j)"
    using Cons.IH [where i = "Suc i" and t = ?t] by blast
  have ty: "tup_type ?t = tup_type t" by (simp add: php_scylladb_tuple_set_def)
  have lk: "zend_hash_find (tup_values ?t) j = (if j = i \<and> snd p \<noteq> V_Null then Some (h p) else zend_hash_find (tup_values t) j)" for j
    using tuple_keys.look_put [of t i "h p" j] by auto
  have "zend_hash_find (tup_values t') j =
      (if i \<le> j \<and> j < i + length (p # ps) \<and> snd ((p # ps) ! (j - i)) \<noteq> V_Null then Some (h ((p # ps) ! (j - i))) else zend_hash_find (tup_values t) j)" for j
    unfolding t'(3) [rule_format] lk by (auto simp: nth_Cons' Suc_le_eq)
  then show ?case using t'(1,2) run ty by simp
qed auto

lemma decode_user_type_ok:
  assumes "\<And>n p. (n, p) \<in> set ps \<Longrightarrow> snd p \<noteq> V_Null \<Longrightarrow> f p = Ret (h p)" and "distinct (map fst ps)"
  shows "\<exists>u'. decode_user_type f ps u = Ret u' \<and> udt_type u' = udt_type u \<and>
    (\<forall>s. zend_hash_find (udt_values u') s =
      (case map_of ps s of Some p \<Rightarrow> if snd p \<noteq> V_Null then Some (h p) else zend_hash_find (udt_values u) s | None \<Rightarrow> zend_hash_find (udt_values u) s))"
  using assms
proof (induction ps arbitrary: u)
  case (Cons q ps)
  obtain n p where q: "q = (n, p)" by (cases q)
  let ?u = "if snd p = V_Null then u else php_scylladb_user_type_value_set u n (h p)"
  have run: "decode_user_type f (q # ps) u = decode_user_type f ps ?u" using Cons.prems(1) [of n p] by (simp add: q)
  have "distinct (map fst ps)" using Cons.prems(2) by simp
  moreover have "\<And>n p. (n, p) \<in> set ps \<Longrightarrow> snd p \<noteq> V_Null \<Longrightarrow> f p = Ret (h p)" using Cons.prems(1) by (metis list.set_intros(2))
  ultimately obtain u' where u': "decode_user_type f ps ?u = Ret u'" "udt_type u' = udt_type ?u"
      "\<forall>s. zend_hash_find (udt_values u') s =
        (case map_of ps s of Some p \<Rightarrow> if snd p \<noteq> V_Null then Some (h p) else zend_hash_find (udt_values ?u) s | None \<Rightarrow> zend_hash_find (udt_values ?u) s)"
    using Cons.IH [where u = ?u] by blast
  have ty: "udt_type ?u = udt_type u" by (simp add: php_scylladb_user_type_value_set_def)
  have lk: "zend_hash_find (udt_values ?u) s = (if s = n \<and> snd p \<noteq> V_Null then Some (h p) else zend_hash_find (udt_values u) s)" for s
    using udt_keys.look_put [of u n "h p" s] by auto
  have "map_of ps n = None" using Cons.prems(2) by (simp add: q map_of_eq_None_iff)
  then have "zend_hash_find (udt_values u') s =
      (case map_of (q # ps) s of Some p \<Rightarrow> if snd p \<noteq> V_Null then Some (h p) else zend_hash_find (udt_values u) s | None \<Rightarrow> zend_hash_find (udt_values u) s)" for s
    unfolding u'(3) [rule_format] lk by (auto simp: q split: option.splits)
  then show ?case using u'(1,2) run ty by simp
qed simp

lemma list_all2_split:
  "list_all2 (\<lambda>x y. \<exists>z. Q y z \<and> R x z) xs ys \<Longrightarrow> \<exists>zs. list_all2 Q ys zs \<and> list_all2 R xs zs"
proof (induction rule: list_all2_induct)
  case (Cons x xs y ys)
  then obtain z zs where "Q y z" "R x z" "list_all2 Q ys zs" "list_all2 R xs zs" by blast
  then show ?case by (intro exI [of _ "z # zs"]) simp
qed simp

text \<open>A value handed over as an element of a type, and read back as the same value.\<close>

definition trip :: "php_env \<Rightarrow> driver \<Rightarrow> sink \<Rightarrow> cass_type \<Rightarrow> zval \<Rightarrow> cval \<Rightarrow> zval \<Rightarrow> bool" where
  "trip E D k t v x w \<longleftrightarrow> element E D k v (type_of t) = Ret (Some x) \<and> x \<noteq> V_Null \<and> php_scylladb_value E D t x = Ret w \<and> same v w"

lemma tripD:
  assumes "trip E D k t v x w"
  shows "element E D k v (type_of t) = Ret (Some x)" "x \<noteq> V_Null" "php_scylladb_value E D t x = Ret w" "same v w"
  using assms by (simp_all add: trip_def)

context value_env
begin

lemma trip_scalar:
  assumes D: "driver_spec D" and v: "scalar_ok E c v" and k: "k \<noteq> In_user_type \<or> no_nul v"
  shows "\<exists>x. trip E D k (T_Scalar c) v x v"
proof -
  have c: "scalar_name c \<noteq> None" "v \<noteq> ZNull" using v by (simp_all add: scalar_ok_def)
  obtain x where "scalar_element E k v c = Ret x" "x \<noteq> V_Null" "stores c x" "decode_scalar E c x = Ret v"
    using scalar_ok_trip [OF env_gmp v k] by (auto simp: scalar_trip_def)
  then show ?thesis
    using c(2) scalar_code [OF c(1)] driver_specD(1) [OF D]
    by (intro exI [of _ x]) (simp add: trip_def element.simps php_scylladb_value.simps same.scalar bind_conv_def)
qed

lemma trip_list:
  assumes D: "driver_spec D" and vs: "\<And>v. v \<in> set vs \<Longrightarrow> \<exists>x w. trip E D In_collection u v x w"
  shows "\<exists>x w. trip E D k (T_List u) (ZCollection (T_List u) vs) x w"
proof -
  obtain xs where xs: "conv_all (\<lambda>v. element E D In_collection v (type_of u)) vs = Ret (Some xs)"
      "list_all2 (\<lambda>v x. \<exists>w. php_scylladb_value E D u x = Ret w \<and> same v w) vs xs"
    using conv_all_ok [where xs = vs and f = "\<lambda>v. element E D In_collection v (type_of u)"
      and P = "\<lambda>v x. \<exists>w. php_scylladb_value E D u x = Ret w \<and> same v w"] vs tripD by meson
  obtain ws where ws: "list_all2 (\<lambda>x w. php_scylladb_value E D u x = Ret w) xs ws" "list_all2 same vs ws"
    using list_all2_split [OF xs(2)] by blast
  have "element E D k (ZCollection (T_List u) vs) CASS_VALUE_TYPE_LIST = Ret (Some (V_Items xs))"
    using xs(1) driver_specD(1) [OF D]
    by (simp add: element.simps [of E D k] container_defs collection_from_collection_def bind_conv_def stores_def)
  moreover have "php_scylladb_value E D (T_List u) (V_Items xs) = Ret (ZCollection (T_List u) ws)"
    by (simp add: php_scylladb_value.simps [of E D "T_List u"] driver_specD(2) [OF D] decode_list_ok [OF ws(1)]
        collection_zval_def add_all_result php_scylladb_collection_new_def zend_hash_init_def)
  ultimately show ?thesis using ws(2) unfolding trip_def by (intro exI) (auto intro: same.list)
qed

lemma trip_set:
  assumes D: "driver_spec D" and vs: "\<And>v. v \<in> set vs \<Longrightarrow> scalar_ok E c v \<and> keyable v" and dist: "distinct_keys E vs"
  shows "\<exists>x w. trip E D k (T_Set (T_Scalar c)) (ZSet (T_Set (T_Scalar c)) n vs) x w"
proof -
  let ?t = "T_Set (T_Scalar c)"
  obtain xs where xs: "conv_all (\<lambda>v. element E D In_collection v (type_of (T_Scalar c))) vs = Ret (Some xs)"
      "list_all2 (\<lambda>v x. php_scylladb_value E D (T_Scalar c) x = Ret v) vs xs"
    using conv_all_ok [where xs = vs and f = "\<lambda>v. element E D In_collection v (type_of (T_Scalar c))"
      and P = "\<lambda>v x. php_scylladb_value E D (T_Scalar c) x = Ret v"] vs trip_scalar [OF D] tripD sink.distinct(3) by meson
  have "element E D k (ZSet ?t n vs) CASS_VALUE_TYPE_SET = Ret (Some (V_Items xs))"
    using xs(1) driver_specD(1) [OF D]
    by (simp add: element.simps [of E D k] container_defs collection_from_set_def bind_conv_def stores_def)
  moreover have "\<exists>s. decode_set E (php_scylladb_value E D (T_Scalar c)) 0 xs (php_scylladb_set_new ?t) = Ret s \<and>
      set_type s = set_type (php_scylladb_set_new ?t) \<and>
      map fst (table_entries (set_entries s)) = map fst (table_entries (set_entries (php_scylladb_set_new ?t))) @ vs"
  proof (rule decode_set_ok [OF value_env_axioms])
    show "list_all2 (\<lambda>x v. php_scylladb_value E D (T_Scalar c) x = Ret v) xs vs" using xs(2) by (simp add: list_all2_conv_all_nth)
    show "v \<noteq> ZNull \<and> keyable v \<and> accepted E (set_value_type (php_scylladb_set_new ?t)) v" if "v \<in> set vs" for v
      using vs [OF that] by (simp add: scalar_ok_def set_value_type_def php_scylladb_set_new_def)
  qed (simp_all add: php_scylladb_set_new_def value_keys.empty_ok dist, simp_all add: table_empty_def)
  ultimately show ?thesis
    by (auto simp: trip_def php_scylladb_value.simps [of E D ?t] driver_specD(2) [OF D] set_zval_def php_scylladb_set_new_def intro: same.set)
qed

end

lemma list_all2_right: "list_all2 P xs ys \<Longrightarrow> y \<in> set ys \<Longrightarrow> \<exists>x \<in> set xs. P x y"
  by (induction rule: list_all2_induct) auto

context value_env
begin

lemma trip_pairs:
  assumes D: "driver_spec D"
    and "\<And>e. e \<in> set kvs \<Longrightarrow> scalar_ok E c (fst e) \<and> (\<exists>x w. trip E D In_collection u (snd e) x w)"
  shows "\<exists>ps kws. conv_all (\<lambda>e. bind_conv (element E D In_collection (fst e) c)
        (\<lambda>x. bind_conv (element E D In_collection (snd e) (type_of u)) (\<lambda>y. Ret (Some [x, y])))) kvs = Ret (Some (map (\<lambda>p. [fst p, snd p]) ps)) \<and>
      list_all2 (\<lambda>p q. php_scylladb_value E D (T_Scalar c) (fst p) = Ret (fst q) \<and> php_scylladb_value E D u (snd p) = Ret (snd q)) ps kws \<and>
      list_all2 (\<lambda>e q. fst e = fst q \<and> same (snd e) (snd q)) kvs kws"
  using assms(2)
proof (induction kvs)
  case (Cons e kvs)
  obtain x y w where xy: "trip E D In_collection (T_Scalar c) (fst e) x (fst e)" "trip E D In_collection u (snd e) y w"
    using Cons.prems [of e] trip_scalar [OF D, of c "fst e" In_collection] by auto
  obtain ps kws where *: "conv_all (\<lambda>e. bind_conv (element E D In_collection (fst e) c)
        (\<lambda>x. bind_conv (element E D In_collection (snd e) (type_of u)) (\<lambda>y. Ret (Some [x, y])))) kvs = Ret (Some (map (\<lambda>p. [fst p, snd p]) ps))"
      "list_all2 (\<lambda>p q. php_scylladb_value E D (T_Scalar c) (fst p) = Ret (fst q) \<and> php_scylladb_value E D u (snd p) = Ret (snd q)) ps kws"
      "list_all2 (\<lambda>e q. fst e = fst q \<and> same (snd e) (snd q)) kvs kws"
    using Cons.IH Cons.prems by auto
  show ?case
    by (intro exI [of _ "(x, y) # ps"] exI [of _ "(fst e, w) # kws"]) (use xy * in \<open>auto simp: trip_def bind_conv_def\<close>)
qed auto

lemma trip_map:
  assumes D: "driver_spec D" and dist: "distinct_keys E (map fst kvs)"
    and kvs: "\<And>e. e \<in> set kvs \<Longrightarrow> scalar_ok E c (fst e) \<and> keyable (fst e) \<and> accepted E u (snd e) \<and> snd e \<noteq> ZNull \<and>
      (\<exists>x w. trip E D In_collection u (snd e) x w)"
  shows "\<exists>x w. trip E D k (T_Map (T_Scalar c) u) (ZMap (T_Map (T_Scalar c) u) n kvs) x w"
proof -
  let ?t = "T_Map (T_Scalar c) u"
  obtain ps kws where cs: "conv_all (\<lambda>e. bind_conv (element E D In_collection (fst e) c)
        (\<lambda>x. bind_conv (element E D In_collection (snd e) (type_of u)) (\<lambda>y. Ret (Some [x, y])))) kvs = Ret (Some (map (\<lambda>p. [fst p, snd p]) ps))"
    and ps: "list_all2 (\<lambda>p q. php_scylladb_value E D (T_Scalar c) (fst p) = Ret (fst q) \<and> php_scylladb_value E D u (snd p) = Ret (snd q)) ps kws"
    and kws: "list_all2 (\<lambda>e q. fst e = fst q \<and> same (snd e) (snd q)) kvs kws"
    using trip_pairs [OF D, of kvs c u] kvs by blast
  have keys: "map fst kws = map fst kvs" and vals: "list_all2 same (map snd kvs) (map snd kws)"
    using kws by (auto simp: list_all2_conv_all_nth intro!: nth_equalityI)
  let ?x = "V_Items (concat (map (\<lambda>p. [fst p, snd p]) ps))"
  have "collection_from_map (element E D In_collection) ?t kvs = Ret (Some ?x)"
    by (simp add: collection_from_map_def cs bind_conv_def [of "Ret _"])
  then have "element E D k (ZMap ?t n kvs) CASS_VALUE_TYPE_MAP = Ret (Some ?x)"
    using driver_specD(1) [OF D, of CASS_VALUE_TYPE_MAP ?x]
    by (simp add: element.simps [of E D k] map_of_zval_def bind_conv_def stores_def)
  moreover have "\<exists>m. decode_map E (php_scylladb_value E D (T_Scalar c)) (php_scylladb_value E D u) 0 ps (php_scylladb_map_new ?t) = Ret m \<and>
      map_type m = map_type (php_scylladb_map_new ?t) \<and> table_entries (map_entries m) = table_entries (map_entries (php_scylladb_map_new ?t)) @ kws"
  proof (rule decode_map_ok [OF value_env_axioms])
    show "list_all2 (\<lambda>p q. php_scylladb_value E D (T_Scalar c) (fst p) = Ret (fst q) \<and> php_scylladb_value E D u (snd p) = Ret (snd q)) ps kws" by (rule ps)
    show "fst q \<noteq> ZNull \<and> snd q \<noteq> ZNull \<and> keyable (fst q) \<and> accepted E (map_key_type (php_scylladb_map_new ?t)) (fst q) \<and>
        accepted E (map_value_type (php_scylladb_map_new ?t)) (snd q)" if q: "q \<in> set kws" for q
    proof -
      obtain e where e: "e \<in> set kvs" "fst e = fst q" "same (snd e) (snd q)"
        using list_all2_right [OF kws q] by blast
      then show ?thesis using kvs [OF e(1)] same_accepted [OF e(3), of E u] same_null [OF e(3)]
        by (simp add: map_key_type_def map_value_type_def php_scylladb_map_new_def scalar_ok_def)
    qed
  qed (simp_all add: php_scylladb_map_new_def value_keys.empty_ok dist keys, simp_all add: table_empty_def dist keys)
  ultimately show ?thesis
    using keys vals
    by (auto simp: trip_def php_scylladb_value.simps [of E D ?t] driver_specD(3) [OF D] map_zval_def php_scylladb_map_new_def intro!: same.map)
qed

end

text \<open>The items of a tuple and the fields of a user type, set one after the other and read by key.\<close>

lemma checked_item_null: "checked_item E f (Some u) ZNull = f ZNull (type_of u)"
  by (simp add: checked_item_def php_scylladb_validate_object_def)

lemma checked_item_ok: "accepted E u v \<Longrightarrow> checked_item E f (Some u) v = f v (type_of u)"
  by (simp add: checked_item_def accepted_def)

lemma element_null: "driver_spec D \<Longrightarrow> k \<noteq> In_collection \<Longrightarrow> element E D k ZNull c = Ret (Some V_Null)"
  by (simp add: element.simps driver_specD(1) stores_def)

text \<open>The item of each key handed over: null, or a value that reads back as the same one.\<close>

definition item_trip :: "php_env \<Rightarrow> driver \<Rightarrow> cass_type \<Rightarrow> zval \<Rightarrow> cval \<Rightarrow> bool" where
  "item_trip E D t v x \<longleftrightarrow> (if v = ZNull then x = V_Null else x \<noteq> V_Null \<and> (\<exists>w. php_scylladb_value E D t x = Ret w \<and> same v w))"

lemma items_ok:
  assumes "\<And>e. e \<in> set es \<Longrightarrow> \<exists>x. f e = Ret (Some (fst e, x)) \<and> P (fst e) (snd e) x"
  shows "\<exists>cs. conv_all f es = Ret (Some cs) \<and> map fst cs = map fst es \<and> (\<forall>k. rel_option (P k) (map_of es k) (map_of cs k))"
  using assms
proof (induction es)
  case (Cons e es)
  obtain x where "f e = Ret (Some (fst e, x))" "P (fst e) (snd e) x" using Cons.prems [of e] by auto
  moreover obtain cs where "conv_all f es = Ret (Some cs)" "map fst cs = map fst es" "\<And>k. rel_option (P k) (map_of es k) (map_of cs k)"
    using Cons.IH Cons.prems by auto
  ultimately show ?case by (intro exI [of _ "(fst e, x) # cs"]) (cases e, auto simp: bind_conv_def)
qed simp

lemma item_decoded:
  assumes "rel_option (item_trip E D t) (map_of es k) (map_of cs k)"
    and "\<And>x w. map_of cs k = Some x \<Longrightarrow> x \<noteq> V_Null \<Longrightarrow> php_scylladb_value E D t x = Ret w \<Longrightarrow> map_of es' k = Some w"
    and "case_option V_Null id (map_of cs k) = V_Null \<Longrightarrow> map_of es' k = None"
  shows "rel_option same (set_item es k) (set_item es' k)"
proof (cases "map_of es k")
  case None
  then show ?thesis using assms(1,3) by (auto simp: set_item_def)
next
  case (Some v)
  then obtain x where x: "map_of cs k = Some x" "item_trip E D t v x" using assms(1) by (auto elim: option.rel_cases)
  show ?thesis
  proof (cases "v = ZNull")
    case True
    then show ?thesis using Some x assms(3) by (simp add: set_item_def item_trip_def)
  next
    case False
    then obtain w where w: "x \<noteq> V_Null" "php_scylladb_value E D t x = Ret w" "same v w" using x(2) by (auto simp: item_trip_def)
    then have "w \<noteq> ZNull" using same_null [OF w(3)] False by simp
    then show ?thesis using False Some w assms(2) [OF x(1) w(1,2)] by (auto simp: set_item_def split: zval.splits)
  qed
qed

text \<open>The value an item decodes to.\<close>

definition decoded :: "zval outcome \<Rightarrow> zval" where
  "decoded r = (case r of Ret w \<Rightarrow> w | _ \<Rightarrow> ZNull)"

lemma item_trip_decodes:
  "rel_option (item_trip E D t) (map_of es k) (map_of cs k) \<Longrightarrow> case_option V_Null id (map_of cs k) \<noteq> V_Null \<Longrightarrow>
     php_scylladb_value E D t (case_option V_Null id (map_of cs k)) = Ret (decoded (php_scylladb_value E D t (case_option V_Null id (map_of cs k))))"
  by (cases "map_of es k"; cases "map_of cs k") (auto simp: item_trip_def decoded_def split: if_splits)

context value_env
begin

lemma trip_tuple:
  assumes D: "driver_spec D" and es: "distinct (map fst es)"
    and items: "\<And>e. e \<in> set es \<Longrightarrow> fst e < length ts \<and>
      (snd e = ZNull \<or> snd e \<noteq> ZNull \<and> accepted E (ts ! fst e) (snd e) \<and> (\<exists>x w. trip E D In_tuple (ts ! fst e) (snd e) x w))"
  shows "\<exists>x w. trip E D k (T_Tuple ts) (ZTuple (T_Tuple ts) es) x w"
proof -
  let ?t = "T_Tuple ts" and ?val = "\<lambda>p. php_scylladb_value E D (fst p) (snd p)"
  let ?f = "\<lambda>e. bind_conv (checked_item E (element E D In_tuple) (if fst e < length ts then Some (ts ! fst e) else None) (snd e)) (\<lambda>c. Ret (Some (fst e, c)))"
  have "\<exists>x. ?f e = Ret (Some (fst e, x)) \<and> item_trip E D (ts ! fst e) (snd e) x" if e: "e \<in> set es" for e
    using items [OF e] by (auto simp: checked_item_null checked_item_ok element_null [OF D] trip_def item_trip_def bind_conv_def)
  then obtain cs where cs: "conv_all ?f es = Ret (Some cs)" "map fst cs = map fst es"
      "\<And>i. rel_option (item_trip E D (ts ! i)) (map_of es i) (map_of cs i)"
    using items_ok [of es ?f "\<lambda>i. item_trip E D (ts ! i)"] by blast
  define at where "at i = case_option V_Null id (map_of cs i)" for i
  define ys where "ys = map at [0..<length ts]"
  have elem: "element E D k (ZTuple ?t es) CASS_VALUE_TYPE_TUPLE = Ret (Some (V_Tuple cs))"
    using cs(1) driver_specD(1) [OF D, of CASS_VALUE_TYPE_TUPLE "V_Tuple cs"]
    by (simp add: element.simps [of E D k] container_defs tuple_from_tuple_def bind_conv_def [of "Ret _"] stores_def)
  have ys: "dr_tuple D (length ts) (V_Tuple cs) = ys"
    using driver_specD(4) [OF D, of cs] cs(2) es by (simp add: ys_def at_def fun_eq_iff)
  have "?val p = Ret (decoded (?val p))" if "p \<in> set (zip ts ys)" "snd p \<noteq> V_Null" for p
    using that item_trip_decodes [OF cs(3)] by (auto simp: set_zip ys_def at_def)
  then obtain t' where t': "decode_tuple ?val 0 (zip ts ys) (php_scylladb_tuple_new ?t) = Ret t'" "tup_type t' = ?t"
    "\<And>j. zend_hash_find (tup_values t') j = (if j < length ts \<and> at j \<noteq> V_Null then Some (decoded (php_scylladb_value E D (ts ! j) (at j))) else None)"
    using decode_tuple_ok [of "zip ts ys" ?val "\<lambda>p. decoded (?val p)" 0 "php_scylladb_tuple_new ?t"]
    by (auto simp: ys_def php_scylladb_tuple_new_def zend_hash_init_def zend_hash_find_def cong: conj_cong)
  have "same (ZTuple ?t es) (tuple_zval t')"
    unfolding tuple_zval_def t'(2)
  proof (rule same.tuple)
    fix i
    have "i < length ts" if "map_of cs i = Some x" for x
      using items that cs(2) by (metis (no_types, lifting) image_eqI in_set_conv_nth map_of_SomeD length_map nth_map fst_conv list.set_map)
    then show "rel_option same (set_item es i) (set_item (ht_entries (tup_values t')) i)"
      using t'(3) [of i] by (intro item_decoded [OF cs(3)]) (auto simp: zend_hash_find_def at_def decoded_def)
  qed
  then show ?thesis using elem ys t'(1)
    by (intro exI [of _ "V_Tuple cs"] exI [of _ "tuple_zval t'"]) (simp add: trip_def php_scylladb_value.simps [of E D ?t])
qed

end

lemma new_udt: "zend_hash_find (udt_values (php_scylladb_user_type_value_new t)) s = None" "udt_type (php_scylladb_user_type_value_new t) = t"
  by (simp_all add: php_scylladb_user_type_value_new_def zend_hash_init_def zend_hash_find_def)

context value_env
begin

lemma trip_user_type:
  assumes D: "driver_spec D" and fs: "distinct (map fst fs)" and es: "distinct (map fst es)"
    and nul: "\<And>s. s \<in> fst ` set fs \<Longrightarrow> CHR 0x00 \<notin> set s"
    and items: "\<And>e. e \<in> set es \<Longrightarrow> \<exists>u. map_of fs (fst e) = Some u \<and>
      (snd e = ZNull \<or> snd e \<noteq> ZNull \<and> accepted E u (snd e) \<and> (\<exists>x w. trip E D In_user_type u (snd e) x w))"
  shows "\<exists>x w. trip E D k (T_Udt ks name fs) (ZUserType (T_Udt ks name fs) es) x w"
proof -
  let ?t = "T_Udt ks name fs" and ?val = "\<lambda>p. php_scylladb_value E D (fst p) (snd p)" and ?u = "\<lambda>s. the (map_of fs s)"
  let ?f = "\<lambda>e. bind_conv (checked_item E (element E D In_user_type) (map_of fs (fst e)) (snd e)) (\<lambda>c. Ret (Some (c_string (fst e), c)))"
  have "\<exists>x. ?f e = Ret (Some (fst e, x)) \<and> item_trip E D (?u (fst e)) (snd e) x" if e: "e \<in> set es" for e
  proof -
    obtain u where u: "map_of fs (fst e) = Some u" using items [OF e] by blast
    then have "c_string (fst e) = fst e" using nul [of "fst e"] by (force intro: takeWhile_nul dest: map_of_SomeD)
    then show ?thesis
      using items [OF e] u by (auto simp: checked_item_null checked_item_ok element_null [OF D] trip_def item_trip_def bind_conv_def)
  qed
  then obtain cs where cs: "conv_all ?f es = Ret (Some cs)" "map fst cs = map fst es"
      "\<And>s. rel_option (item_trip E D (?u s)) (map_of es s) (map_of cs s)"
    using items_ok [of es ?f "\<lambda>s. item_trip E D (?u s)"] by blast
  define at where "at s = case_option V_Null id (map_of cs s)" for s
  let ?ps = "map (\<lambda>(s, u). (s, u, at s)) fs"
  have elem: "element E D k (ZUserType ?t es) CASS_VALUE_TYPE_UDT = Ret (Some (V_User_type cs))"
    using cs(1) driver_specD(1) [OF D, of CASS_VALUE_TYPE_UDT "V_User_type cs"]
    by (simp add: element.simps [of E D k] container_defs user_type_from_user_type_value_def bind_conv_def [of "Ret _"] stores_def)
  have "dr_fields D (map fst fs) (V_User_type cs) = map (\<lambda>s. (s, at s)) (map fst fs)"
    using driver_specD(5) [OF D, of cs] cs(2) es by (simp add: at_def fun_eq_iff)
  then have ps: "map (\<lambda>(ty, n, y). (n, ty, y)) (zip (map snd fs) (dr_fields D (map fst fs) (V_User_type cs))) = ?ps"
    by (auto intro!: nth_equalityI simp: split_beta)
  have mps: "map_of ?ps s = map_option (\<lambda>u. (u, at s)) (map_of fs s)" for s by (induction fs) auto
  have "?val p = Ret (decoded (?val p))" if "(s, p) \<in> set ?ps" "snd p \<noteq> V_Null" for s p
    using that item_trip_decodes [OF cs(3), of s] map_of_is_SomeI [OF fs, of s "fst p"] by (auto simp: at_def)
  then obtain u' where u': "decode_user_type ?val ?ps (php_scylladb_user_type_value_new ?t) = Ret u'" "udt_type u' = ?t"
    and look: "\<forall>s. zend_hash_find (udt_values u') s = (case map_of ?ps s of Some p \<Rightarrow> if snd p \<noteq> V_Null then Some (decoded (?val p)) else None | None \<Rightarrow> None)"
    using decode_user_type_ok [of ?ps ?val "\<lambda>p. decoded (?val p)" "php_scylladb_user_type_value_new ?t", unfolded new_udt] fs
    by (auto simp: comp_def split_beta)
  have find: "map_of (ht_entries (udt_values u')) s =
      (case map_of fs s of Some u \<Rightarrow> if at s \<noteq> V_Null then Some (decoded (php_scylladb_value E D u (at s))) else None | None \<Rightarrow> None)" for s
    using look mps [of s] by (cases "map_of fs s") (simp_all add: zend_hash_find_def)
  have "same (ZUserType ?t es) (user_type_value_zval u')"
    unfolding user_type_value_zval_def u'(2)
  proof (rule same.user_type)
    fix s
    have "\<exists>u. map_of fs s = Some u" if x: "map_of cs s = Some x" for x
      using items [OF map_of_SomeD, of s] cs(3) [of s] x by (cases "map_of es s") auto
    then show "rel_option same (set_item es s) (set_item (ht_entries (udt_values u')) s)"
      using find [of s] by (intro item_decoded [OF cs(3)]) (auto simp: at_def decoded_def split: option.splits)
  qed
  then show ?thesis using elem ps u'(1)
    by (intro exI [of _ "V_User_type cs"] exI [of _ "user_type_value_zval u'"]) (simp add: trip_def php_scylladb_value.simps [of E D ?t])
qed

lemma storable_not_null: "storable E t v \<Longrightarrow> v \<noteq> ZNull"
  by (erule storable.cases) (auto simp: scalar_ok_def)

lemma storable_trip:
  assumes D: "driver_spec D" and "storable E t v" and "k \<noteq> In_user_type \<or> no_nul v"
  shows "\<exists>x w. trip E D k t v x w"
  using assms(2,3)
proof (induction arbitrary: k rule: storable.induct)
  case (scalar c v)
  then show ?case using trip_scalar [OF D] by blast
next
  case (list vs u)
  then show ?case using trip_list [OF D] sink.distinct(3) by metis
next
  case (set vs c n)
  then show ?case using trip_set [OF D] by metis
next
  case (map kvs c u n)
  have "scalar_ok E c (fst e) \<and> keyable (fst e) \<and> accepted E u (snd e) \<and> snd e \<noteq> ZNull \<and> (\<exists>x w. trip E D In_collection u (snd e) x w)"
    if e: "e \<in> set kvs" for e
    using map.IH [of "fst e" "snd e"] storable_not_null [of u "snd e"] e by auto
  then show ?case by (rule trip_map [OF D map.hyps])
next
  case (tuple es ts)
  have "fst e < length ts \<and> (snd e = ZNull \<or> snd e \<noteq> ZNull \<and> accepted E (ts ! fst e) (snd e) \<and> (\<exists>x w. trip E D In_tuple (ts ! fst e) (snd e) x w))"
    if e: "e \<in> set es" for e
    using tuple.IH [of "fst e" "snd e"] e by auto
  then show ?case by (rule trip_tuple [OF D tuple.hyps(1)])
next
  case (user_type fs es ks name)
  have "\<exists>u. map_of fs (fst e) = Some u \<and> (snd e = ZNull \<or> snd e \<noteq> ZNull \<and> accepted E u (snd e) \<and> (\<exists>x w. trip E D In_user_type u (snd e) x w))"
    if e: "e \<in> set es" for e
    using user_type.IH [of "fst e" "snd e"] e by auto
  with user_type.hyps(1-3) show ?case by (intro trip_user_type [OF D]) simp_all
qed

end

text \<open>The whole objects are converted as they are inside other containers.\<close>

lemma stored: "store D c x = Ret (Some y) \<Longrightarrow> x = y"
  by (simp add: store_def split: option.splits)

lemma bind_conv_stored: "bind_conv r (store D c) = Ret (Some x) \<Longrightarrow> r = Ret (Some x)"
  by (cases r) (auto simp: bind_conv_def dest: stored split: option.splits)

lemma element_containers:
  "element E D k (ZCollection t vs) CASS_VALUE_TYPE_LIST = bind_conv (collection_from_collection (element E D In_collection) t vs) (store D CASS_VALUE_TYPE_LIST)"
  "element E D k (ZSet t n vs) CASS_VALUE_TYPE_SET = bind_conv (collection_from_set (element E D In_collection) t vs) (store D CASS_VALUE_TYPE_SET)"
  "element E D k (ZMap t n kvs) CASS_VALUE_TYPE_MAP = bind_conv (collection_from_map (element E D In_collection) t kvs) (store D CASS_VALUE_TYPE_MAP)"
  "element E D k (ZTuple t es) CASS_VALUE_TYPE_TUPLE = bind_conv (tuple_from_tuple E (element E D In_tuple) t es) (store D CASS_VALUE_TYPE_TUPLE)"
  "element E D k (ZUserType t fs) CASS_VALUE_TYPE_UDT = bind_conv (user_type_from_user_type_value E (element E D In_user_type) t fs) (store D CASS_VALUE_TYPE_UDT)"
  by (subst element.simps, simp add: container_defs; fail)+

lemma whole_objects:
  "element E D In_collection (collection_zval c) CASS_VALUE_TYPE_LIST = Ret (Some x) \<Longrightarrow> php_scylladb_collection_from_collection E D c = Ret (Some x)"
  "element E D In_collection (set_zval s) CASS_VALUE_TYPE_SET = Ret (Some x) \<Longrightarrow> php_scylladb_collection_from_set E D s = Ret (Some x)"
  "element E D In_collection (map_zval m) CASS_VALUE_TYPE_MAP = Ret (Some x) \<Longrightarrow> php_scylladb_collection_from_map E D m = Ret (Some x)"
  "element E D In_collection (tuple_zval t) CASS_VALUE_TYPE_TUPLE = Ret (Some x) \<Longrightarrow> php_scylladb_tuple_from_tuple E D t = Ret (Some x)"
  "element E D In_collection (user_type_value_zval u) CASS_VALUE_TYPE_UDT = Ret (Some x) \<Longrightarrow> php_scylladb_user_type_from_user_type_value E D u = Ret (Some x)"
  by (auto dest!: bind_conv_stored
      simp: collection_zval_def set_zval_def map_zval_def tuple_zval_def user_type_value_zval_def element_containers
        php_scylladb_collection_from_collection_def php_scylladb_collection_from_set_def php_scylladb_collection_from_map_def
        php_scylladb_tuple_from_tuple_def php_scylladb_user_type_from_user_type_value_def php_scylladb_collection_append_def [abs_def]
        conversions_tuple_set_def [abs_def] conversions_user_type_set_def [abs_def] php_scylladb_collection_populate_def)

text \<open>A result whose values decode.\<close>

lemma update_new: "k \<notin> fst ` set al \<Longrightarrow> AList.update k v al = al @ [(k, v)]"
  by (induction al) auto

lemma decode_row_ok:
  "list_all2 (\<lambda>c x. php_scylladb_value E D (snd c) x = Ret (f c x)) cols xs \<Longrightarrow> distinct (map fst row @ map fst cols) \<Longrightarrow>
     decode_row E D cols xs row = Ret (row @ map2 (\<lambda>c x. (fst c, f c x)) cols xs)"
proof (induction cols xs arbitrary: row rule: list_all2_induct)
  case (Cons c cols x xs)
  have "fst c \<notin> fst ` set row" using Cons.prems by auto
  then show ?case using Cons by (cases c) (auto simp: update_new)
qed simp

lemma get_result_ok:
  assumes "distinct (map fst cols)" and "\<forall>r \<in> set rows. list_all2 (\<lambda>c x. php_scylladb_value E D (snd c) x = Ret (f c x)) cols r"
  shows "php_scylladb_get_result E D cols rows = Ret (map (\<lambda>r. ZArray (map2 (\<lambda>c x. (fst c, f c x)) cols r)) rows)"
  using assms(2)
proof (induction rows)
  case (Cons r rows)
  then show ?case using decode_row_ok [of E D f cols r "[]"] assms(1) by simp
qed simp

lemma narrow_int: "driver_spec D \<Longrightarrow> \<exists>x. element E D k (ZLong n) CASS_VALUE_TYPE_INT = Ret (Some x) \<and>
    php_scylladb_value E D (T_Scalar CASS_VALUE_TYPE_INT) x = Ret (ZLong (cast_s 32 n))"
  by (auto simp: element.simps scalar_element_def bind_conv_def driver_specD stores_def php_scylladb_value.simps decode_scalar_def)

lemma field_text: "driver_spec D \<Longrightarrow> \<exists>x. element E D In_user_type (ZString s) CASS_VALUE_TYPE_TEXT = Ret (Some x) \<and>
    php_scylladb_value E D (T_Scalar CASS_VALUE_TYPE_TEXT) x = Ret (ZString (c_string s))"
  by (auto simp: element.simps scalar_element_def bind_conv_def driver_specD stores_def php_scylladb_value.simps decode_scalar_def sink_text_def)

text \<open>A container with its type is stored under the code of its type.\<close>

definition container_code :: "zval \<Rightarrow> cass_value_type option" where
  "container_code v =
     (case v of ZCollection _ _ \<Rightarrow> Some CASS_VALUE_TYPE_LIST | ZSet _ _ _ \<Rightarrow> Some CASS_VALUE_TYPE_SET | ZMap _ _ _ \<Rightarrow> Some CASS_VALUE_TYPE_MAP
      | ZTuple _ _ \<Rightarrow> Some CASS_VALUE_TYPE_TUPLE | ZUserType _ _ \<Rightarrow> Some CASS_VALUE_TYPE_UDT | _ \<Rightarrow> None)"

lemma storable_code: "storable E t v \<Longrightarrow> container_code v = Some c \<Longrightarrow> type_of t = c"
  by (erule storable.cases) (auto simp: container_code_def scalar_ok_def accepted_containers split: zval.splits)

context value_env
begin

lemma storable_object:
  assumes D: "driver_spec D" and v: "storable E t v" and conv: "\<And>x. element E D In_collection v c = Ret (Some x) \<Longrightarrow> r = Ret (Some x)"
    and c: "container_code v = Some c"
  shows "\<exists>x w. r = Ret (Some x) \<and> php_scylladb_value E D t x = Ret w \<and> same v w"
  using storable_trip [OF D v, of In_collection] storable_code [OF v c] conv by (auto simp: trip_def)

end

lemma codec_parts:
  fixes E :: php_env and D :: driver
  defines "back ty v r \<equiv> (\<exists>x w. r = Ret (Some x) \<and> php_scylladb_value E D ty x = Ret w \<and> same v w)"
  assumes E: "gmp_spec (gmp_lib E)" "inj (type_codes E)" and D: "driver_spec D"
  shows "storable E (coll_type c) (collection_zval c) \<Longrightarrow> back (coll_type c) (collection_zval c) (php_scylladb_collection_from_collection E D c)"
    and "storable E (set_type s) (set_zval s) \<Longrightarrow> back (set_type s) (set_zval s) (php_scylladb_collection_from_set E D s)"
    and "storable E (map_type m) (map_zval m) \<Longrightarrow> back (map_type m) (map_zval m) (php_scylladb_collection_from_map E D m)"
    and "storable E (tup_type t) (tuple_zval t) \<Longrightarrow> back (tup_type t) (tuple_zval t) (php_scylladb_tuple_from_tuple E D t)"
    and "storable E (udt_type u) (user_type_value_zval u) \<Longrightarrow> back (udt_type u) (user_type_value_zval u) (php_scylladb_user_type_from_user_type_value E D u)"
    and "distinct (map fst cols) \<Longrightarrow> (\<forall>r \<in> set rows. list_all2 (\<lambda>c x. php_scylladb_value E D (snd c) x = Ret (f c x)) cols r) \<Longrightarrow>
      php_scylladb_get_result E D cols rows = Ret (map (\<lambda>r. ZArray (map2 (\<lambda>c x. (fst c, f c x)) cols r)) rows)"
    and "\<exists>x. element E D k (ZLong n) CASS_VALUE_TYPE_INT = Ret (Some x) \<and>
      php_scylladb_value E D (T_Scalar CASS_VALUE_TYPE_INT) x = Ret (ZLong (cast_s 32 n))"
    and "\<exists>x. element E D In_user_type (ZString txt) CASS_VALUE_TYPE_TEXT = Ret (Some x) \<and>
      php_scylladb_value E D (T_Scalar CASS_VALUE_TYPE_TEXT) x = Ret (ZString (c_string txt))"
proof -
  note trip = value_env.storable_object [OF value_env.intro [OF E] D, folded back_def]
  note zvals = collection_zval_def set_zval_def map_zval_def tuple_zval_def user_type_value_zval_def
  show "storable E (coll_type c) (collection_zval c) \<Longrightarrow> back (coll_type c) (collection_zval c) (php_scylladb_collection_from_collection E D c)"
    by (rule trip [OF _ whole_objects(1)]) (simp_all add: zvals container_code_def)
  show "storable E (set_type s) (set_zval s) \<Longrightarrow> back (set_type s) (set_zval s) (php_scylladb_collection_from_set E D s)"
    by (rule trip [OF _ whole_objects(2)]) (simp_all add: zvals container_code_def)
  show "storable E (map_type m) (map_zval m) \<Longrightarrow> back (map_type m) (map_zval m) (php_scylladb_collection_from_map E D m)"
    by (rule trip [OF _ whole_objects(3)]) (simp_all add: zvals container_code_def)
  show "storable E (tup_type t) (tuple_zval t) \<Longrightarrow> back (tup_type t) (tuple_zval t) (php_scylladb_tuple_from_tuple E D t)"
    by (rule trip [OF _ whole_objects(4)]) (simp_all add: zvals container_code_def)
  show "storable E (udt_type u) (user_type_value_zval u) \<Longrightarrow> back (udt_type u) (user_type_value_zval u) (php_scylladb_user_type_from_user_type_value E D u)"
    by (rule trip [OF _ whole_objects(5)]) (simp_all add: zvals container_code_def)
qed (rule get_result_ok narrow_int [OF D] field_text [OF D]; assumption)+


text \<open>A list, a set and a map of integers, a pair and a user type value, all with the number 7.\<close>

abbreviation int_type :: cass_type where "int_type \<equiv> T_Scalar CASS_VALUE_TYPE_INT"

definition seven_list :: php_scylladb_collection where
  "seven_list = php_scylladb_collection_add (php_scylladb_collection_new (T_List int_type)) (ZLong 7)"

definition seven_set :: php_scylladb_set where
  "seven_set = snd (php_scylladb_set_add env_ref 0 (php_scylladb_set_new (T_Set int_type)) (ZLong 7))"

definition seven_map :: php_scylladb_map where
  "seven_map = snd (php_scylladb_map_set env_ref 0 (php_scylladb_map_new (T_Map int_type int_type)) (ZLong 7) (ZLong 7))"

definition seven_pair :: php_scylladb_tuple where
  "seven_pair = php_scylladb_tuple_set (php_scylladb_tuple_new (T_Tuple [int_type, int_type])) 1 (ZLong 7)"

definition seven_udt :: php_scylladb_user_type_value where
  "seven_udt = php_scylladb_user_type_value_set (php_scylladb_user_type_value_new (T_Udt None None [(''n'', int_type)])) ''n'' (ZLong 7)"

lemma seven_zvals:
  "coll_type seven_list = T_List int_type" "collection_zval seven_list = ZCollection (T_List int_type) [ZLong 7]"
  "set_type seven_set = T_Set int_type" "set_zval seven_set = ZSet (T_Set int_type) 32 [ZLong 7]"
  "map_type seven_map = T_Map int_type int_type" "map_zval seven_map = ZMap (T_Map int_type int_type) 32 [(ZLong 7, ZLong 7)]"
  "tup_type seven_pair = T_Tuple [int_type, int_type]" "tuple_zval seven_pair = ZTuple (T_Tuple [int_type, int_type]) [(1, ZLong 7)]"
  "udt_type seven_udt = T_Udt None None [(''n'', int_type)]"
  "user_type_value_zval seven_udt = ZUserType (T_Udt None None [(''n'', int_type)]) [(''n'', ZLong 7)]"
  by code_simp+

lemma seven_ok: "scalar_ok env_ref CASS_VALUE_TYPE_INT (ZLong 7)" "keyable (ZLong 7)" "accepted env_ref int_type (ZLong 7)" "no_nul (ZLong 7)"
  by (simp_all add: scalar_ok_def scalar_name_def scalar_types_map_def accepted_scalars fits_s_def no_nul_def)

lemma seven_storable:
  "storable env_ref (coll_type seven_list) (collection_zval seven_list)" "storable env_ref (set_type seven_set) (set_zval seven_set)"
  "storable env_ref (map_type seven_map) (map_zval seven_map)" "storable env_ref (tup_type seven_pair) (tuple_zval seven_pair)"
  "storable env_ref (udt_type seven_udt) (user_type_value_zval seven_udt)"
  unfolding seven_zvals
  by (rule storable.intros; (auto simp: seven_ok distinct_keys_def intro!: storable.scalar)?; fail)+


end
