(* ===== verification/Reactor.thy ===== *)
theory Reactor
  imports Prelude "HOL-Library.Multiset"
begin

text \<open>
  \<^verbatim>\<open>src/Async/Reactor.c\<close>: one event file descriptor shared by all futures. A future is
  added with a registration record; the driver's completion callback, on an IO thread, puts the record
  on the ready list and signals the descriptor; \<^verbatim>\<open>poll\<close>, on the PHP thread, empties the
  descriptor, takes the ready list and delivers the futures. Futures and records are named by numbers;
  an access to a record that was freed is undefined.

  Sections under the reactor's mutex and atomic operations are the atomic steps. The event counter is a
  natural number; descriptor and mutex creation, the PHP stream and the poll handle are not modelled.
\<close>

section \<open>State\<close>

record reg =
  reg_refcount :: nat
  enqueued :: bool
  future_obj :: nat
  has_fcc :: bool

record reactor =
  regs :: "nat \<rightharpoonup> reg"
  ready :: "nat list"
  registered :: "nat list"
  pending :: nat
  refcount :: nat
  fd_count :: nat \<comment> \<open>the value of the event descriptor\<close>
  pins :: "nat multiset" \<comment> \<open>references held on future objects\<close>
  slot :: "nat \<rightharpoonup> nat" \<comment> \<open>each future's \<^verbatim>\<open>reactor_reg\<close>\<close>

definition php_scylladb_reactor_create :: reactor where
  "php_scylladb_reactor_create =
     \<lparr>regs = Map.empty, ready = [], registered = [], pending = 0, refcount = 1, fd_count = 0, pins = {#}, slot = Map.empty\<rparr>"

section \<open>Registration records\<close>

definition reg_create :: "nat \<Rightarrow> nat \<Rightarrow> bool \<Rightarrow> reactor \<Rightarrow> reactor" where
  "reg_create a f fcc R =
     R\<lparr>regs := (regs R)(a \<mapsto> \<lparr>reg_refcount = 2, enqueued = False, future_obj = f, has_fcc = fcc\<rparr>),
       refcount := refcount R + 1, pins := add_mset f (pins R), slot := (slot R)(f \<mapsto> a),
       registered := a # registered R, pending := pending R + 1\<rparr>"

text \<open>Both references are dropped at once; the last one frees the record.\<close>

definition reg_release :: "nat \<Rightarrow> reactor \<Rightarrow> reactor outcome" where
  "reg_release a R =
     (case regs R a of
        None \<Rightarrow> UB
      | Some r \<Rightarrow>
          if reg_refcount r = 2 then Ret (R\<lparr>regs := (regs R)(a := None), refcount := refcount R - 1\<rparr>)
          else Ret (R\<lparr>regs := (regs R)(a \<mapsto> r\<lparr>reg_refcount := reg_refcount r - 2\<rparr>)\<rparr>))"

definition reg_unregister :: "nat \<Rightarrow> reactor \<Rightarrow> reactor" where
  "reg_unregister a R = R\<lparr>registered := remove1 a (registered R), pending := pending R - 1\<rparr>"

text \<open>The push on the ready list and the signal, under the mutex.\<close>

definition push_ready :: "nat \<Rightarrow> reactor \<Rightarrow> reactor" where
  "push_ready a R = R\<lparr>ready := ready R @ [a], fd_count := fd_count R + 1\<rparr>"

text \<open>The compare-and-set on the flag: whether the caller won the right to push.\<close>

definition claim_push :: "nat \<Rightarrow> reactor \<Rightarrow> (bool \<times> reactor) outcome" where
  "claim_push a R =
     (case regs R a of
        None \<Rightarrow> UB
      | Some r \<Rightarrow> if enqueued r then Ret (False, R) else Ret (True, R\<lparr>regs := (regs R)(a \<mapsto> r\<lparr>enqueued := True\<rparr>)\<rparr>))"

definition reg_enqueue :: "nat \<Rightarrow> reactor \<Rightarrow> reactor outcome" where
  "reg_enqueue a R = bind_outcome (claim_push a R) (\<lambda>(won, R'). Ret (if won then push_ready a R' else R'))"

section \<open>Taking and delivering completions\<close>

definition reactor_splice :: "reactor \<Rightarrow> nat list \<times> reactor" where
  "reactor_splice R = (ready R, R\<lparr>ready := []\<rparr>)"

definition notifier_drain :: "reactor \<Rightarrow> reactor" where
  "notifier_drain R = R\<lparr>fd_count := 0\<rparr>"

text \<open>
  What consuming a list leaves: the reactor, the rest of the list, the futures collected for the caller,
  those whose callback ran, and whether one threw. \<open>deliver\<close> is false when the completions are
  discarded at shutdown.
\<close>

record consumed =
  c_reactor :: reactor
  c_rest :: "nat list"
  c_out :: "nat list"
  c_called :: "nat list"
  c_exception :: bool

text \<open>One record: unlinked, its slot cleared, delivered in one of three ways, released.\<close>

definition consume_one :: "bool \<Rightarrow> (nat \<Rightarrow> bool) \<Rightarrow> nat \<Rightarrow> consumed \<Rightarrow> consumed outcome" where
  "consume_one deliver throwing a C =
     (case regs (c_reactor C) a of
        None \<Rightarrow> UB
      | Some r \<Rightarrow>
          let f = future_obj r;
              R = reg_unregister a (c_reactor C);
              R = R\<lparr>slot := (slot R)(f := None), pins := pins R - {#f#}\<rparr>
          in bind_outcome (reg_release a R) (\<lambda>R.
               Ret (if deliver \<and> has_fcc r then
                      C\<lparr>c_reactor := R, c_called := c_called C @ [f], c_exception := throwing f\<rparr>
                    else if deliver then C\<lparr>c_reactor := R, c_out := c_out C @ [f]\<rparr>
                    else C\<lparr>c_reactor := R\<rparr>)))"

text \<open>\<open>limit\<close> is the largest number, 0 for none.\<close>

fun reactor_consume :: "bool \<Rightarrow> (nat \<Rightarrow> bool) \<Rightarrow> nat \<Rightarrow> nat \<Rightarrow> nat list \<Rightarrow> consumed \<Rightarrow> consumed outcome" where
  "reactor_consume deliver throwing limit taken [] C = Ret (C\<lparr>c_rest := []\<rparr>)"
| "reactor_consume deliver throwing limit taken (a # as) C =
     (if limit = 0 \<or> taken < limit then
        bind_outcome (consume_one deliver throwing a C) (\<lambda>C.
          if c_exception C then Ret (C\<lparr>c_rest := as\<rparr>)
          else reactor_consume deliver throwing limit (taken + 1) as C)
      else Ret (C\<lparr>c_rest := a # as\<rparr>))"

text \<open>Back to the front of the ready list, with a signal.\<close>

definition reactor_requeue :: "nat list \<Rightarrow> reactor \<Rightarrow> reactor" where
  "reactor_requeue as R = R\<lparr>ready := as @ ready R, fd_count := fd_count R + 1\<rparr>"

text \<open>
  The futures already collected when a callback throws get new records, without callback, at the front.
  \<open>addr\<close> gives the addresses of the new records.
\<close>

fun reclaim_regs :: "(nat \<Rightarrow> nat) \<Rightarrow> nat list \<Rightarrow> reactor \<Rightarrow> nat list \<times> reactor" where
  "reclaim_regs addr [] R = ([], R)"
| "reclaim_regs addr (f # fs) R =
     (let a = addr f;
          R = reg_create a f False R;
          R = R\<lparr>regs := (regs R)(a \<mapsto> (the (regs R a))\<lparr>enqueued := True\<rparr>)\<rparr>;
          (as, R) = reclaim_regs addr fs R
      in (a # as, R))"

definition reactor_reclaim :: "(nat \<Rightarrow> nat) \<Rightarrow> nat list \<Rightarrow> reactor \<Rightarrow> reactor" where
  "reactor_reclaim addr fs R =
     (let (as, R) = reclaim_regs addr fs R in if as \<noteq> [] then reactor_requeue as R else R)"

text \<open>\<^verbatim>\<open>poll\<close> after the splice: the result is the returned futures, or none when a callback threw.\<close>

record polled =
  p_reactor :: reactor
  p_result :: "nat list option"
  p_called :: "nat list"

definition poll_batch :: "(nat \<Rightarrow> bool) \<Rightarrow> (nat \<Rightarrow> nat) \<Rightarrow> nat \<Rightarrow> nat list \<Rightarrow> reactor \<Rightarrow> polled outcome" where
  "poll_batch throwing addr limit batch R =
     bind_outcome
       (reactor_consume True throwing limit 0 batch
          \<lparr>c_reactor = R, c_rest = [], c_out = [], c_called = [], c_exception = False\<rparr>)
       (\<lambda>C.
         let R = (if c_rest C \<noteq> [] then reactor_requeue (c_rest C) (c_reactor C) else c_reactor C)
         in Ret (if c_exception C
                 then \<lparr>p_reactor = (if c_out C \<noteq> [] then reactor_reclaim addr (c_out C) R else R),
                       p_result = None, p_called = c_called C\<rparr>
                 else \<lparr>p_reactor = R, p_result = Some (c_out C), p_called = c_called C\<rparr>))"

text \<open>The argument of \<^verbatim>\<open>poll\<close>: null is no limit; a number is checked, then cut to 32 bits.\<close>

definition poll_max :: "int option \<Rightarrow> nat outcome" where
  "poll_max limit =
     (case limit of
        None \<Rightarrow> Ret 0
      | Some n \<Rightarrow> if n < 1 then Throw (Exn ValueError ''must be greater than 0, or null for every completion'')
                 else Ret (nat (cast_u 32 n)))"

text \<open>One pass of \<^verbatim>\<open>reactor_drain\<close> after the waits: everything ready is discarded.\<close>

definition drain_pass :: "reactor \<Rightarrow> reactor outcome" where
  "drain_pass R =
     (let (head, R) = reactor_splice (notifier_drain R)
      in bind_outcome (reactor_consume False (\<lambda>_. False) 0 0 head
           \<lparr>c_reactor = R, c_rest = [], c_out = [], c_called = [], c_exception = False\<rparr>) (\<lambda>C. Ret (c_reactor C)))"

section \<open>The invariant of the reactor\<close>

text \<open>
  \<open>batch\<close> is a list taken from the ready list and not yet delivered, \<open>claimed\<close> the records an IO
  thread has claimed and not yet pushed.
\<close>

definition fut :: "reactor \<Rightarrow> nat \<Rightarrow> nat" where
  "fut R a = future_obj (the (regs R a))"

definition regs_ok :: "reactor \<Rightarrow> bool" where
  "regs_ok R \<longleftrightarrow>
     distinct (registered R) \<and> set (registered R) = dom (regs R) \<and> pending R = length (registered R) \<and>
     refcount R = Suc (length (registered R)) \<and> pins R = mset (map (fut R) (registered R)) \<and>
     (\<forall>a r. regs R a = Some r \<longrightarrow> reg_refcount r = 2 \<and> slot R (future_obj r) = Some a) \<and>
     (\<forall>f a. slot R f = Some a \<longrightarrow> a \<in> dom (regs R) \<and> fut R a = f)"

definition queue_ok :: "nat list \<Rightarrow> nat set \<Rightarrow> reactor \<Rightarrow> bool" where
  "queue_ok batch claimed R \<longleftrightarrow>
     distinct (ready R @ batch) \<and> claimed \<inter> set (ready R @ batch) = {} \<and>
     (\<forall>a. a \<in> set (ready R @ batch) \<union> claimed \<longleftrightarrow> (\<exists>r. regs R a = Some r \<and> enqueued r))"

lemma regs_okD:
  assumes "regs_ok R" and "regs R a = Some r"
  shows "a \<in> set (registered R)" and "reg_refcount r = 2" and "slot R (future_obj r) = Some a" and "fut R a = future_obj r"
  using assms by (auto simp: regs_ok_def fut_def)

lemma create_ok: "regs_ok php_scylladb_reactor_create" "queue_ok [] {} php_scylladb_reactor_create"
  by (simp_all add: regs_ok_def queue_ok_def php_scylladb_reactor_create_def)

lemma fut_update_other: "a \<noteq> b \<Longrightarrow> fut (R\<lparr>regs := (regs R)(a := x)\<rparr>) b = fut R b"
  by (simp add: fut_def)

text \<open>A new record for a future that has none.\<close>

lemma reg_create_ok:
  assumes R: "regs_ok R" and q: "queue_ok batch claimed R" and a: "regs R a = None" and f: "slot R f = None"
  shows "regs_ok (reg_create a f fcc R)" and "queue_ok batch claimed (reg_create a f fcc R)"
proof -
  let ?R = "reg_create a f fcc R"
  have na: "a \<notin> set (registered R)" using R a by (auto simp: regs_ok_def)
  have fu: "fut ?R b = (if b = a then f else fut R b)" for b by (simp add: reg_create_def fut_def)
  have pm: "image_mset (\<lambda>b. if b = a then f else fut R b) (mset (registered R)) = image_mset (fut R) (mset (registered R))"
    using na by (intro image_mset_cong) auto
  have "slot R f' \<noteq> Some a" for f' using R a by (auto simp: regs_ok_def)
  then show "regs_ok ?R"
    using R na f unfolding regs_ok_def fu by (auto simp: reg_create_def pm)
  have "a \<notin> set (ready R @ batch) \<union> claimed" using q a unfolding queue_ok_def by (metis option.distinct(1))
  then show "queue_ok batch claimed ?R"
    using q a unfolding queue_ok_def by (auto simp: reg_create_def)
qed

lemma claim_push_ok:
  assumes R: "regs_ok R" and q: "queue_ok batch claimed R" and a: "regs R a = Some r"
  shows "enqueued r \<Longrightarrow> claim_push a R = Ret (False, R)"
    and "\<not> enqueued r \<Longrightarrow> \<exists>R'. claim_push a R = Ret (True, R') \<and> regs_ok R' \<and> queue_ok batch (insert a claimed) R' \<and>
      ready R' = ready R \<and> registered R' = registered R \<and> fd_count R' = fd_count R \<and> regs R' = (regs R)(a \<mapsto> r\<lparr>enqueued := True\<rparr>) \<and> slot R' = slot R"
proof -
  show "enqueued r \<Longrightarrow> claim_push a R = Ret (False, R)" by (simp add: claim_push_def a)
  assume e: "\<not> enqueued r"
  let ?R = "R\<lparr>regs := (regs R)(a \<mapsto> r\<lparr>enqueued := True\<rparr>)\<rparr>"
  have fu: "fut ?R = fut R" by (rule ext) (simp add: fut_def a)
  have "regs_ok ?R" using R a unfolding regs_ok_def fu by (auto simp: dom_def)
  moreover have "a \<notin> set (ready R @ batch) \<union> claimed" using q a e unfolding queue_ok_def by (metis option.inject)
  then have "queue_ok batch (insert a claimed) ?R" using q a unfolding queue_ok_def by auto
  ultimately show "\<exists>R'. claim_push a R = Ret (True, R') \<and> regs_ok R' \<and> queue_ok batch (insert a claimed) R' \<and>
      ready R' = ready R \<and> registered R' = registered R \<and> fd_count R' = fd_count R \<and> regs R' = (regs R)(a \<mapsto> r\<lparr>enqueued := True\<rparr>) \<and> slot R' = slot R"
    by (simp add: claim_push_def a e)
qed

lemma push_ready_ok:
  assumes "regs_ok R" and "queue_ok batch (insert a claimed) R" and "a \<notin> claimed"
  shows "regs_ok (push_ready a R)" and "queue_ok batch claimed (push_ready a R)"
proof -
  have "fut (push_ready a R) = fut R" by (rule ext) (simp add: fut_def push_ready_def)
  then show "regs_ok (push_ready a R)" using assms(1) by (simp add: regs_ok_def) (simp add: push_ready_def)
  show "queue_ok batch claimed (push_ready a R)"
    using assms(2,3) unfolding queue_ok_def by (auto simp: push_ready_def)
qed

lemma reg_enqueue_ok:
  assumes R: "regs_ok R" and q: "queue_ok batch claimed R" and a: "regs R a = Some r" and "a \<notin> claimed"
  shows "\<exists>R'. reg_enqueue a R = Ret R' \<and> regs_ok R' \<and> queue_ok batch claimed R' \<and> registered R' = registered R \<and> dom (regs R') = dom (regs R) \<and>
    slot R' = slot R \<and> (\<forall>b. fut R' b = fut R b) \<and> fd_count R \<le> fd_count R' \<and> (ready R' = ready R \<or> ready R' = ready R @ [a] \<and> 0 < fd_count R')"
proof (cases "enqueued r")
  case True
  then show ?thesis using R q claim_push_ok(1) [OF R q a] by (auto simp: reg_enqueue_def)
next
  case False
  then obtain R' where R': "claim_push a R = Ret (True, R')" "regs_ok R'" "queue_ok batch (insert a claimed) R'"
      "ready R' = ready R" "registered R' = registered R" "fd_count R' = fd_count R" "regs R' = (regs R)(a \<mapsto> r\<lparr>enqueued := True\<rparr>)" "slot R' = slot R"
    using claim_push_ok(2) [OF R q a] by blast
  have "fut (push_ready a R') b = fut R b" for b using a by (simp add: fut_def push_ready_def R'(7))
  then show ?thesis
    using R' push_ready_ok [OF R'(2,3) assms(4)] a by (auto simp: reg_enqueue_def push_ready_def)
qed

lemma reg_release_ok:
  assumes R: "regs_ok R" and a: "regs R a = Some r"
  defines "R' \<equiv> (reg_unregister a R)\<lparr>slot := (slot R)(future_obj r := None), pins := pins R - {#future_obj r#},
      regs := (regs R)(a := None), refcount := refcount R - 1\<rparr>"
  shows "regs_ok R'" and "queue_ok (a # batch) claimed R \<Longrightarrow> queue_ok batch claimed R'"
    and "b \<noteq> a \<Longrightarrow> fut R' b = fut R b"
proof -
  note D = regs_okD [OF R a]
  show fu: "fut R' b = fut R b" if "b \<noteq> a" for b using that by (simp add: R'_def fut_def)
  have reg: "registered R' = remove1 a (registered R)" "regs R' = (regs R)(a := None)" by (simp_all add: R'_def reg_unregister_def)
  have dist: "distinct (registered R)" using R by (simp add: regs_ok_def)
  have "mset (map (fut R') (registered R')) = mset (map (fut R) (remove1 a (registered R)))"
    unfolding reg using dist fu by (metis (mono_tags, lifting) map_eq_conv set_remove1_eq DiffE singletonI)
  also have "\<dots> = mset (map (fut R) (registered R)) - {#fut R a#}"
    using D(1) by (simp add: image_mset_Diff)
  finally have pins: "pins R' = mset (map (fut R') (registered R'))"
    using R D(4) by (simp add: R'_def regs_ok_def)
  have other: "future_obj s \<noteq> future_obj r" if "b \<noteq> a" "regs R b = Some s" for b s
    using regs_okD(3) [OF R that(2)] D(3) that(1) by auto
  have sl: "slot R f = Some b \<Longrightarrow> b \<in> dom (regs R) \<and> fut R b = f" for f b using R by (simp add: regs_ok_def)
  show "regs_ok R'"
    unfolding regs_ok_def
  proof (intro conjI allI impI)
    show "distinct (registered R')" "set (registered R') = dom (regs R')" using R dist by (auto simp: reg regs_ok_def)
    show "pending R' = length (registered R')" "refcount R' = Suc (length (registered R'))"
      using R D(1) length_pos_if_in_set [OF D(1)] by (simp_all add: R'_def reg_unregister_def regs_ok_def length_remove1)
    show "reg_refcount s = 2" "slot R' (future_obj s) = Some b" if "regs R' b = Some s" for b s
      using that other [of b s] regs_okD(2,3) [OF R, of b s] by (auto simp: reg R'_def split: if_splits)
    show "b \<in> dom (regs R')" "fut R' b = f" if "slot R' f = Some b" for f b
    proof -
      have "slot R f = Some b" "f \<noteq> future_obj r" using that by (auto simp: R'_def split: if_splits)
      moreover from this have "b \<noteq> a" using sl D(4) by metis
      ultimately show "b \<in> dom (regs R')" "fut R' b = f" using sl fu by (auto simp: reg)
    qed
  qed (rule pins)
  show "queue_ok batch claimed R'" if "queue_ok (a # batch) claimed R"
    using that unfolding queue_ok_def by (auto simp: R'_def reg_unregister_def)
qed

section \<open>What consuming delivers\<close>

text \<open>How many records of a list are consumed: up to the limit, and up to the first that stops.\<close>

fun consumed_count :: "(nat \<Rightarrow> bool) \<Rightarrow> nat \<Rightarrow> nat \<Rightarrow> nat list \<Rightarrow> nat" where
  "consumed_count stop limit taken [] = 0"
| "consumed_count stop limit taken (a # as) =
     (if limit = 0 \<or> taken < limit then (if stop a then 1 else Suc (consumed_count stop limit (taken + 1) as)) else 0)"

text \<open>The futures of a list of records, those with and those without a callback.\<close>

definition callback_of :: "reactor \<Rightarrow> nat \<Rightarrow> bool" where
  "callback_of R a = has_fcc (the (regs R a))"

definition stops :: "reactor \<Rightarrow> bool \<Rightarrow> (nat \<Rightarrow> bool) \<Rightarrow> nat \<Rightarrow> bool" where
  "stops R deliver throwing a \<longleftrightarrow> deliver \<and> callback_of R a \<and> throwing (fut R a)"

definition called_futures :: "reactor \<Rightarrow> nat list \<Rightarrow> nat list" where
  "called_futures R as = map (fut R) (filter (callback_of R) as)"

definition plain_futures :: "reactor \<Rightarrow> nat list \<Rightarrow> nat list" where
  "plain_futures R as = map (fut R) (filter (\<lambda>a. \<not> callback_of R a) as)"

lemma consumed_count_le: "consumed_count stop limit taken as \<le> length as"
  by (induction as arbitrary: taken) auto

lemma consumed_count_cong: "(\<And>a. a \<in> set as \<Longrightarrow> s a = t a) \<Longrightarrow> consumed_count s limit taken as = consumed_count t limit taken as"
  by (induction as arbitrary: taken) auto

lemma futures_cong:
  "(\<And>a. a \<in> set as \<Longrightarrow> regs R a = regs R' a) \<Longrightarrow> called_futures R as = called_futures R' as \<and> plain_futures R as = plain_futures R' as"
  by (auto simp: called_futures_def plain_futures_def callback_of_def fut_def cong: filter_cong)

text \<open>What is consumed after \<open>k\<close> records of a list: the reactor without them, the futures delivered.\<close>

definition consumes :: "bool \<Rightarrow> nat list \<Rightarrow> nat \<Rightarrow> nat set \<Rightarrow> consumed \<Rightarrow> consumed \<Rightarrow> bool" where
  "consumes deliver as k claimed C C' \<longleftrightarrow>
     (let R = c_reactor C; R' = c_reactor C'
      in regs_ok R' \<and> queue_ok (drop k as) claimed R' \<and> ready R' = ready R \<and> fd_count R' = fd_count R \<and>
        registered R' = filter (\<lambda>b. b \<notin> set (take k as)) (registered R) \<and>
        (\<forall>b. regs R' b = (if b \<in> set (take k as) then None else regs R b)) \<and>
        (\<forall>f. slot R' f = (if f \<in> fut R ` set (take k as) then None else slot R f)) \<and>
        c_called C' = c_called C @ (if deliver then called_futures R (take k as) else []) \<and>
        c_out C' = c_out C @ (if deliver then plain_futures R (take k as) else []))"

lemma consumes_none: "regs_ok (c_reactor C) \<Longrightarrow> queue_ok as claimed (c_reactor C) \<Longrightarrow> consumes deliver as 0 claimed C (C\<lparr>c_rest := as\<rparr>)"
  by (simp add: consumes_def called_futures_def plain_futures_def)

lemma consumes_rest: "consumes deliver as k claimed C C' \<Longrightarrow> consumes deliver as k claimed C (C'\<lparr>c_rest := bs\<rparr>)"
  by (simp add: consumes_def)

lemma consumes_Cons:
  assumes one: "consumes deliver (a # as) 1 claimed C C1" and rest: "consumes deliver as k claimed C1 C'" and na: "a \<notin> set as"
  shows "consumes deliver (a # as) (Suc k) claimed C C'"
proof -
  have tk: "set (take k as) \<subseteq> set as" by (rule set_take_subset)
  have same: "regs (c_reactor C1) b = regs (c_reactor C) b" if "b \<in> set as" for b
    using one na that by (auto simp: consumes_def Let_def)
  have fs: "called_futures (c_reactor C1) (take k as) = called_futures (c_reactor C) (take k as) \<and>
      plain_futures (c_reactor C1) (take k as) = plain_futures (c_reactor C) (take k as)"
    using same tk by (intro futures_cong) auto
  have im: "fut (c_reactor C1) ` set (take k as) = fut (c_reactor C) ` set (take k as)"
    using same tk by (intro image_cong) (auto simp: fut_def)
  have app: "called_futures R (a # bs) = called_futures R [a] @ called_futures R bs"
    "plain_futures R (a # bs) = plain_futures R [a] @ plain_futures R bs" for R bs
    by (simp_all add: called_futures_def plain_futures_def)
  show ?thesis
    using one rest fs im app [of "c_reactor C" "take k as"]
    by (simp add: consumes_def Let_def conj_commute)
qed

lemma consume_one_ok:
  assumes R: "regs_ok (c_reactor C)" and q: "queue_ok (a # as) claimed (c_reactor C)"
  shows "\<exists>C'. consume_one deliver throwing a C = Ret C' \<and> consumes deliver (a # as) 1 claimed C C' \<and>
    c_exception C' = (if deliver \<and> callback_of (c_reactor C) a then throwing (fut (c_reactor C) a) else c_exception C)"
proof -
  obtain r where a: "regs (c_reactor C) a = Some r" using q unfolding queue_ok_def by fastforce
  note rel = reg_release_ok [OF R a] and D = regs_okD [OF R a]
  have "distinct (registered (c_reactor C))" using R by (simp add: regs_ok_def)
  then have rm: "remove1 a (registered (c_reactor C)) = filter (\<lambda>b. b \<noteq> a) (registered (c_reactor C))"
    by (simp add: distinct_remove1_removeAll removeAll_filter_not_eq) metis
  have "reg_release a ((reg_unregister a (c_reactor C))\<lparr>slot := (slot (c_reactor C))(future_obj r := None), pins := pins (c_reactor C) - {#future_obj r#}\<rparr>) =
      Ret ((reg_unregister a (c_reactor C))\<lparr>slot := (slot (c_reactor C))(future_obj r := None), pins := pins (c_reactor C) - {#future_obj r#},
        regs := (regs (c_reactor C))(a := None), refcount := refcount (c_reactor C) - 1\<rparr>)"
    by (simp add: reg_release_def reg_unregister_def a D(2))
  moreover have "pins (reg_unregister a R) = pins R" "slot (reg_unregister a R) = slot R" for R by (simp_all add: reg_unregister_def)
  ultimately show ?thesis
    using rel(1) rel(2) [OF q] D
    by (simp add: consume_one_def a Let_def called_futures_def plain_futures_def callback_of_def consumes_def)
      (simp add: reg_unregister_def fut_def a rm)
qed

lemma consume_ok:
  fixes limit taken :: nat and throwing :: "nat \<Rightarrow> bool" and deliver :: bool
  assumes "regs_ok (c_reactor C)" and "queue_ok as claimed (c_reactor C)" and "\<not> c_exception C"
  defines "k \<equiv> consumed_count (stops (c_reactor C) deliver throwing) limit taken as"
  shows "\<exists>C'. reactor_consume deliver throwing limit taken as C = Ret C' \<and> consumes deliver as k claimed C C' \<and>
    c_rest C' = drop k as \<and> (c_exception C' \<longleftrightarrow> 0 < k \<and> stops (c_reactor C) deliver throwing (as ! (k - 1)))"
  using assms(1-3) unfolding k_def
proof (induction as arbitrary: C taken)
  case (Cons a as)
  let ?R = "c_reactor C"
  show ?case
  proof (cases "limit = 0 \<or> taken < limit")
    case True
    obtain C1 where C1: "consume_one deliver throwing a C = Ret C1" "consumes deliver (a # as) 1 claimed C C1"
        "c_exception C1 = (if deliver \<and> callback_of ?R a then throwing (fut ?R a) else c_exception C)"
      using consume_one_ok [OF Cons.prems(1,2)] by blast
    have na: "a \<notin> set as" using Cons.prems(2) by (auto simp: queue_ok_def)
    have ex: "c_exception C1 \<longleftrightarrow> stops ?R deliver throwing a" using C1(3) Cons.prems(3) by (auto simp: stops_def)
    show ?thesis
    proof (cases "c_exception C1")
      case False
      have st: "stops (c_reactor C1) deliver throwing b = stops ?R deliver throwing b" if "b \<in> set as" for b
      proof -
        have "regs (c_reactor C1) b = regs ?R b" using C1(2) na that by (auto simp: consumes_def Let_def)
        then show ?thesis by (simp add: stops_def callback_of_def fut_def)
      qed
      define k where "k = consumed_count (stops ?R deliver throwing) limit (taken + 1) as"
      have k: "consumed_count (stops (c_reactor C1) deliver throwing) limit (taken + 1) as = k"
        unfolding k_def using st by (intro consumed_count_cong) auto
      have k1: "consumed_count (stops ?R deliver throwing) limit taken (a # as) = Suc k" using True ex False by (simp add: k_def)
      have "regs_ok (c_reactor C1)" "queue_ok as claimed (c_reactor C1)" using C1(2) by (simp_all add: consumes_def Let_def)
      then obtain C' where C': "reactor_consume deliver throwing limit (taken + 1) as C1 = Ret C'" "consumes deliver as k claimed C1 C'"
          "c_rest C' = drop k as" "c_exception C' \<longleftrightarrow> 0 < k \<and> stops (c_reactor C1) deliver throwing (as ! (k - 1))"
        using Cons.IH [of C1 "taken + 1"] False unfolding k by blast
      have "0 < k \<Longrightarrow> stops (c_reactor C1) deliver throwing (as ! (k - 1)) = stops ?R deliver throwing (as ! (k - 1))"
        using st consumed_count_le [of "stops ?R deliver throwing" limit "taken + 1" as, folded k_def] by simp
      then show ?thesis
        using C' C1(1) False True ex consumes_Cons [OF C1(2) C'(2) na] unfolding k1 by (auto simp: nth_Cons')
    qed (use C1 ex True consumes_rest in auto)
  qed (use Cons.prems consumes_none [of C "a # as"] in simp)
qed (simp add: consumes_none)

lemma requeue_ok:
  assumes "regs_ok R" and "queue_ok as claimed R"
  shows "regs_ok (reactor_requeue as R)" and "queue_ok [] claimed (reactor_requeue as R)"
    and "fut (reactor_requeue as R) = fut R" and "ready (reactor_requeue as R) = as @ ready R" and "0 < fd_count (reactor_requeue as R)"
proof -
  show f: "fut (reactor_requeue as R) = fut R" by (rule ext) (simp add: fut_def reactor_requeue_def)
  show "regs_ok (reactor_requeue as R)" using assms(1) unfolding regs_ok_def f by (simp add: reactor_requeue_def)
  show "queue_ok [] claimed (reactor_requeue as R)" using assms(2) unfolding queue_ok_def by (auto simp: reactor_requeue_def)
qed (simp_all add: reactor_requeue_def)

lemma reclaim_regs_ok:
  assumes "regs_ok R" and "queue_ok bs claimed R" and "distinct fs" and "\<And>f. f \<in> set fs \<Longrightarrow> slot R f = None"
    and "inj_on addr (set fs)" and "\<And>f. f \<in> set fs \<Longrightarrow> regs R (addr f) = None"
  shows "\<exists>R'. reclaim_regs addr fs R = (map addr fs, R') \<and> regs_ok R' \<and> queue_ok (bs @ map addr fs) claimed R' \<and>
    ready R' = ready R \<and> fd_count R' = fd_count R \<and> (\<forall>f \<in> set fs. fut R' (addr f) = f) \<and> (\<forall>b. b \<notin> addr ` set fs \<longrightarrow> regs R' b = regs R b)"
  using assms
proof (induction fs arbitrary: R bs)
  case (Cons f fs)
  define R1 where "R1 = reg_create (addr f) f False R"
  define R2 where "R2 = R1\<lparr>regs := (regs R1)(addr f \<mapsto> (the (regs R1 (addr f)))\<lparr>enqueued := True\<rparr>)\<rparr>"
  note cr = reg_create_ok [OF Cons.prems(1,2), of "addr f" f False, folded R1_def]
  have R1: "regs_ok R1" "queue_ok bs claimed R1" using cr Cons.prems(4,6) by simp_all
  have r: "regs R1 (addr f) = Some \<lparr>reg_refcount = 2, enqueued = False, future_obj = f, has_fcc = False\<rparr>" by (simp add: R1_def reg_create_def)
  obtain R1' where c: "claim_push (addr f) R1 = Ret (True, R1')" "regs_ok R1'" "queue_ok bs (insert (addr f) claimed) R1'"
    using claim_push_ok(2) [OF R1 r] by auto
  have "R1' = R2" using c(1) by (simp add: claim_push_def r R2_def)
  with c have R2: "regs_ok R2" "queue_ok bs (insert (addr f) claimed) R2" by simp_all
  have nc: "addr f \<notin> claimed \<union> set (ready R @ bs)"
    using Cons.prems(2) Cons.prems(6) [of f] unfolding queue_ok_def by (metis Un_commute list.set_intros(1) option.distinct(1))
  have rd: "ready R2 = ready R" "fd_count R2 = fd_count R" by (simp_all add: R2_def R1_def reg_create_def)
  have q2: "queue_ok (bs @ [addr f]) claimed R2"
    using R2(2) nc unfolding queue_ok_def rd by auto
  have na: "addr g \<noteq> addr f \<and> g \<noteq> f" if "g \<in> set fs" for g using Cons.prems(3,5) that by (auto simp: inj_on_def)
  have sl: "slot R2 g = None" "regs R2 (addr g) = None" if "g \<in> set fs" for g
    using Cons.prems(4,6) na [OF that] that by (auto simp: R2_def R1_def reg_create_def)
  obtain R' where R': "reclaim_regs addr fs R2 = (map addr fs, R')" "regs_ok R'" "queue_ok ((bs @ [addr f]) @ map addr fs) claimed R'"
      "ready R' = ready R2" "fd_count R' = fd_count R2" "\<forall>g \<in> set fs. fut R' (addr g) = g" "\<forall>b. b \<notin> addr ` set fs \<longrightarrow> regs R' b = regs R2 b"
    using Cons.IH [OF R2(1) q2 _ sl(1) _ sl(2)] Cons.prems(3,5) by auto
  have fu: "fut R2 (addr f) = f" and rg: "b \<noteq> addr f \<Longrightarrow> regs R2 b = regs R b" for b by (simp_all add: R2_def R1_def reg_create_def fut_def)
  have "addr f \<notin> addr ` set fs" using na by (metis imageE)
  then show ?case using R' fu rg rd by (auto simp: Let_def R2_def R1_def fut_def)
qed simp

lemma fut_inj: "regs_ok R \<Longrightarrow> inj_on (fut R) (dom (regs R))"
  by (intro inj_onI) (metis domD option.inject regs_okD(3,4))

lemma plain_futures_facts:
  assumes "regs_ok R" and "distinct as" and "set as \<subseteq> dom (regs R)"
  shows "distinct (plain_futures R as)" and "set (plain_futures R as) \<subseteq> fut R ` set as"
proof -
  have "inj_on (fut R) (set (filter (\<lambda>a. \<not> callback_of R a) as))"
    using assms(3) by (intro inj_on_subset [OF fut_inj [OF assms(1)]]) auto
  then show "distinct (plain_futures R as)" using assms(2) by (simp add: plain_futures_def distinct_map)
qed (auto simp: plain_futures_def)

lemma map_fut_cong: "(\<And>a. a \<in> set as \<Longrightarrow> regs R' a = regs R a) \<Longrightarrow> map (fut R') as = map (fut R) as"
  by (simp add: fut_def)

text \<open>The futures collected before a throwing callback, registered again.\<close>

lemma reclaimed_ok:
  assumes R: "regs_ok R" and q: "queue_ok [] claimed R" and addr: "inj addr" "\<And>f. f \<in> set fs \<Longrightarrow> regs R (addr f) = None"
    and fs: "distinct fs" "\<And>f. f \<in> set fs \<Longrightarrow> slot R f = None"
  shows "\<exists>R'. reclaim_regs addr fs R = (map addr fs, R') \<and> regs_ok R' \<and> queue_ok (map addr fs) claimed R' \<and>
    map (fut R') (map addr fs @ ready R') = fs @ map (fut R) (ready R) \<and>
    fd_count R' = fd_count R \<and> (\<forall>b r. \<not> enqueued r \<longrightarrow> regs R' b = Some r \<longleftrightarrow> regs R b = Some r)"
proof -
  have "inj_on addr (set fs)" using addr(1) by (rule inj_on_subset) simp
  then obtain R' where R': "reclaim_regs addr fs R = (map addr fs, R')" "regs_ok R'" "queue_ok ([] @ map addr fs) claimed R'"
      "ready R' = ready R" "\<forall>f \<in> set fs. fut R' (addr f) = f" "fd_count R' = fd_count R" "\<forall>b. b \<notin> addr ` set fs \<longrightarrow> regs R' b = regs R b"
    using reclaim_regs_ok [of R "[]" claimed fs addr, OF R q fs] addr(2) by blast
  have "b \<notin> addr ` set fs" if "b \<in> set (ready R)" for b
    using that q addr(2) unfolding queue_ok_def by (metis UnCI append_Nil2 imageE option.distinct(1))
  then have "map (fut R') (ready R') = map (fut R) (ready R)" using R'(4,7) by (simp add: fut_def)
  moreover have "map (fut R') (map addr fs) = fs" using R'(5) by (simp add: map_idI)
  moreover have "regs R' b = Some r \<longleftrightarrow> regs R b = Some r" if "\<not> enqueued r" for b r
  proof (cases "b \<in> addr ` set fs")
    case True
    then have "b \<in> set (ready R' @ [] @ map addr fs) \<union> claimed" by auto
    then have "regs R' b \<noteq> Some r" using R'(3) that unfolding queue_ok_def by (metis append_Nil option.inject)
    then show ?thesis using True addr(2) by auto
  qed (simp add: R'(7))
  ultimately show ?thesis using R' by simp
qed

lemma poll_batch_ok:
  fixes limit :: nat and throwing :: "nat \<Rightarrow> bool"
  assumes R: "regs_ok R" and q: "queue_ok batch claimed R" and addr: "inj addr" "\<And>f. regs R (addr f) = None"
  defines "k \<equiv> consumed_count (stops R True throwing) limit 0 batch"
  shows "\<exists>P. poll_batch throwing addr limit batch R = Ret P \<and> p_called P = called_futures R (take k batch) \<and>
    regs_ok (p_reactor P) \<and> queue_ok [] claimed (p_reactor P) \<and>
    (let waiting = map (fut (p_reactor P)) (ready (p_reactor P)); collected = plain_futures R (take k batch); rest = map (fut R) (drop k batch @ ready R)
     in if 0 < k \<and> stops R True throwing (batch ! (k - 1)) then p_result P = None \<and> waiting = collected @ rest
        else p_result P = Some collected \<and> waiting = rest) \<and>
    (length (ready R) < length (ready (p_reactor P)) \<longrightarrow> 0 < fd_count (p_reactor P)) \<and> fd_count R \<le> fd_count (p_reactor P) \<and>
    (\<forall>b r. \<not> enqueued r \<longrightarrow> regs (p_reactor P) b = Some r \<longleftrightarrow> regs R b = Some r)"
proof -
  let ?C = "\<lparr>c_reactor = R, c_rest = [], c_out = [], c_called = [], c_exception = False\<rparr>"
  obtain C where C: "reactor_consume True throwing limit 0 batch ?C = Ret C" "regs_ok (c_reactor C)" "queue_ok (drop k batch) claimed (c_reactor C)"
      "c_rest C = drop k batch" "ready (c_reactor C) = ready R" "fd_count (c_reactor C) = fd_count R"
      "\<And>b. regs (c_reactor C) b = (if b \<in> set (take k batch) then None else regs R b)"
      "\<And>f. slot (c_reactor C) f = (if f \<in> fut R ` set (take k batch) then None else slot R f)"
      "c_called C = called_futures R (take k batch)" "c_out C = plain_futures R (take k batch)"
      "c_exception C \<longleftrightarrow> 0 < k \<and> stops R True throwing (batch ! (k - 1))"
    using consume_ok [of ?C batch claimed True throwing limit 0, unfolded consumes_def consumed.simps Let_def if_True append_Nil, OF R q, folded k_def] by blast
  have db: "distinct batch" "set batch \<subseteq> dom (regs R)" "set batch \<inter> set (ready R) = {}" using q unfolding queue_ok_def by auto
  have "set (take k batch) \<inter> set (drop k batch) = {}" using db(1) by (metis append_take_drop_id distinct_append)
  then have same: "map (fut (c_reactor C)) (drop k batch @ ready R) = map (fut R) (drop k batch @ ready R)"
    using C(7) db(3) set_take_subset [of k batch] by (intro map_fut_cong) auto
  define R1 where "R1 = (if drop k batch \<noteq> [] then reactor_requeue (drop k batch) (c_reactor C) else c_reactor C)"
  note rq = requeue_ok [OF C(2,3)]
  have R1: "regs_ok R1" "queue_ok [] claimed R1" "fut R1 = fut (c_reactor C)" "ready R1 = drop k batch @ ready R"
    "regs R1 = regs (c_reactor C)" "slot R1 = slot (c_reactor C)" "drop k batch \<noteq> [] \<Longrightarrow> 0 < fd_count R1"
  proof -
    show "queue_ok [] claimed R1" using C(3) rq(2) by (cases "drop k batch") (simp_all add: R1_def)
  qed (use C(2,5) rq in \<open>simp_all add: R1_def\<close>, simp_all add: reactor_requeue_def)
  have poll: "poll_batch throwing addr limit batch R =
      Ret (if c_exception C then \<lparr>p_reactor = (if c_out C \<noteq> [] then reactor_reclaim addr (c_out C) R1 else R1), p_result = None, p_called = c_called C\<rparr>
           else \<lparr>p_reactor = R1, p_result = Some (c_out C), p_called = c_called C\<rparr>)"
    by (simp add: poll_batch_def C(1,4) R1_def Let_def)
  have wake: "length (ready R) < length (ready R1) \<longrightarrow> 0 < fd_count R1" using R1(4,7) by (cases "drop k batch") simp_all
  have fd1: "fd_count R \<le> fd_count R1" using C(6) by (simp add: R1_def reactor_requeue_def)
  have pend: "regs R1 b = Some r \<longleftrightarrow> regs R b = Some r" if "\<not> enqueued r" for b r
  proof -
    have "b \<in> set (take k batch) \<Longrightarrow> regs R b \<noteq> Some r"
      using q that set_take_subset [of k batch] unfolding queue_ok_def by (metis UnCI set_append subsetD option.inject)
    then show ?thesis by (auto simp: R1(5) C(7))
  qed
  have w1: "map (fut R1) (ready R1) = map (fut R) (drop k batch @ ready R)" using R1(3,4) same by simp
  show ?thesis
  proof (cases "c_exception C")
    case False
    then show ?thesis using R1(1,2) wake w1 fd1 pend unfolding C(9-11) [symmetric] by (simp add: poll)
  next
    case True
    have "set (take k batch) \<subseteq> dom (regs R)" by (rule order_trans [OF set_take_subset db(2)])
    note pf = plain_futures_facts [OF R distinct_take [OF db(1)] this]
    have "\<exists>R2. reclaim_regs addr (c_out C) R1 = (map addr (c_out C), R2) \<and> regs_ok R2 \<and> queue_ok (map addr (c_out C)) claimed R2 \<and>
        map (fut R2) (map addr (c_out C) @ ready R2) = c_out C @ map (fut R) (drop k batch @ ready R) \<and>
        fd_count R2 = fd_count R1 \<and> (\<forall>b r. \<not> enqueued r \<longrightarrow> regs R2 b = Some r \<longleftrightarrow> regs R1 b = Some r)"
    proof -
      have "regs R1 (addr f) = None" "f \<in> set (c_out C) \<Longrightarrow> slot R1 f = None" for f
        using pf(2) addr(2) by (auto simp: R1(5,6) C(7,8,10))
      moreover have "distinct (c_out C)" using pf(1) by (simp add: C(10))
      ultimately show ?thesis using reclaimed_ok [OF R1(1,2) addr(1), of "c_out C"] w1 by simp
    qed
    then obtain R2 where R2: "reclaim_regs addr (c_out C) R1 = (map addr (c_out C), R2)" "regs_ok R2" "queue_ok (map addr (c_out C)) claimed R2"
        "map (fut R2) (map addr (c_out C) @ ready R2) = c_out C @ map (fut R) (drop k batch @ ready R)"
        "fd_count R2 = fd_count R1" "\<And>b r. \<not> enqueued r \<Longrightarrow> regs R2 b = Some r \<longleftrightarrow> regs R1 b = Some r" by blast
    show ?thesis
    proof (cases "c_out C = []")
      case True
      then show ?thesis using R1(1,2) wake w1 fd1 pend \<open>c_exception C\<close> unfolding C(9-11) [symmetric] by (simp add: poll)
    next
      case False
      have "reactor_reclaim addr (c_out C) R1 = reactor_requeue (map addr (c_out C)) R2"
        using False R2(1) by (simp add: reactor_reclaim_def)
      moreover have "fd_count R \<le> fd_count (reactor_requeue (map addr (c_out C)) R2)" "regs (reactor_requeue (map addr (c_out C)) R2) = regs R2"
        using fd1 R2(5) by (simp_all add: reactor_requeue_def)
      ultimately show ?thesis
        using pend R2(6) False \<open>c_exception C\<close> requeue_ok [OF R2(2,3)] R2(4) unfolding C(9-11) [symmetric] by (simp add: poll)
    qed
  qed
qed

lemma consumed_count_limit: "taken \<le> limit \<Longrightarrow> 0 < limit \<Longrightarrow> consumed_count stop limit taken as + taken \<le> limit"
proof (induction as arbitrary: taken)
  case (Cons a as)
  then show ?case using Cons.IH [of "taken + 1"] by auto
qed simp

section \<open>Property\<close>

lemma poll_parts:
  fixes n :: int and throwing :: "nat \<Rightarrow> bool"
  assumes R: "regs_ok R" and q: "queue_ok bs cl R" and addr: "inj addr" "\<And>f. regs R (addr f) = None"
    and n: "1 \<le> n" and limit: "poll_max (Some n) = Ret limit"
  defines "k \<equiv> consumed_count (stops R True throwing) limit 0 bs"
  shows "\<exists>P. poll_batch throwing addr limit bs R = Ret P \<and> p_called P = called_futures R (take k bs) \<and>
    regs_ok (p_reactor P) \<and> queue_ok [] cl (p_reactor P) \<and>
    (let waiting = map (fut (p_reactor P)) (ready (p_reactor P)); collected = plain_futures R (take k bs); rest = map (fut R) (drop k bs @ ready R)
     in if 0 < k \<and> stops R True throwing (bs ! (k - 1)) then p_result P = None \<and> waiting = collected @ rest
        else p_result P = Some collected \<and> waiting = rest) \<and>
    (length (ready R) < length (ready (p_reactor P)) \<longrightarrow> 0 < fd_count (p_reactor P))"
    and "n < 2 ^ 32 \<Longrightarrow> int limit = n \<and> int k \<le> n" and "n = 2 ^ 32 \<Longrightarrow> limit = 0"
proof -
  show "\<exists>P. poll_batch throwing addr limit bs R = Ret P \<and> p_called P = called_futures R (take k bs) \<and>
    regs_ok (p_reactor P) \<and> queue_ok [] cl (p_reactor P) \<and>
    (let waiting = map (fut (p_reactor P)) (ready (p_reactor P)); collected = plain_futures R (take k bs); rest = map (fut R) (drop k bs @ ready R)
     in if 0 < k \<and> stops R True throwing (bs ! (k - 1)) then p_result P = None \<and> waiting = collected @ rest
        else p_result P = Some collected \<and> waiting = rest) \<and>
    (length (ready R) < length (ready (p_reactor P)) \<longrightarrow> 0 < fd_count (p_reactor P))"
    using poll_batch_ok [OF R q addr, of throwing limit] unfolding k_def by blast
  have lim: "limit = nat (n mod 2 ^ 32)" using limit n by (simp add: poll_max_def cast_u_def take_bit_eq_mod)
  then show "n = 2 ^ 32 \<Longrightarrow> limit = 0" by simp
  show "int limit = n \<and> int k \<le> n" if "n < 2 ^ 32"
  proof -
    have l: "int limit = n" "0 < limit" using lim that n by simp_all
    then show ?thesis using consumed_count_limit [of 0 limit "stops R True throwing" bs] by (simp add: k_def)
  qed
qed


text \<open>Two completed futures, 5 without and 6 with a callback, taken as a batch.\<close>

definition example_reactor :: reactor where
  "example_reactor =
     \<lparr>regs = [0 \<mapsto> \<lparr>reg_refcount = 2, enqueued = True, future_obj = 5, has_fcc = False\<rparr>,
              1 \<mapsto> \<lparr>reg_refcount = 2, enqueued = True, future_obj = 6, has_fcc = True\<rparr>],
      ready = [], registered = [1, 0], pending = 2, refcount = 3, fd_count = 0, pins = {#5, 6#}, slot = [5 \<mapsto> 0, 6 \<mapsto> 1]\<rparr>"

lemma example_reactor_ok: "regs_ok example_reactor" "queue_ok [0, 1] {} example_reactor"
  by (auto simp: example_reactor_def regs_ok_def queue_ok_def fut_def split: if_splits)


end
