(* ===== verification/ReactorWorld.thy ===== *)
theory ReactorWorld
  imports Reactor
begin

text \<open>
  The reactor of \<^verbatim>\<open>src/Async/Reactor.c\<close> among the driver's IO threads: a step relation with one
  rule per atomic step of \<^verbatim>\<open>add\<close>, \<^verbatim>\<open>poll\<close> and the completion callback, its invariant, and
  the loop that empties the reactor at shutdown, with the IO threads' steps as a schedule.
\<close>

section \<open>The reactor among the driver's threads\<close>

text \<open>
  The main thread is at one place of the code; the driver's IO threads call the completion callback of
  each armed record once. \<open>armed\<close> holds the records whose callback is still to come, \<open>claimed\<close>
  those between the claim and the push of \<^verbatim>\<open>reg_enqueue\<close> on an IO thread, \<open>resolved\<close> the
  futures for which \<^verbatim>\<open>cass_future_ready\<close> is true, \<open>watched\<close> those with a descriptor of
  their own. The recheck of \<^verbatim>\<open>add\<close> runs on the thread that also consumes, so its claim and push
  are one step; so are consuming a batch and putting back the rest.
\<close>

datatype pc = Idle | Recheck nat | Drained nat | Spliced nat "nat list"

record world =
  rx :: reactor
  armed :: "nat set"
  claimed :: "nat set"
  resolved :: "nat set"
  watched :: "nat set"
  pc :: pc

definition batch :: "world \<Rightarrow> nat list" where
  "batch w = (case pc w of Spliced _ as \<Rightarrow> as | _ \<Rightarrow> [])"

definition world_start :: "nat set \<Rightarrow> nat set \<Rightarrow> world" where
  "world_start F W = \<lparr>rx = php_scylladb_reactor_create, armed = {}, claimed = {}, resolved = F, watched = W, pc = Idle\<rparr>"

text \<open>One future belongs to one notification model.\<close>

definition php_scylladb_future_claim_reactor :: "nat \<Rightarrow> world \<Rightarrow> unit outcome" where
  "php_scylladb_future_claim_reactor f w =
     (if slot (rx w) f \<noteq> None then Throw (Exn RuntimeException ''already registered with the reactor'')
      else if f \<in> watched w then Throw (Exn RuntimeException ''already exposes a per-future descriptor'')
      else Ret ())"

text \<open>What \<^verbatim>\<open>add\<close> meets: a future without driver future, a refused callback, an accepted one.\<close>

datatype callback = No_future | Refused | Accepted

definition reactor_enqueue :: "nat \<Rightarrow> world \<Rightarrow> world outcome" where
  "reactor_enqueue a w = bind_outcome (reg_enqueue a (rx w)) (\<lambda>R. Ret (w\<lparr>rx := R\<rparr>))"

definition add_rollback :: "nat \<Rightarrow> nat \<Rightarrow> reactor \<Rightarrow> reactor outcome" where
  "add_rollback a f R =
     (let R = reg_unregister a (R\<lparr>slot := (slot R)(f := None)\<rparr>)
      in reg_release a (R\<lparr>pins := pins R - {#f#}\<rparr>))"

text \<open>
  \<^verbatim>\<open>add\<close>: the new world and the message of the exception. For a resolved future the driver runs
  the callback inside \<^verbatim>\<open>cass_future_set_callback\<close>. The address of the record is an argument.
\<close>

definition reactor_add :: "nat \<Rightarrow> nat \<Rightarrow> bool \<Rightarrow> callback \<Rightarrow> world \<Rightarrow> (exn option \<times> world) outcome" where
  "reactor_add a f fcc cb w =
     (case php_scylladb_future_claim_reactor f w of
        Throw e \<Rightarrow> Ret (Some e, w)
      | UB \<Rightarrow> UB
      | Ret _ \<Rightarrow>
          let w = w\<lparr>rx := reg_create a f fcc (rx w)\<rparr> in
          case cb of
            No_future \<Rightarrow> bind_outcome (reactor_enqueue a w) (\<lambda>w. Ret (None, w))
          | Refused \<Rightarrow>
              if f \<in> resolved w then bind_outcome (reactor_enqueue a w) (\<lambda>w. Ret (None, w))
              else bind_outcome (add_rollback a f (rx w)) (\<lambda>R.
                Ret (Some (Exn RuntimeException ''Failed to register the async completion callback''), w\<lparr>rx := R\<rparr>))
          | Accepted \<Rightarrow>
              if f \<in> resolved w then bind_outcome (reactor_enqueue a w) (\<lambda>w. Ret (None, w\<lparr>pc := Recheck a\<rparr>))
              else Ret (None, w\<lparr>armed := insert a (armed w), pc := Recheck a\<rparr>))"

text \<open>The end of \<^verbatim>\<open>add\<close>: a future that is ready by now is enqueued.\<close>

definition add_recheck :: "nat \<Rightarrow> world \<Rightarrow> world outcome" where
  "add_recheck a w =
     (case regs (rx w) a of
        None \<Rightarrow> UB
      | Some r \<Rightarrow>
          bind_outcome (if future_obj r \<in> resolved w then reactor_enqueue a w else Ret w) (\<lambda>w. Ret (w\<lparr>pc := Idle\<rparr>)))"

text \<open>The callback on an IO thread, \<^verbatim>\<open>reactor_cb\<close>, in its two atomic parts.\<close>

definition reactor_cb :: "nat \<Rightarrow> world \<Rightarrow> world outcome" where
  "reactor_cb a w =
     bind_outcome (claim_push a (rx w)) (\<lambda>(won, R).
       Ret (w\<lparr>rx := R, armed := armed w - {a}, claimed := (if won then insert a (claimed w) else claimed w)\<rparr>))"

definition reactor_cb_push :: "nat \<Rightarrow> world \<Rightarrow> world" where
  "reactor_cb_push a w = w\<lparr>rx := push_ready a (rx w), claimed := claimed w - {a}\<rparr>"

text \<open>
  The steps. \<open>late\<close> says whether the driver may report a future ready before it has called back.
\<close>

inductive step :: "bool \<Rightarrow> world \<Rightarrow> world outcome \<Rightarrow> bool" for late where
  add: "pc w = Idle \<Longrightarrow> regs (rx w) a = None \<Longrightarrow> a \<notin> armed w \<Longrightarrow>
    step late w (bind_outcome (reactor_add a f fcc cb w) (\<lambda>x. Ret (snd x)))"
| recheck: "pc w = Recheck a \<Longrightarrow> step late w (add_recheck a w)"
| resolve: "late \<or> (\<forall>a \<in> armed w. fut (rx w) a \<noteq> f) \<Longrightarrow> step late w (Ret (w\<lparr>resolved := insert f (resolved w)\<rparr>))"
| callback: "a \<in> armed w \<Longrightarrow> step late w (reactor_cb a w)"
| push: "a \<in> claimed w \<Longrightarrow> step late w (Ret (reactor_cb_push a w))"
| drain: "pc w = Idle \<Longrightarrow> poll_max n = Ret limit \<Longrightarrow> step late w (Ret (w\<lparr>rx := notifier_drain (rx w), pc := Drained limit\<rparr>))"
| splice: "pc w = Drained limit \<Longrightarrow>
    step late w (Ret (let (as, R) = reactor_splice (rx w) in w\<lparr>rx := R, pc := Spliced limit as\<rparr>))"
| deliver: "pc w = Spliced limit as \<Longrightarrow> inj addr \<Longrightarrow> \<forall>f. regs (rx w) (addr f) = None \<and> addr f \<notin> armed w \<Longrightarrow>
    step late w (bind_outcome (poll_batch throwing addr limit as (rx w)) (\<lambda>P. Ret (w\<lparr>rx := p_reactor P, pc := Idle\<rparr>)))"

inductive reachable :: "bool \<Rightarrow> nat set \<Rightarrow> nat set \<Rightarrow> world \<Rightarrow> bool" for late F W where
  start: "reachable late F W (world_start F W)"
| step: "reachable late F W w \<Longrightarrow> step late w (Ret w') \<Longrightarrow> reachable late F W w'"

text \<open>
  The invariant: records and queue are consistent, a record that is not enqueued has its callback still
  to come, an armed record is not enqueued and its future not resolved, and a non-empty ready list is
  signalled, unless the main thread is about to take it.
\<close>

definition world_inv :: "world \<Rightarrow> bool" where
  "world_inv w \<longleftrightarrow>
     regs_ok (rx w) \<and> queue_ok (batch w) (claimed w) (rx w) \<and>
     (\<forall>a. a \<in> armed w \<longleftrightarrow> (\<exists>r. regs (rx w) a = Some r \<and> \<not> enqueued r)) \<and>
     (\<forall>a \<in> armed w. fut (rx w) a \<notin> resolved w) \<and>
     (\<forall>a. pc w = Recheck a \<longrightarrow> regs (rx w) a \<noteq> None) \<and>
     (ready (rx w) \<noteq> [] \<longrightarrow> 0 < fd_count (rx w) \<or> (\<exists>l. pc w = Drained l))"

lemma world_invD:
  assumes "world_inv w"
  shows "regs_ok (rx w)" and "queue_ok (batch w) (claimed w) (rx w)"
    and "a \<in> armed w \<longleftrightarrow> (\<exists>r. regs (rx w) a = Some r \<and> \<not> enqueued r)" and "a \<in> armed w \<Longrightarrow> fut (rx w) a \<notin> resolved w"
    and "pc w = Recheck a \<Longrightarrow> regs (rx w) a \<noteq> None" and "ready (rx w) \<noteq> [] \<Longrightarrow> 0 < fd_count (rx w) \<or> (\<exists>l. pc w = Drained l)"
  using assms by (simp_all add: world_inv_def)

text \<open>An outcome that is defined and keeps the invariant.\<close>

definition good :: "world outcome \<Rightarrow> bool" where
  "good x \<longleftrightarrow> (\<exists>w. x = Ret w \<and> world_inv w)"

lemma goodI: "x = Ret w \<Longrightarrow> world_inv w \<Longrightarrow> good x"
  by (simp add: good_def)

lemma start_inv: "world_inv (world_start F W)"
  by (simp add: world_inv_def world_start_def batch_def create_ok) (simp add: php_scylladb_reactor_create_def)

subsection \<open>Each handler keeps the invariant\<close>

lemma enqueue_new:
  assumes R: "regs_ok R" and q: "queue_ok b c R" and a: "regs R a = Some r" and e: "\<not> enqueued r"
  shows "\<exists>R'. reg_enqueue a R = Ret R' \<and> regs_ok R' \<and> queue_ok b c R' \<and> regs R' = (regs R)(a \<mapsto> r\<lparr>enqueued := True\<rparr>) \<and>
    0 < fd_count R'"
proof -
  obtain R' where R': "claim_push a R = Ret (True, R')" "regs_ok R'" "queue_ok b (insert a c) R'" "regs R' = (regs R)(a \<mapsto> r\<lparr>enqueued := True\<rparr>)"
    using claim_push_ok(2) [OF R q a e] by blast
  have "a \<notin> c" using q a e unfolding queue_ok_def by (metis UnCI option.inject)
  then show ?thesis
    using push_ready_ok [OF R'(2,3)] R' by (simp add: reg_enqueue_def) (simp add: push_ready_def)
qed

lemma fut_upd: "regs R' = (regs R)(a \<mapsto> r\<lparr>enqueued := e\<rparr>) \<Longrightarrow> regs R a = Some r \<Longrightarrow> fut R' b = fut R b"
  by (simp add: fut_def)

lemma rollback_undoes:
  assumes "regs R a = None" and "slot R f = None"
  shows "add_rollback a f (reg_create a f fcc R) = Ret R"
proof -
  have "(regs R)(a := None) = regs R" "(slot R)(f := None) = slot R" using assms by (simp_all add: fun_upd_idem)
  then show ?thesis by (simp add: add_rollback_def reg_create_def reg_unregister_def reg_release_def Let_def)
qed

lemma add_enqueue_ok:
  assumes w: "world_inv w" and pc: "pc w = Idle" and a: "regs (rx w) a = None" and f: "slot (rx w) f = None"
  shows "\<exists>w'. reactor_enqueue a (w\<lparr>rx := reg_create a f fcc (rx w)\<rparr>) = Ret w' \<and> world_inv w' \<and> world_inv (w'\<lparr>pc := Recheck a\<rparr>)"
proof -
  note D = world_invD [OF w]
  let ?R = "reg_create a f fcc (rx w)" and ?r = "\<lparr>reg_refcount = 2, enqueued = False, future_obj = f, has_fcc = fcc\<rparr>"
  have r: "regs ?R = (regs (rx w))(a \<mapsto> ?r)" by (simp add: reg_create_def)
  note cr = reg_create_ok [OF D(1) D(2) a f, of fcc]
  obtain R' where R': "reg_enqueue a ?R = Ret R'" "regs_ok R'" "queue_ok (batch w) (claimed w) R'" "0 < fd_count R'"
      "regs R' = (regs ?R)(a \<mapsto> ?r\<lparr>enqueued := True\<rparr>)"
    using enqueue_new [OF cr, of a ?r] by (auto simp: r)
  have "a \<notin> armed w" using D(3) [of a] a by simp
  then have "b \<in> armed w \<longleftrightarrow> (\<exists>r. regs R' b = Some r \<and> \<not> enqueued r)" "b \<in> armed w \<Longrightarrow> fut R' b = fut (rx w) b" for b
    using D(3) [of b] a by (auto simp: R'(5) r fut_def)
  then show ?thesis
    using R' D(4) pc by (simp add: reactor_enqueue_def world_inv_def batch_def r)
qed

lemma add_ok:
  assumes w: "world_inv w" and pc: "pc w = Idle" and a: "regs (rx w) a = None"
  shows "\<exists>x. reactor_add a f fcc cb w = Ret x \<and> world_inv (snd x)"
proof (cases "php_scylladb_future_claim_reactor f w")
  case (Ret u)
  then have f: "slot (rx w) f = None" by (auto simp: php_scylladb_future_claim_reactor_def split: if_splits)
  note enq = add_enqueue_ok [OF w pc a f, of fcc] and D = world_invD [OF w]
  note cr = reg_create_ok [OF D(1) D(2) a f, of fcc]
  have na: "a \<notin> armed w" using D(3) [of a] a by simp
  have "world_inv (w\<lparr>rx := reg_create a f fcc (rx w), armed := insert a (armed w), pc := Recheck a\<rparr>)" if "f \<notin> resolved w"
  proof -
    have "regs (reg_create a f fcc (rx w)) b = (if b = a then Some \<lparr>reg_refcount = 2, enqueued = False, future_obj = f, has_fcc = fcc\<rparr> else regs (rx w) b)"
      "fut (reg_create a f fcc (rx w)) b = (if b = a then f else fut (rx w) b)" for b by (simp_all add: reg_create_def fut_def)
    moreover have "ready (reg_create a f fcc (rx w)) = ready (rx w)" "fd_count (reg_create a f fcc (rx w)) = fd_count (rx w)"
      by (simp_all add: reg_create_def)
    ultimately show ?thesis
      using cr D(3,4,6) na that pc by (simp add: world_inv_def batch_def)
  qed
  then show ?thesis
    using enq Ret w rollback_undoes [OF a f] by (cases cb) (auto simp: reactor_add_def Let_def)
next
  case (Throw e)
  then show ?thesis using w by (simp add: reactor_add_def)
qed (simp add: php_scylladb_future_claim_reactor_def split: if_splits)

lemma recheck_ok:
  assumes w: "world_inv w" and pc: "pc w = Recheck a"
  shows "good (add_recheck a w)"
proof -
  note D = world_invD [OF w]
  obtain r where r: "regs (rx w) a = Some r" using D(5) [OF pc] by blast
  have "future_obj r \<in> resolved w \<Longrightarrow> enqueued r"
    using D(3,4) [of a] r by (auto simp: fut_def)
  then have "add_recheck a w = Ret (w\<lparr>pc := Idle\<rparr>)"
    using r by (simp add: add_recheck_def reactor_enqueue_def reg_enqueue_def claim_push_def)
  moreover have "world_inv (w\<lparr>pc := Idle\<rparr>)" using w pc by (simp add: world_inv_def batch_def)
  ultimately show ?thesis by (simp add: good_def)
qed

lemma callback_ok:
  assumes w: "world_inv w" and a: "a \<in> armed w"
  shows "\<exists>w'. reactor_cb a w = Ret w' \<and> world_inv w' \<and> armed w' = armed w - {a} \<and> claimed w' = insert a (claimed w) \<and> pc w' = pc w"
proof -
  note D = world_invD [OF w]
  obtain r where r: "regs (rx w) a = Some r" "\<not> enqueued r" using D(3) a by blast
  obtain R' where R': "claim_push a (rx w) = Ret (True, R')" "regs_ok R'" "queue_ok (batch w) (insert a (claimed w)) R'"
      "ready R' = ready (rx w)" "fd_count R' = fd_count (rx w)" "regs R' = (regs (rx w))(a \<mapsto> r\<lparr>enqueued := True\<rparr>)"
    using claim_push_ok(2) [OF D(1,2) r] by blast
  have "b \<in> armed w - {a} \<longleftrightarrow> (\<exists>r. regs R' b = Some r \<and> \<not> enqueued r)" "fut R' b = fut (rx w) b" "regs R' b = None \<longleftrightarrow> regs (rx w) b = None" for b
    using D(3) [of b] r by (auto simp: R'(6) fut_def)
  then show ?thesis
    using R' D(4,5,6) by (simp add: reactor_cb_def world_inv_def batch_def) blast
qed

lemma push_ok:
  assumes w: "world_inv w" and a: "a \<in> claimed w"
  shows "world_inv (reactor_cb_push a w)"
proof -
  note D = world_invD [OF w]
  have "queue_ok (batch w) (insert a (claimed w - {a})) (rx w)" using D(2) a by (simp add: insert_absorb)
  note p = push_ready_ok [OF D(1) this]
  have "fut (push_ready a (rx w)) = fut (rx w)" by (rule ext) (simp add: fut_def push_ready_def)
  then show ?thesis
    using p D(3-6) by (simp add: reactor_cb_push_def world_inv_def batch_def) (simp add: push_ready_def)
qed

lemma resolve_ok: "world_inv w \<Longrightarrow> \<forall>a \<in> armed w. fut (rx w) a \<noteq> f \<Longrightarrow> world_inv (w\<lparr>resolved := insert f (resolved w)\<rparr>)"
  by (simp add: world_inv_def batch_def)

lemma fd_only:
  assumes "regs R' = regs R" "registered R' = registered R" "pending R' = pending R" "refcount R' = refcount R" "pins R' = pins R" "slot R' = slot R"
  shows "regs_ok R' = regs_ok R" and "fut R' = fut R"
proof -
  show "fut R' = fut R" using assms by (simp add: fut_def fun_eq_iff)
  then show "regs_ok R' = regs_ok R" using assms by (simp add: regs_ok_def)
qed

lemma drain_ok:
  assumes w: "world_inv w" and pc: "pc w = Idle"
  shows "world_inv (w\<lparr>rx := notifier_drain (rx w), pc := Drained limit\<rparr>)"
proof -
  note f = fd_only [of "notifier_drain (rx w)" "rx w"]
  show ?thesis using w pc f unfolding world_inv_def by (simp add: notifier_drain_def batch_def queue_ok_def)
qed

lemma splice_ok:
  assumes w: "world_inv w" and pc: "pc w = Drained limit"
  shows "world_inv (w\<lparr>rx := (rx w)\<lparr>ready := []\<rparr>, pc := Spliced limit (ready (rx w))\<rparr>)"
proof -
  note f = fd_only [of "(rx w)\<lparr>ready := []\<rparr>" "rx w"]
  show ?thesis using w pc f unfolding world_inv_def by (simp add: batch_def queue_ok_def)
qed

lemma deliver_ok:
  assumes w: "world_inv w" and pc: "pc w = Spliced limit as" and addr: "inj addr" "\<forall>f. regs (rx w) (addr f) = None \<and> addr f \<notin> armed w"
  shows "good (bind_outcome (poll_batch throwing addr limit as (rx w)) (\<lambda>P. Ret (w\<lparr>rx := p_reactor P, pc := Idle\<rparr>)))"
proof -
  note D = world_invD [OF w]
  have b: "batch w = as" using pc by (simp add: batch_def)
  obtain P where P: "poll_batch throwing addr limit as (rx w) = Ret P" "regs_ok (p_reactor P)" "queue_ok [] (claimed w) (p_reactor P)"
      "length (ready (rx w)) < length (ready (p_reactor P)) \<longrightarrow> 0 < fd_count (p_reactor P)" "fd_count (rx w) \<le> fd_count (p_reactor P)"
      "\<And>b r. \<not> enqueued r \<Longrightarrow> regs (p_reactor P) b = Some r \<longleftrightarrow> regs (rx w) b = Some r"
    using poll_batch_ok [OF D(1) D(2) addr(1), of throwing limit] addr(2) unfolding b by blast
  have wake: "ready (p_reactor P) \<noteq> [] \<Longrightarrow> 0 < fd_count (p_reactor P)"
    using D(6) pc P(4,5) by (cases "ready (rx w)") auto
  have "b \<in> armed w \<longleftrightarrow> (\<exists>r. regs (p_reactor P) b = Some r \<and> \<not> enqueued r)" for b using D(3) P(6) by metis
  moreover have "b \<in> armed w \<Longrightarrow> fut (p_reactor P) b = fut (rx w) b" for b using D(3) P(6) by (metis fut_def)
  ultimately show ?thesis
    using P(1-3) wake D(4) by (simp add: good_def world_inv_def batch_def)
qed

lemma world_step_ok:
  assumes "step False w x" and w: "world_inv w"
  shows "good x"
  using assms(1)
proof cases
  case (add a f fcc cb)
  then show ?thesis using add_ok [OF w, of a f fcc cb] by (auto simp: good_def)
next
  case (callback a)
  then show ?thesis using callback_ok [OF w, of a] goodI by metis
next
  case (splice limit)
  then show ?thesis using splice_ok [OF w] by (simp add: good_def reactor_splice_def)
qed (use w recheck_ok resolve_ok push_ok drain_ok deliver_ok in \<open>auto simp: good_def\<close>)

lemma reachable_inv: "reachable False F W w \<Longrightarrow> world_inv w"
  by (induction rule: reachable.induct) (auto simp: start_inv good_def dest: world_step_ok)

subsection \<open>Shutdown\<close>

text \<open>What an IO thread does next: run a callback up to its claim, or push a claimed record.\<close>

datatype io = Fire nat | Push nat

fun io_step :: "io \<Rightarrow> world \<Rightarrow> world outcome" where
  "io_step (Fire a) w = (if a \<in> armed w then reactor_cb a w else Ret w)"
| "io_step (Push a) w = Ret (if a \<in> claimed w then reactor_cb_push a w else w)"

fun io_run :: "io list \<Rightarrow> world \<Rightarrow> world outcome" where
  "io_run [] w = Ret w"
| "io_run (e # es) w = bind_outcome (io_step e w) (io_run es)"

text \<open>
  \<^verbatim>\<open>reactor_drain\<close> among the IO threads: each pass of its loop comes after the next group of their
  steps, and discards what is ready. None: the schedule ended before the loop.
\<close>

fun reactor_drain :: "io list list \<Rightarrow> world \<Rightarrow> world outcome option" where
  "reactor_drain sched w =
     (if registered (rx w) = [] then Some (Ret w)
      else case sched of
        [] \<Rightarrow> None
      | es # rest \<Rightarrow>
          (case io_run es w of
             Ret w \<Rightarrow> (case drain_pass (rx w) of Ret R \<Rightarrow> reactor_drain rest (w\<lparr>rx := R\<rparr>) | Throw e \<Rightarrow> Some (Throw e) | UB \<Rightarrow> Some UB)
           | Throw e \<Rightarrow> Some (Throw e)
           | UB \<Rightarrow> Some UB))"

text \<open>\<^verbatim>\<open>php_scylladb_reactor_reset\<close> and \<^verbatim>\<open>php_scylladb_reactor_destroy\<close>: whether the reactor is freed.\<close>

definition php_scylladb_reactor_reset :: "io list list \<Rightarrow> world \<Rightarrow> world outcome option" where
  "php_scylladb_reactor_reset sched w =
     map_option (\<lambda>x. bind_outcome x (\<lambda>w. Ret (w\<lparr>rx := notifier_drain (rx w)\<rparr>))) (reactor_drain sched w)"

definition php_scylladb_reactor_unref :: "reactor \<Rightarrow> bool \<times> reactor" where
  "php_scylladb_reactor_unref R = (refcount R = 1, R\<lparr>refcount := refcount R - 1\<rparr>)"

definition php_scylladb_reactor_destroy :: "io list list \<Rightarrow> world \<Rightarrow> (bool \<times> world) outcome option" where
  "php_scylladb_reactor_destroy sched w =
     map_option (\<lambda>x. bind_outcome x (\<lambda>w. let (freed, R) = php_scylladb_reactor_unref (rx w) in Ret (freed, w\<lparr>rx := R\<rparr>)))
       (reactor_drain sched w)"

text \<open>The callbacks still to come and the pushes still to come after a sequence of IO steps.\<close>

fun io_left :: "io list \<Rightarrow> nat set \<Rightarrow> nat set \<Rightarrow> nat set \<times> nat set" where
  "io_left [] A C = (A, C)"
| "io_left (Fire a # es) A C = (if a \<in> A then io_left es (A - {a}) (insert a C) else io_left es A C)"
| "io_left (Push a # es) A C = io_left es A (C - {a})"

lemma io_left_append: "io_left (es @ fs) A C = (let (A', C') = io_left es A C in io_left fs A' C')"
  by (induction es A C rule: io_left.induct) auto

lemma io_step_ok:
  assumes "world_inv w"
  shows "\<exists>w'. io_step e w = Ret w' \<and> world_inv w' \<and> pc w' = pc w \<and> io_left [e] (armed w) (claimed w) = (armed w', claimed w')"
proof (cases e)
  case (Fire a)
  then show ?thesis using callback_ok [OF assms, of a] assms by (cases "a \<in> armed w") auto
next
  case (Push a)
  then show ?thesis using push_ok [OF assms, of a] assms by (auto simp: reactor_cb_push_def)
qed

lemma io_run_ok:
  assumes "world_inv w"
  shows "\<exists>w'. io_run es w = Ret w' \<and> world_inv w' \<and> pc w' = pc w \<and> io_left es (armed w) (claimed w) = (armed w', claimed w')"
  using assms
proof (induction es arbitrary: w)
  case (Cons e es)
  obtain w1 where w1: "io_step e w = Ret w1" "world_inv w1" "pc w1 = pc w" "io_left [e] (armed w) (claimed w) = (armed w1, claimed w1)"
    using io_step_ok [OF Cons.prems] by blast
  then show ?case using Cons.IH [OF w1(2)] io_left_append [of "[e]" es] by auto
qed simp

lemma take_all_count: "consumed_count (\<lambda>_. False) 0 n as = length as"
  by (induction as arbitrary: n) auto

text \<open>A pass discards exactly what is ready.\<close>

lemma drain_pass_ok:
  assumes w: "world_inv w" and pc: "pc w = Idle"
  shows "\<exists>R. drain_pass (rx w) = Ret R \<and> world_inv (w\<lparr>rx := R\<rparr>) \<and> registered R = filter (\<lambda>a. a \<notin> set (ready (rx w))) (registered (rx w))"
proof -
  let ?R = "(notifier_drain (rx w))\<lparr>ready := []\<rparr>" and ?as = "ready (rx w)"
  let ?C = "\<lparr>c_reactor = ?R, c_rest = [], c_out = [], c_called = [], c_exception = False\<rparr>"
  have s: "world_inv (w\<lparr>rx := ?R, pc := Spliced 0 ?as\<rparr>)"
    using splice_ok [OF drain_ok [OF w pc, of 0]] by (simp add: notifier_drain_def)
  note D = world_invD [OF s]
  have no: "stops ?R False (\<lambda>_. False) = (\<lambda>_. False)" by (simp add: stops_def fun_eq_iff)
  obtain C where C: "reactor_consume False (\<lambda>_. False) 0 0 ?as ?C = Ret C" "regs_ok (c_reactor C)" "queue_ok [] (claimed w) (c_reactor C)"
      "ready (c_reactor C) = []" "registered (c_reactor C) = filter (\<lambda>b. b \<notin> set ?as) (registered ?R)"
      "\<And>b. regs (c_reactor C) b = (if b \<in> set ?as then None else regs ?R b)"
    using consume_ok [of ?C ?as "claimed w" False "\<lambda>_. False" 0 0] D(1,2)
    by (simp add: batch_def no take_all_count consumes_def Let_def) (metis (no_types, lifting))
  have q: "b \<in> set ?as \<Longrightarrow> \<exists>r. regs (rx w) b = Some r \<and> enqueued r" for b
    using world_invD(2) [OF w] unfolding queue_ok_def by (metis UnCI set_append)
  have "b \<in> armed w \<longleftrightarrow> (\<exists>r. regs (c_reactor C) b = Some r \<and> \<not> enqueued r)" for b
    using world_invD(3) [OF w, of b] q [of b] by (auto simp: C(6) notifier_drain_def)
  moreover have "fut (c_reactor C) b = fut (rx w) b" if "b \<in> armed w" for b
    using that world_invD(3) [OF w, of b] q [of b] by (auto simp: C(6) notifier_drain_def fut_def)
  ultimately have "world_inv (w\<lparr>rx := c_reactor C\<rparr>)"
    using C(2-4) pc world_invD(4) [OF w] by (simp add: world_inv_def batch_def)
  moreover have "registered ?R = registered (rx w)" "ready (notifier_drain (rx w)) = ?as" by (simp_all add: notifier_drain_def)
  ultimately show ?thesis
    using C(1,5) by (simp add: drain_pass_def reactor_splice_def)
qed

text \<open>With no IO step left, a pass empties the reactor.\<close>

lemma quiet_pass:
  assumes w: "world_inv w" and pc: "pc w = Idle" and quiet: "armed w = {}" "claimed w = {}"
  shows "filter (\<lambda>a. a \<notin> set (ready (rx w))) (registered (rx w)) = []"
proof -
  note D = world_invD [OF w]
  have "a \<in> set (ready (rx w))" if reg: "a \<in> set (registered (rx w))" for a
  proof -
    obtain r where r: "regs (rx w) a = Some r" using D(1) reg by (auto simp: regs_ok_def)
    then have "enqueued r" using D(3) [of a] quiet by auto
    then show ?thesis using r D(2) pc quiet unfolding queue_ok_def by (auto simp: batch_def)
  qed
  then show ?thesis by (simp add: filter_empty_conv)
qed

lemma drain_ends:
  assumes "world_inv w" and "pc w = Idle" and "io_left (concat (sched @ [es])) (armed w) (claimed w) = ({}, {})"
  shows "\<exists>w'. reactor_drain (sched @ [es]) w = Some (Ret w') \<and> world_inv w' \<and> registered (rx w') = []"
  using assms
proof (induction "sched @ [es]" arbitrary: sched w)
  case (Cons e rest)
  show ?case
  proof (cases "registered (rx w) = []")
    case False
    obtain w1 where w1: "io_run e w = Ret w1" "world_inv w1" "pc w1 = Idle" "io_left e (armed w) (claimed w) = (armed w1, claimed w1)"
      using io_run_ok [OF Cons.prems(1)] Cons.prems(2) by metis
    obtain R where R: "drain_pass (rx w1) = Ret R" "world_inv (w1\<lparr>rx := R\<rparr>)" "registered R = filter (\<lambda>a. a \<notin> set (ready (rx w1))) (registered (rx w1))"
      using drain_pass_ok [OF w1(2,3)] by blast
    have run: "reactor_drain (e # rest) w = reactor_drain rest (w1\<lparr>rx := R\<rparr>)"
      using False w1(1) R(1) by (simp del: reactor_drain.simps(1) add: reactor_drain.simps [of "e # rest"])
    have left: "io_left (concat rest) (armed w1) (claimed w1) = ({}, {})"
      using Cons.prems(3) w1(4) unfolding Cons.hyps(2) [symmetric] by (simp add: io_left_append)
    show ?thesis
    proof (cases sched)
      case Nil
      then have "registered R = []" using quiet_pass [OF w1(2,3)] left R(3) Cons.hyps(2) by simp
      then show ?thesis using run R(2) unfolding Cons.hyps(2) [symmetric] by simp
    next
      case (Cons e' sched')
      then have "rest = sched' @ [es]" using Cons.hyps(2) by simp
      then show ?thesis
        using Cons.hyps(1) [OF \<open>rest = sched' @ [es]\<close> R(2)] w1(3) left run unfolding Cons.hyps(2) [symmetric] by simp
    qed
  qed (use Cons.prems in simp)
qed simp

text \<open>A future reported ready before its callback: \<^verbatim>\<open>add\<close> enqueues it, it is delivered, its record is freed.\<close>

definition late_world :: "pc \<Rightarrow> reactor \<Rightarrow> nat set \<Rightarrow> world" where
  "late_world p R F = \<lparr>rx = R, armed = {0}, claimed = {}, resolved = F, watched = {}, pc = p\<rparr>"

definition late_added :: reactor where
  "late_added = reg_create 0 0 False php_scylladb_reactor_create"

definition late_queued :: reactor where
  "late_queued = push_ready 0 (late_added\<lparr>regs := (regs late_added)(0 \<mapsto> (the (regs late_added 0))\<lparr>enqueued := True\<rparr>)\<rparr>)"

definition late_end :: reactor where
  "late_end = php_scylladb_reactor_create\<lparr>regs := (regs php_scylladb_reactor_create)(0 := None), slot := (slot php_scylladb_reactor_create)(0 := None)\<rparr>"

lemmas late_defs = late_world_def late_added_def late_queued_def late_end_def php_scylladb_reactor_create_def
  reg_create_def push_ready_def world_start_def

lemma reachable_step: "reachable late F W w \<Longrightarrow> step late w x \<Longrightarrow> x = Ret w' \<Longrightarrow> reachable late F W w'"
  by (simp add: reachable.step)

lemma late_race: "\<exists>w. reachable True {} {} w \<and> step True w UB"
proof -
  have "reachable True {} {} (late_world (Recheck 0) late_added {})"
    by (rule reachable_step [OF reachable.start step.add [of _ 0 _ 0 False Accepted]])
      (simp_all add: late_defs reactor_add_def php_scylladb_future_claim_reactor_def)
  then have "reachable True {} {} (late_world (Recheck 0) late_added {0})"
    by (rule reachable_step [OF _ step.resolve [of _ _ 0]]) (simp_all add: late_defs)
  then have "reachable True {} {} (late_world Idle late_queued {0})"
    by (rule reachable_step [OF _ step.recheck [of _ 0]])
      (simp_all add: late_defs add_recheck_def reactor_enqueue_def reg_enqueue_def claim_push_def)
  then have "reachable True {} {} (late_world (Drained 0) (notifier_drain late_queued) {0})"
    by (rule reachable_step [OF _ step.drain [of _ None 0]]) (simp_all add: late_defs poll_max_def)
  then have "reachable True {} {} (late_world (Spliced 0 [0]) ((notifier_drain late_queued)\<lparr>ready := []\<rparr>) {0})"
    by (rule reachable_step [OF _ step.splice [of _ 0]]) (simp_all add: late_defs reactor_splice_def notifier_drain_def)
  then have "reachable True {} {} (late_world Idle late_end {0})"
    by (rule reachable_step [OF _ step.deliver [of _ 0 "[0]" Suc _ "\<lambda>_. False"]])
      (simp_all add: late_defs notifier_drain_def poll_batch_def consume_one_def reg_unregister_def reg_release_def Let_def)
  moreover have "step True (late_world Idle late_end {0}) (reactor_cb 0 (late_world Idle late_end {0}))"
    by (rule step.callback) (simp add: late_defs)
  moreover have "reactor_cb 0 (late_world Idle late_end {0}) = UB"
    by (simp add: late_defs reactor_cb_def claim_push_def)
  ultimately show ?thesis by metis
qed

section \<open>Properties\<close>

lemma reactor_parts:
  shows "reachable False F W w \<Longrightarrow>
      (\<forall>x. step False w x \<longrightarrow> (\<exists>w'. x = Ret w')) \<and> regs_ok (rx w) \<and> queue_ok (batch w) (claimed w) (rx w) \<and>
      (\<forall>a \<in> set (registered (rx w)). a \<in> set (ready (rx w) @ batch w) \<union> claimed w \<or> a \<in> armed w) \<and>
      (pc w = Idle \<and> ready (rx w) \<noteq> [] \<longrightarrow> 0 < fd_count (rx w))"
    and "\<exists>w. reachable True {} {} w \<and> step True w UB"
proof -
  assume "reachable False F W w"
  then have w: "world_inv w" by (rule reachable_inv)
  note D = world_invD [OF w]
  have "a \<in> set (ready (rx w) @ batch w) \<union> claimed w \<or> a \<in> armed w" if reg: "a \<in> set (registered (rx w))" for a
  proof -
    obtain r where r: "regs (rx w) a = Some r" using D(1) reg by (auto simp: regs_ok_def)
    then show ?thesis using D(2) D(3) [of a] unfolding queue_ok_def by blast
  qed
  moreover have "step False w x \<Longrightarrow> \<exists>w'. x = Ret w'" for x using world_step_ok [OF _ w] by (auto simp: good_def)
  ultimately show "(\<forall>x. step False w x \<longrightarrow> (\<exists>w'. x = Ret w')) \<and> regs_ok (rx w) \<and> queue_ok (batch w) (claimed w) (rx w) \<and>
      (\<forall>a \<in> set (registered (rx w)). a \<in> set (ready (rx w) @ batch w) \<union> claimed w \<or> a \<in> armed w) \<and>
      (pc w = Idle \<and> ready (rx w) \<noteq> [] \<longrightarrow> 0 < fd_count (rx w))"
    using D(1,2,6) by auto
qed (rule late_race)



section \<open>Witnesses\<close>

lemma added_reachable: "reachable False {} {} (late_world Idle late_added {})"
proof -
  have "reachable False {} {} (late_world (Recheck 0) late_added {})"
    by (rule reachable_step [OF reachable.start step.add [of _ 0 _ 0 False Accepted]])
      (simp_all add: late_defs reactor_add_def php_scylladb_future_claim_reactor_def)
  then show ?thesis
    by (rule reachable_step [OF _ step.recheck [of _ 0]]) (simp_all add: late_defs add_recheck_def)
qed



end
