(* ===== verification/CacheKey.thy ===== *)
theory CacheKey
  imports Gmp
begin

text \<open>
  The fingerprints of \<^verbatim>\<open>include/php_scylladb_cache_key.h\<close>: the 64-bit FNV-1a hash of the bytes of
  a sequence of fields, on a little-endian machine. The lemmas say when the bytes determine the fields.
\<close>

unbundle bit_operations_syntax

definition php_scylladb_cache_key_init :: "64 word" where
  "php_scylladb_cache_key_init = 0xcbf29ce484222325"

definition php_scylladb_cache_key_mix_byte :: "64 word \<Rightarrow> byte \<Rightarrow> 64 word" where
  "php_scylladb_cache_key_mix_byte h b = (h XOR ucast b) * 0x100000001b3"

definition php_scylladb_cache_key_mix_bytes :: "64 word \<Rightarrow> byte list \<Rightarrow> 64 word" where
  "php_scylladb_cache_key_mix_bytes h bs = foldl php_scylladb_cache_key_mix_byte h bs"

text \<open>The eight bytes of a 64-bit integer in memory, and the bytes of a string.\<close>

definition int64_bytes :: "int \<Rightarrow> byte list" where
  "int64_bytes v = map (\<lambda>i. word_of_int (v div 2 ^ (8 * i))) [0..<8]"

definition char_bytes :: "string \<Rightarrow> byte list" where
  "char_bytes s = map (\<lambda>c. word_of_nat (code c)) s"

definition php_scylladb_cache_key_mix_int :: "64 word \<Rightarrow> int \<Rightarrow> 64 word" where
  "php_scylladb_cache_key_mix_int h v = php_scylladb_cache_key_mix_bytes h (int64_bytes v)"

definition php_scylladb_cache_key_mix_ulong :: "64 word \<Rightarrow> 64 word \<Rightarrow> 64 word" where
  "php_scylladb_cache_key_mix_ulong h v = php_scylladb_cache_key_mix_bytes h (int64_bytes (uint v))"

definition php_scylladb_cache_key_mix_zstr :: "64 word \<Rightarrow> string option \<Rightarrow> 64 word" where
  "php_scylladb_cache_key_mix_zstr h s =
     (case s of
        None \<Rightarrow> php_scylladb_cache_key_mix_byte h 0
      | Some s \<Rightarrow> php_scylladb_cache_key_mix_byte (php_scylladb_cache_key_mix_bytes h (char_bytes s)) 0)"

definition php_scylladb_cache_key_mix_cstr :: "64 word \<Rightarrow> string option \<Rightarrow> 64 word" where
  "php_scylladb_cache_key_mix_cstr h s =
     (case s of
        None \<Rightarrow> php_scylladb_cache_key_mix_byte h 0
      | Some s \<Rightarrow> php_scylladb_cache_key_mix_byte (php_scylladb_cache_key_mix_bytes h (char_bytes (c_str s))) 0)"

section \<open>Sequences of fields\<close>

datatype key_field =
    K_Zstr "string option"
  | K_Cstr "string option"
  | K_Int int
  | K_Ulong "64 word"

definition mix_field :: "64 word \<Rightarrow> key_field \<Rightarrow> 64 word" where
  "mix_field h k =
     (case k of
        K_Zstr s \<Rightarrow> php_scylladb_cache_key_mix_zstr h s
      | K_Cstr s \<Rightarrow> php_scylladb_cache_key_mix_cstr h s
      | K_Int v \<Rightarrow> php_scylladb_cache_key_mix_int h v
      | K_Ulong v \<Rightarrow> php_scylladb_cache_key_mix_ulong h v)"

definition mix_fields :: "64 word \<Rightarrow> key_field list \<Rightarrow> 64 word" where
  "mix_fields h ks = foldl mix_field h ks"

text \<open>The bytes a field contributes.\<close>

definition field_bytes :: "key_field \<Rightarrow> byte list" where
  "field_bytes k =
     (case k of
        K_Zstr s \<Rightarrow> case_option [] char_bytes s @ [0]
      | K_Cstr s \<Rightarrow> case_option [] (\<lambda>s. char_bytes (c_str s)) s @ [0]
      | K_Int v \<Rightarrow> int64_bytes v
      | K_Ulong v \<Rightarrow> int64_bytes (uint v))"

definition key_bytes :: "key_field list \<Rightarrow> byte list" where
  "key_bytes ks = concat (map field_bytes ks)"

lemma mix_field_bytes: "mix_field h k = php_scylladb_cache_key_mix_bytes h (field_bytes k)"
  by (cases k)
    (auto simp: mix_field_def field_bytes_def php_scylladb_cache_key_mix_zstr_def php_scylladb_cache_key_mix_cstr_def
      php_scylladb_cache_key_mix_int_def php_scylladb_cache_key_mix_ulong_def php_scylladb_cache_key_mix_bytes_def split: option.splits)

lemma mix_fields_bytes: "mix_fields h ks = php_scylladb_cache_key_mix_bytes h (key_bytes ks)"
  by (induction ks arbitrary: h)
    (simp_all add: mix_fields_def key_bytes_def mix_field_bytes php_scylladb_cache_key_mix_bytes_def)

text \<open>
  Fields of the same kinds are determined by their bytes, when integers fit 64 bits and strings have
  no NUL byte: a missing string and an empty one then are the same.
\<close>

definition same_kind :: "key_field \<Rightarrow> key_field \<Rightarrow> bool" where
  "same_kind k l \<longleftrightarrow>
     (case (k, l) of
        (K_Zstr _, K_Zstr _) \<Rightarrow> True | (K_Cstr _, K_Cstr _) \<Rightarrow> True | (K_Int _, K_Int _) \<Rightarrow> True | (K_Ulong _, K_Ulong _) \<Rightarrow> True
      | _ \<Rightarrow> False)"

definition plain_field :: "key_field \<Rightarrow> bool" where
  "plain_field k =
     (case k of
        K_Zstr s \<Rightarrow> s \<noteq> Some [] \<and> (\<forall>t. s = Some t \<longrightarrow> NUL \<notin> set t)
      | K_Cstr s \<Rightarrow> s \<noteq> Some [] \<and> (\<forall>t. s = Some t \<longrightarrow> NUL \<notin> set t)
      | K_Int v \<Rightarrow> fits_s 64 v
      | K_Ulong _ \<Rightarrow> True)"

lemma char_byte_inject: "word_of_nat (code a) = (word_of_nat (code b) :: byte) \<longleftrightarrow> a = b"
proof -
  have "unat (word_of_nat (code c) :: byte) = code c" for c using code_less [of c] by (simp add: unat_of_nat)
  then show ?thesis by (metis code_inject)
qed

lemma char_bytes_inject: "char_bytes s = char_bytes t \<longleftrightarrow> s = t"
  unfolding char_bytes_def by (rule inj_map_eq_map) (simp add: inj_def char_byte_inject)

lemma char_bytes_NUL: "0 \<in> set (char_bytes s) \<longleftrightarrow> NUL \<in> set s"
proof -
  have "word_of_nat (code c) = (0 :: byte) \<longleftrightarrow> c = NUL" for c using char_byte_inject [of c NUL] by (simp add: code_def)
  then show ?thesis by (auto simp: char_bytes_def image_iff)
qed

lemma int64_bytes_length [simp]: "length (int64_bytes v) = 8"
  by (simp add: int64_bytes_def)

lemma int64_bytes_inject: "int64_bytes v = int64_bytes w \<longleftrightarrow> (word_of_int v :: 64 word) = word_of_int w"
proof
  assume eq: "int64_bytes v = int64_bytes w"
  show "(word_of_int v :: 64 word) = word_of_int w"
  proof (rule bit_word_eqI)
    fix n assume n: "n < LENGTH(64)"
    let ?i = "n div 8"
    have "int64_bytes v ! ?i = int64_bytes w ! ?i" using eq by simp
    then have "(word_of_int (v div 2 ^ (8 * ?i)) :: byte) = word_of_int (w div 2 ^ (8 * ?i))"
      using n nth_upt [of 0 ?i 8] by (simp add: int64_bytes_def del: upt_rec_numeral)
    then have "bit (word_of_int (v div 2 ^ (8 * ?i)) :: byte) (n mod 8) = bit (word_of_int (w div 2 ^ (8 * ?i)) :: byte) (n mod 8)" by simp
    moreover have "8 * ?i + n mod 8 = n" by simp
    ultimately have "bit v n = bit w n"
      by (simp add: bit_word_of_int_iff flip: drop_bit_eq_div) (simp add: bit_drop_bit_eq)
    then show "bit (word_of_int v :: 64 word) n = bit (word_of_int w :: 64 word) n" by (simp add: bit_word_of_int_iff)
  qed
next
  assume eq: "(word_of_int v :: 64 word) = word_of_int w"
  have "(word_of_int (v div 2 ^ (8 * i)) :: byte) = word_of_int (w div 2 ^ (8 * i))" if i: "i < 8" for i :: nat
  proof (rule bit_word_eqI)
    fix n assume n: "n < LENGTH(8)"
    have "bit (word_of_int v :: 64 word) (8 * i + n) = bit (word_of_int w :: 64 word) (8 * i + n)" using eq by simp
    moreover have "8 * i + n < 64" using i n by simp
    ultimately have "bit v (8 * i + n) = bit w (8 * i + n)" by (simp add: bit_word_of_int_iff)
    then show "bit (word_of_int (v div 2 ^ (8 * i)) :: byte) n = bit (word_of_int (w div 2 ^ (8 * i)) :: byte) n"
      by (simp add: bit_word_of_int_iff bit_drop_bit_eq flip: drop_bit_eq_div)
  qed
  then show "int64_bytes v = int64_bytes w" by (simp add: int64_bytes_def)
qed

lemma int64_fits_inject: "fits_s 64 v \<Longrightarrow> fits_s 64 w \<Longrightarrow> int64_bytes v = int64_bytes w \<longleftrightarrow> v = w"
proof -
  have "sint (word_of_int x :: 64 word) = cast_s 64 x" for x unfolding cast_s_def by transfer simp
  then show "fits_s 64 v \<Longrightarrow> fits_s 64 w \<Longrightarrow> ?thesis" using int64_bytes_inject [of v w] by (metis cast_s_id)
qed

lemma int64_uint_inject: "int64_bytes (uint v) = int64_bytes (uint w) \<longleftrightarrow> v = w" for v w :: "64 word"
  by (simp add: int64_bytes_inject)

lemma nul_split:
  fixes xs :: "byte list"
  assumes "xs @ 0 # rest = ys @ 0 # rest'" and "0 \<notin> set xs" and "0 \<notin> set ys"
  shows "xs = ys" "rest = rest'"
proof -
  have first: "takeWhile (\<lambda>b. b \<noteq> 0) (zs @ 0 # r) = zs" if "0 \<notin> set zs" for zs r :: "byte list"
    using that by (induction zs) auto
  show eq: "xs = ys" using first [OF assms(2), of rest] first [OF assms(3), of rest'] assms(1) by simp
  show "rest = rest'" using assms(1) by (simp add: eq)
qed

text \<open>The string of a field, without the difference between a missing and an empty one.\<close>

lemma fields_decode:
  assumes "list_all2 same_kind ks ls" and "list_all plain_field ks" and "list_all plain_field ls" and "key_bytes ks @ r = key_bytes ls @ r'"
  shows "ks = ls" and "r = r'"
proof -
  have "ks = ls \<and> r = r'" using assms
  proof (induction ks ls rule: list_all2_induct)
    case (Cons k ks l ls)
    have tail: "field_bytes k @ (key_bytes ks @ r) = field_bytes l @ (key_bytes ls @ r')" using Cons.prems by (simp add: key_bytes_def)
    have "k = l \<and> key_bytes ks @ r = key_bytes ls @ r'"
    proof (cases "\<exists>s t. k = K_Zstr s \<and> l = K_Zstr t \<or> k = K_Cstr s \<and> l = K_Cstr t")
      case True
      then obtain s t where st: "k = K_Zstr s \<and> l = K_Zstr t \<or> k = K_Cstr s \<and> l = K_Cstr t" by blast
      let ?b = "case_option [] char_bytes"
      have plain: "x \<noteq> Some []" "0 \<notin> set (?b x)" "case_option [] (\<lambda>s. char_bytes (c_str s)) x = ?b x" if "x = s \<or> x = t" for x
        using that st Cons.prems by (auto simp: plain_field_def char_bytes_NUL c_str_id_iff [THEN iffD2] split: option.splits)
      have "?b s @ 0 # (key_bytes ks @ r) = ?b t @ 0 # (key_bytes ls @ r')" using tail st plain(3) by (auto simp: field_bytes_def)
      then have "?b s = ?b t" "key_bytes ks @ r = key_bytes ls @ r'" using nul_split plain(2) by blast+
      moreover have "?b s = ?b t \<Longrightarrow> s = t" using plain(1) [of s] plain(1) [of t] by (auto simp: char_bytes_inject char_bytes_def split: option.splits) (simp_all add: char_byte_inject inj_map_eq_map inj_def)
      ultimately show ?thesis using st by auto
    next
      case False
      then have "length (field_bytes k) = length (field_bytes l)" "field_bytes k = field_bytes l \<Longrightarrow> k = l"
        using Cons.hyps(1) Cons.prems by (auto simp: same_kind_def field_bytes_def plain_field_def int64_fits_inject int64_uint_inject
            simp del: fits_s_numeral split: key_field.splits)
      then show ?thesis using tail by simp
    qed
    then show ?case using Cons by simp
  qed (simp add: key_bytes_def)
  then show "ks = ls" "r = r'" by simp_all
qed

end
