(* ===== verification/Persistent.thy ===== *)
theory Persistent
  imports CacheKey
begin

text \<open>
  The persistent resources of \<^verbatim>\<open>src/php_scylladb.c\<close>: clusters, sessions and prepared statements
  in the engine's list of a worker process, their destructors, and the limits on their number. Objects
  of the driver are addresses: a cluster with the calls made on it, a session that exists, a future that
  waits or has its result.
\<close>

section \<open>Driver objects\<close>

text \<open>A call on a driver object: the function and its arguments after the object.\<close>

datatype carg =
    A_Int int
  | A_Str string
  | A_Double "64 word"
  | A_Ptr nat
  | A_Profile "(string \<times> carg list) list"

type_synonym ccall = "string \<times> carg list"

datatype cass_rc = CASS_OK | CASS_ERROR_LIB_NOT_IMPLEMENTED exn | CASS_ERROR exn

definition rc_error :: "cass_rc \<Rightarrow> exn option" where
  "rc_error r = (case r of CASS_OK \<Rightarrow> None | CASS_ERROR_LIB_NOT_IMPLEMENTED e \<Rightarrow> Some e | CASS_ERROR e \<Rightarrow> Some e)"

datatype future_state = Pending | Resolved cass_rc

section \<open>The process\<close>

datatype persistent_kind = PERSISTENT_CLUSTERS | PERSISTENT_SESSIONS | PERSISTENT_PREPARED_STATEMENTS

datatype presource = R_Cluster nat | R_Session nat | R_Statement nat

record psession =
  ps_session :: nat
  ps_future :: nat

record process =
  persistent_list :: "64 word \<rightharpoonup> presource"
  cass_clusters :: "nat \<rightharpoonup> ccall list"
  cass_sessions :: "nat set"
  cass_futures :: "nat \<rightharpoonup> future_state"
  psessions :: "nat \<rightharpoonup> psession"
  pprepared :: "nat \<rightharpoonup> nat" \<comment> \<open>the future of a prepared statement\<close>
  next_ptr :: nat
  persistent_used :: "persistent_kind \<Rightarrow> int"
  max_persistent :: "persistent_kind \<Rightarrow> int"
  warned_cap :: "persistent_kind \<Rightarrow> bool"

text \<open>A negative limit is none; the first refusal warns.\<close>

definition php_scylladb_persistent_can_cache :: "persistent_kind \<Rightarrow> process \<Rightarrow> bool \<times> process" where
  "php_scylladb_persistent_can_cache kind W =
     (let limit = max_persistent W kind
      in if limit < 0 \<or> persistent_used W kind < limit then (True, W)
         else (False, W\<lparr>warned_cap := (warned_cap W)(kind := True)\<rparr>))"

definition use_entry :: "persistent_kind \<Rightarrow> int \<Rightarrow> process \<Rightarrow> process" where
  "use_entry kind d W = W\<lparr>persistent_used := (persistent_used W)(kind := persistent_used W kind + d)\<rparr>"

text \<open>Freeing what does not exist (any more) is undefined.\<close>

definition cass_cluster_free :: "nat \<Rightarrow> process \<Rightarrow> process outcome" where
  "cass_cluster_free p W = (if cass_clusters W p = None then UB else Ret (W\<lparr>cass_clusters := (cass_clusters W)(p := None)\<rparr>))"

definition cass_session_free :: "nat \<Rightarrow> process \<Rightarrow> process outcome" where
  "cass_session_free p W = (if p \<in> cass_sessions W then Ret (W\<lparr>cass_sessions := cass_sessions W - {p}\<rparr>) else UB)"

definition cass_future_free :: "nat \<Rightarrow> process \<Rightarrow> process outcome" where
  "cass_future_free p W = (if cass_futures W p = None then UB else Ret (W\<lparr>cass_futures := (cass_futures W)(p := None)\<rparr>))"

definition php_scylladb_cluster_dtor :: "nat \<Rightarrow> process \<Rightarrow> process outcome" where
  "php_scylladb_cluster_dtor p W = bind_outcome (cass_cluster_free p W) (\<lambda>W. Ret (use_entry PERSISTENT_CLUSTERS (- 1) W))"

definition php_scylladb_session_dtor :: "nat \<Rightarrow> process \<Rightarrow> process outcome" where
  "php_scylladb_session_dtor q W =
     (case psessions W q of
        None \<Rightarrow> UB
      | Some s \<Rightarrow>
          bind_outcome (cass_future_free (ps_future s) W) (\<lambda>W. bind_outcome (cass_session_free (ps_session s) W) (\<lambda>W.
            Ret (use_entry PERSISTENT_SESSIONS (- 1) (W\<lparr>psessions := (psessions W)(q := None)\<rparr>)))))"

definition php_scylladb_prepared_statement_dtor :: "nat \<Rightarrow> process \<Rightarrow> process outcome" where
  "php_scylladb_prepared_statement_dtor q W =
     (case pprepared W q of
        None \<Rightarrow> UB
      | Some f \<Rightarrow>
          bind_outcome (cass_future_free f W) (\<lambda>W.
            Ret (use_entry PERSISTENT_PREPARED_STATEMENTS (- 1) (W\<lparr>pprepared := (pprepared W)(q := None)\<rparr>))))"

definition plist_destroy :: "presource \<Rightarrow> process \<Rightarrow> process outcome" where
  "plist_destroy r W =
     (case r of
        R_Cluster p \<Rightarrow> php_scylladb_cluster_dtor p W
      | R_Session q \<Rightarrow> php_scylladb_session_dtor q W
      | R_Statement q \<Rightarrow> php_scylladb_prepared_statement_dtor q W)"

text \<open>
  \<^verbatim>\<open>zend_hash_index_del\<close> and \<^verbatim>\<open>zend_hash_index_update\<close> on the list: an entry that goes is destroyed.
\<close>

definition plist_del :: "64 word \<Rightarrow> process \<Rightarrow> (bool \<times> process) outcome" where
  "plist_del key W =
     (case persistent_list W key of
        None \<Rightarrow> Ret (False, W)
      | Some r \<Rightarrow> bind_outcome (plist_destroy r (W\<lparr>persistent_list := (persistent_list W)(key := None)\<rparr>)) (\<lambda>W. Ret (True, W)))"

definition plist_update :: "64 word \<Rightarrow> presource \<Rightarrow> process \<Rightarrow> process outcome" where
  "plist_update key r W =
     bind_outcome (plist_del key W) (\<lambda>(_, W). Ret (W\<lparr>persistent_list := (persistent_list W)(key \<mapsto> r)\<rparr>))"

text \<open>An operation that returns or throws, with the process after it.\<close>

definition with_process :: "process outcome \<Rightarrow> process \<Rightarrow> (process \<Rightarrow> 'b outcome \<times> process) \<Rightarrow> 'b outcome \<times> process" where
  "with_process r W f = (case r of Ret W' \<Rightarrow> f W' | Throw e \<Rightarrow> (Throw e, W) | UB \<Rightarrow> (UB, W))"

lemma with_process_simps [simp]:
  "with_process (Ret W') W f = f W'" "with_process (Throw e) W f = (Throw e, W)" "with_process UB W f = (UB, W)"
  by (simp_all add: with_process_def)

section \<open>The list is consistent\<close>

text \<open>What an entry owns, and that all of it exists.\<close>

definition own :: "process \<Rightarrow> presource \<Rightarrow> nat set" where
  "own W r =
     (case r of
        R_Cluster p \<Rightarrow> {p}
      | R_Session q \<Rightarrow> insert q (case psessions W q of None \<Rightarrow> {} | Some s \<Rightarrow> {ps_session s, ps_future s})
      | R_Statement q \<Rightarrow> insert q (set_option (pprepared W q)))"

definition alive :: "process \<Rightarrow> presource \<Rightarrow> bool" where
  "alive W r \<longleftrightarrow>
     (case r of
        R_Cluster p \<Rightarrow> cass_clusters W p \<noteq> None
      | R_Session q \<Rightarrow> (\<exists>s. psessions W q = Some s \<and> ps_session s \<in> cass_sessions W \<and> cass_futures W (ps_future s) \<noteq> None)
      | R_Statement q \<Rightarrow> (\<exists>f. pprepared W q = Some f \<and> cass_futures W f \<noteq> None))"

definition kind_of :: "presource \<Rightarrow> persistent_kind" where
  "kind_of r = (case r of R_Cluster _ \<Rightarrow> PERSISTENT_CLUSTERS | R_Session _ \<Rightarrow> PERSISTENT_SESSIONS | R_Statement _ \<Rightarrow> PERSISTENT_PREPARED_STATEMENTS)"

definition entries_of :: "process \<Rightarrow> persistent_kind \<Rightarrow> 64 word set" where
  "entries_of W kind = {k. \<exists>r. persistent_list W k = Some r \<and> kind_of r = kind}"

definition process_ok :: "process \<Rightarrow> bool" where
  "process_ok W \<longleftrightarrow>
     finite (dom (persistent_list W)) \<and>
     (\<forall>k r. persistent_list W k = Some r \<longrightarrow> alive W r \<and> own W r \<subseteq> {..<next_ptr W}) \<and>
     (\<forall>k k' r r'. persistent_list W k = Some r \<longrightarrow> persistent_list W k' = Some r' \<longrightarrow> k \<noteq> k' \<longrightarrow> own W r \<inter> own W r' = {}) \<and>
     (\<forall>kind. persistent_used W kind = int (card (entries_of W kind)))"

text \<open>What an operation keeps of the process: the objects outside a set of addresses.\<close>

definition keeps :: "nat set \<Rightarrow> process \<Rightarrow> process \<Rightarrow> bool" where
  "keeps A W W' \<longleftrightarrow>
     (\<forall>p. p \<notin> A \<longrightarrow> cass_clusters W' p = cass_clusters W p \<and> (p \<in> cass_sessions W') = (p \<in> cass_sessions W) \<and>
       cass_futures W' p = cass_futures W p \<and> psessions W' p = psessions W p \<and> pprepared W' p = pprepared W p)"

lemma keeps_own: "keeps A W W' \<Longrightarrow> own W r \<inter> A = {} \<Longrightarrow> own W' r = own W r"
  by (cases r) (auto simp: keeps_def own_def)

lemma keeps_alive: "keeps A W W' \<Longrightarrow> own W r \<inter> A = {} \<Longrightarrow> alive W' r = alive W r"
  by (cases r) (auto simp: keeps_def own_def alive_def split: option.splits)

text \<open>Destroying an entry frees what it owns and nothing else.\<close>

lemma destroy_ok:
  assumes "alive W r"
  shows "\<exists>W'. plist_destroy r W = Ret W' \<and> keeps (own W r) W W' \<and> next_ptr W' = next_ptr W \<and> persistent_list W' = persistent_list W \<and>
    max_persistent W' = max_persistent W \<and>
    persistent_used W' = (persistent_used W)(kind_of r := persistent_used W (kind_of r) - 1)"
  using assms
  by (cases r)
    (auto simp: alive_def plist_destroy_def php_scylladb_cluster_dtor_def php_scylladb_session_dtor_def php_scylladb_prepared_statement_dtor_def
      cass_cluster_free_def cass_session_free_def cass_future_free_def use_entry_def keeps_def own_def kind_of_def)

lemma entries_del: "persistent_list W k = Some r \<Longrightarrow>
    entries_of (W\<lparr>persistent_list := (persistent_list W)(k := None)\<rparr>) kind = (if kind_of r = kind then entries_of W kind - {k} else entries_of W kind)"
  by (auto simp: entries_of_def split: if_splits)

lemma entries_finite: "finite (dom (persistent_list W)) \<Longrightarrow> finite (entries_of W kind)"
  by (rule finite_subset [of _ "dom (persistent_list W)"]) (auto simp: entries_of_def)

lemma plist_del_ok:
  assumes W: "process_ok W" and r: "persistent_list W k = Some r"
  shows "\<exists>W'. plist_del k W = Ret (True, W') \<and> process_ok W' \<and> keeps (own W r) W W' \<and> next_ptr W' = next_ptr W \<and>
    persistent_list W' = (persistent_list W)(k := None) \<and> max_persistent W' = max_persistent W"
proof -
  let ?V = "W\<lparr>persistent_list := (persistent_list W)(k := None)\<rparr>"
  have al: "alive W r" using W r by (simp add: process_ok_def)
  have V: "own ?V r' = own W r'" "alive ?V r' = alive W r'" for r' by (cases r'; simp add: own_def alive_def)+
  obtain W' where W': "plist_destroy r ?V = Ret W'" "keeps (own W r) ?V W'" "next_ptr W' = next_ptr W" "persistent_list W' = (persistent_list W)(k := None)"
      "max_persistent W' = max_persistent W" "persistent_used W' = (persistent_used W)(kind_of r := persistent_used W (kind_of r) - 1)"
    using destroy_ok [of ?V r] al V by auto
  have k: "keeps (own W r) W W'" using W'(2) by (simp add: keeps_def)
  have other: "own W' r' = own W r'" "alive W' r' = alive W r'" if "persistent_list W k' = Some r'" "k' \<noteq> k" for k' r'
    using keeps_own [OF k] keeps_alive [OF k] that r W unfolding process_ok_def by (metis inf_commute)+
  have ent: "entries_of W' kind = entries_of ?V kind" for kind by (simp add: entries_of_def W'(4))
  have fin: "finite (dom (persistent_list W))" and cnt: "\<And>kind. persistent_used W kind = int (card (entries_of W kind))"
    using W by (simp_all add: process_ok_def)
  have kr: "k \<in> entries_of W (kind_of r)" using r by (simp add: entries_of_def)
  have "persistent_used W' kind = int (card (entries_of W' kind))" for kind
  proof (cases "kind = kind_of r")
    case True
    have "0 < card (entries_of W (kind_of r))" using kr entries_finite [OF fin] card_gt_0_iff by blast
    then show ?thesis unfolding ent entries_del [OF r] using True kr cnt [of "kind_of r"] W'(6) by (simp add: card_Diff_singleton of_nat_diff)
  qed (simp add: ent entries_del [OF r] cnt W'(6))
  moreover have "alive W' r' \<and> own W' r' \<subseteq> {..<next_ptr W'}" if "persistent_list W' k' = Some r'" for k' r'
    using that other [of k' r'] W unfolding W'(3,4) process_ok_def by (auto split: if_splits)
  moreover have "own W' r' \<inter> own W' r'' = {}" if "persistent_list W' k' = Some r'" "persistent_list W' k'' = Some r''" "k' \<noteq> k''" for k' k'' r' r''
    using that other(1) [of k' r'] other(1) [of k'' r''] W unfolding W'(4) process_ok_def by (auto split: if_splits)
  ultimately have "process_ok W'" using fin W'(4) by (simp add: process_ok_def)
  then show ?thesis using W' k r by (simp add: plist_del_def)
qed

lemma entries_put:
  "persistent_list W k = None \<Longrightarrow>
    entries_of (W\<lparr>persistent_list := (persistent_list W)(k \<mapsto> r)\<rparr>) kind = (if kind_of r = kind then insert k (entries_of W kind) else entries_of W kind)"
  by (auto simp: entries_of_def)

lemma list_only: "own (W\<lparr>persistent_list := L\<rparr>) r = own W r" "alive (W\<lparr>persistent_list := L\<rparr>) r = alive W r"
    "own (use_entry kind d W) r = own W r" "alive (use_entry kind d W) r = alive W r"
    "entries_of (use_entry kind d W) = entries_of W"
  by (cases r; simp add: own_def alive_def use_entry_def; fail)+ (simp add: entries_of_def use_entry_def fun_eq_iff)

text \<open>A new entry, in a place that is free.\<close>

lemma plist_put_ok:
  assumes W: "process_ok W" and free: "persistent_list W k = None" and r: "alive W r" "own W r \<subseteq> {..<next_ptr W}"
    and new: "\<And>k' r'. persistent_list W k' = Some r' \<Longrightarrow> own W r' \<inter> own W r = {}"
  shows "process_ok (use_entry (kind_of r) 1 (W\<lparr>persistent_list := (persistent_list W)(k \<mapsto> r)\<rparr>))" (is "process_ok (use_entry _ _ ?V)")
proof -
  have fin: "finite (dom (persistent_list W))" and cnt: "\<And>kind. persistent_used W kind = int (card (entries_of W kind))"
    using W by (simp_all add: process_ok_def)
  have "k \<notin> entries_of W kind" for kind using free by (simp add: entries_of_def)
  then have "persistent_used (use_entry (kind_of r) 1 ?V) kind = int (card (entries_of ?V kind))" for kind
    using entries_finite [OF fin, of "kind_of r"] by (simp add: entries_put [OF free] use_entry_def cnt)
  moreover have "alive W r' \<and> own W r' \<subseteq> {..<next_ptr W}" if "persistent_list ?V k' = Some r'" for k' r'
    using that r W by (auto simp: process_ok_def split: if_splits)
  moreover have "own W r' \<inter> own W r'' = {}" if "persistent_list ?V k' = Some r'" "persistent_list ?V k'' = Some r''" "k' \<noteq> k''" for k' k'' r' r''
    using that new W unfolding process_ok_def by (auto split: if_splits; blast)
  ultimately show ?thesis using fin unfolding process_ok_def list_only by (simp add: use_entry_def)
qed

text \<open>A new entry in any place: an old one there is destroyed first.\<close>

lemma plist_update_ok:
  assumes W: "process_ok W" and r: "alive W r" "own W r \<subseteq> {..<next_ptr W}"
    and new: "\<And>k' r'. persistent_list W k' = Some r' \<Longrightarrow> own W r' \<inter> own W r = {}"
  shows "\<exists>W'. plist_update k r W = Ret W' \<and> process_ok (use_entry (kind_of r) 1 W') \<and> persistent_list W' = (persistent_list W)(k \<mapsto> r) \<and>
    next_ptr W' = next_ptr W \<and> max_persistent W' = max_persistent W \<and> keeps (case persistent_list W k of None \<Rightarrow> {} | Some o' \<Rightarrow> own W o') W W'"
proof (cases "persistent_list W k")
  case None
  then show ?thesis using plist_put_ok [OF W None r new] by (simp add: plist_update_def plist_del_def keeps_def)
next
  case (Some o')
  obtain V where V: "plist_del k W = Ret (True, V)" "process_ok V" "keeps (own W o') W V" "next_ptr V = next_ptr W"
      "persistent_list V = (persistent_list W)(k := None)" "max_persistent V = max_persistent W"
    using plist_del_ok [OF W Some] by blast
  have own_V: "own V r' = own W r'" "alive V r' = alive W r'" if "own W r' \<inter> own W o' = {}" for r'
    using keeps_own [OF V(3) that] keeps_alive [OF V(3) that] by simp_all
  have ro: "own W r \<inter> own W o' = {}" using new [OF Some] by (simp add: inf_commute)
  have "process_ok (use_entry (kind_of r) 1 (V\<lparr>persistent_list := (persistent_list V)(k \<mapsto> r)\<rparr>))"
  proof (rule plist_put_ok [OF V(2)])
    show "persistent_list V k = None" "alive V r" "own V r \<subseteq> {..<next_ptr V}" using V(4,5) r own_V [OF ro] by simp_all
    show "own V r' \<inter> own V r = {}" if l: "persistent_list V k' = Some r'" for k' r'
    proof -
      have l': "persistent_list W k' = Some r'" "k' \<noteq> k" using l V(5) by (auto split: if_splits)
      then have "own W r' \<inter> own W o' = {}" using W Some by (auto simp: process_ok_def)
      then show ?thesis using own_V [OF ro] own_V(1) [of r'] new [OF l'(1)] by simp
    qed
  qed
  then show ?thesis using V Some by (simp add: plist_update_def keeps_def)
qed

end
