(* ===== verification/Cluster.thy ===== *)
theory Cluster
  imports Persistent Zval "HOL-Library.Log_Nat" "HOL-Library.AList"
begin

text \<open>
  Building clusters: \<^verbatim>\<open>src/Cluster/Builder.c\<close> with its handlers, the execution profiles of
  \<^verbatim>\<open>src/ExecutionProfile/ExecutionProfile.c\<close>, and the persistent list the built clusters are kept
  in. A driver object is the list of calls made on it; whether the driver refuses a call is a parameter.
  PHP objects held by a builder (TLS options, policies, profiles) are their handles. Arguments have the
  types the methods declare.
\<close>

section \<open>Data\<close>

datatype php_scylladb_load_balancing =
    LOAD_BALANCING_DEFAULT
  | LOAD_BALANCING_ROUND_ROBIN
  | LOAD_BALANCING_DC_AWARE_ROUND_ROBIN
  | LOAD_BALANCING_RACK_AWARE

datatype php_scylladb_reconnect_policy = RECONNECT_POLICY_CONSTANT | RECONNECT_POLICY_EXPONENTIAL

record cluster_builder =
  contact_points :: string
  username :: "string option"
  password :: "string option"
  local_dc :: "string option"
  blacklist_hosts :: "string option"
  whitelist_hosts :: "string option"
  blacklist_dcs :: "string option"
  whitelist_dcs :: "string option"
  local_rack :: "string option"
  application_name :: "string option"
  application_version :: "string option"
  local_address :: "string option"
  used_hosts_per_remote_dc :: int
  connect_timeout :: int
  default_consistency :: int
  default_page_size :: int
  protocol_version :: int
  io_threads :: int
  core_connections_per_host :: int
  max_connections_per_host :: int
  reconnect_interval :: int
  tcp_keepalive_delay :: int
  enable_latency_aware_routing :: bool
  enable_tcp_nodelay :: bool
  enable_tcp_keepalive :: bool
  enable_schema :: bool
  enable_hostname_resolution :: bool
  enable_randomized_contact_points :: bool
  allow_remote_dcs_for_local_cl :: bool
  use_token_aware_routing :: bool
  connection_heartbeat_interval :: int
  request_timeout :: int
  reconnect_max_interval :: int
  speculative_execution_delay :: int
  speculative_execution_max :: int
  coalesce_delay :: int
  new_request_ratio :: int
  connection_idle_timeout :: int
  max_schema_wait_time :: int
  resolve_timeout :: int
  monitor_reporting_interval :: int
  queue_size_io :: int
  tracing_consistency :: int
  tracing_max_wait_time :: int
  tracing_retry_wait_time :: int
  prepare_on_all_hosts :: bool
  prepare_on_up_or_add_host :: bool
  shuffle_replicas :: bool
  no_compact :: bool
  beta_protocol :: bool
  port :: int
  reconnect_policy :: php_scylladb_reconnect_policy
  load_balancing_policy :: php_scylladb_load_balancing
  persist :: bool
  retry_policy :: "nat option"
  timestamp_gen :: "nat option"
  ssl_options :: "nat option"
  execution_profiles :: "(string \<times> nat) list"
  default_timeout :: "64 word option"

text \<open>The values of php.ini that seed a builder.\<close>

record ini =
  ini_contact_points :: "string option"
  ini_local_dc :: "string option"
  ini_local_rack :: "string option"
  ini_application_name :: "string option"
  ini_application_version :: "string option"
  ini_local_address :: "string option"
  ini_reconnect_policy :: "string option"
  ini_number :: "string \<Rightarrow> int"
  ini_flag :: "string \<Rightarrow> bool"
  allow_persistent :: bool
  expose_credentials :: bool

record execution_profile =
  ep_calls :: "ccall list"
  config_hash :: "64 word"
  ep_retry_policy :: "nat option"

definition cass_bool :: "bool \<Rightarrow> int" where
  "cass_bool b = (if b then 1 else 0)"

definition invalid_argument :: "string \<Rightarrow> string \<Rightarrow> 'a outcome" where
  "invalid_argument name expected = Throw (Exn InvalidArgumentException (name @ '' must be '' @ expected))"

section \<open>Seconds\<close>

text \<open>
  The product of a double and a small integer, rounded to 53 bits, ties to even, in units of the
  smallest subnormal; then \<^verbatim>\<open>ceil\<close>, and the conversion to an unsigned integer, which is undefined
  when the value does not fit.
\<close>

definition round53 :: "int \<Rightarrow> int" where
  "round53 m =
     (let s = nat (bitlen m - 53); q = m div 2 ^ s; r = m mod 2 ^ s
      in (if 2 ^ s < 2 * r \<or> 2 ^ s = 2 * r \<and> odd q then q + 1 else q) * 2 ^ s)"

definition dbl_ceil_mult :: "nat \<Rightarrow> int \<Rightarrow> 64 word \<Rightarrow> int outcome" where
  "dbl_ceil_mult w k d =
     (let c = - ((- round53 (k * dbl_scaled d)) div 2 ^ 1074)
      in if dbl_isfinite d \<and> 0 \<le> c \<and> c < 2 ^ w then Ret c else UB)"

definition dbl_le :: "64 word \<Rightarrow> 64 word \<Rightarrow> bool" where
  "dbl_le a b \<longleftrightarrow> \<not> dbl_isnan a \<and> \<not> dbl_isnan b \<and> dbl_scaled a \<le> dbl_scaled b"

definition php_scylladb_set_timeout :: "64 word \<Rightarrow> int outcome" where
  "php_scylladb_set_timeout timeout =
     (if dbl_less timeout 0 then invalid_argument ''timeout'' ''a positive number'' else dbl_ceil_mult 32 1000 timeout)"

definition php_scylladb_set_interval_secs :: "64 word \<Rightarrow> int outcome" where
  "php_scylladb_set_interval_secs interval =
     (if dbl_less interval 0 then invalid_argument ''interval'' ''a positive number'' else dbl_ceil_mult 32 1 interval)"

section \<open>Consistencies\<close>

text \<open>The driver's consistencies are 0 to 10; 8 and 9 are the serial ones.\<close>

definition php_scylladb_validate_consistency :: "int \<Rightarrow> int" where
  "php_scylladb_validate_consistency consistency = (if consistency \<in> {0..10} then 0 else - 1)"

definition php_scylladb_validate_serial_consistency :: "int \<Rightarrow> int" where
  "php_scylladb_validate_serial_consistency consistency = (if consistency \<in> {8, 9} then 0 else - 1)"

section \<open>The builder's methods\<close>

text \<open>A method returns the builder for chaining; when it throws, the builder is unchanged.\<close>

definition php_scylladb_build_hosts_str :: "zval list \<Rightarrow> string option" where
  "php_scylladb_build_hosts_str args =
     (if list_all (\<lambda>v. case v of ZString _ \<Rightarrow> True | _ \<Rightarrow> False) args
      then Some (join_sep '','' (map (\<lambda>v. case v of ZString s \<Rightarrow> s | _ \<Rightarrow> []) args)) else None)"

definition php_scylladb_parse_hosts :: "zval list \<Rightarrow> string outcome" where
  "php_scylladb_parse_hosts args =
     (if args = [] then Throw (Exn ArgumentCountError [])
      else case php_scylladb_build_hosts_str args of
        None \<Rightarrow> invalid_argument ''hosts'' ''a string ip address or hostname''
      | Some hosts \<Rightarrow> Ret hosts)"

definition withDefaultConsistency :: "int \<Rightarrow> cluster_builder \<Rightarrow> cluster_builder outcome" where
  "withDefaultConsistency consistency b =
     (if php_scylladb_validate_consistency (cast_u 32 consistency) = - 1 then invalid_argument ''consistency'' ''one of Cassandra::CONSISTENCY_*''
      else Ret (b\<lparr>default_consistency := cast_u 32 consistency\<rparr>))"

definition withDefaultPageSize :: "int \<Rightarrow> cluster_builder \<Rightarrow> cluster_builder outcome" where
  "withDefaultPageSize pageSize b =
     (if pageSize < 0 then invalid_argument ''pageSize'' ''a positive integer or null''
      else Ret (b\<lparr>default_page_size := cast_u 32 pageSize\<rparr>))"

definition withDefaultTimeout :: "64 word \<Rightarrow> cluster_builder \<Rightarrow> cluster_builder outcome" where
  "withDefaultTimeout timeout b =
     (if dbl_less timeout 0 then invalid_argument ''timeout'' ''a positive number or null''
      else Ret (b\<lparr>default_timeout := Some timeout\<rparr>))"

definition withContactPoints :: "zval list \<Rightarrow> cluster_builder \<Rightarrow> cluster_builder outcome" where
  "withContactPoints args b = bind_outcome (php_scylladb_parse_hosts args) (\<lambda>hosts. Ret (b\<lparr>contact_points := hosts\<rparr>))"

definition withPort :: "int \<Rightarrow> cluster_builder \<Rightarrow> cluster_builder outcome" where
  "withPort n b =
     (if n < 1 \<or> 65535 < n then invalid_argument ''port'' ''an integer between 1 and 65535''
      else Ret (b\<lparr>port := cast_u 16 n\<rparr>))"

definition withRoundRobinLoadBalancingPolicy :: "cluster_builder \<Rightarrow> cluster_builder outcome" where
  "withRoundRobinLoadBalancingPolicy b = Ret (b\<lparr>local_dc := None, load_balancing_policy := LOAD_BALANCING_ROUND_ROBIN\<rparr>)"

definition withDatacenterAwareRoundRobinLoadBalancingPolicy :: "string \<Rightarrow> int \<Rightarrow> bool \<Rightarrow> cluster_builder \<Rightarrow> cluster_builder outcome" where
  "withDatacenterAwareRoundRobinLoadBalancingPolicy dc hostPerRemoteDatacenter allow b =
     (if hostPerRemoteDatacenter < 0 then invalid_argument ''hostPerRemoteDatacenter'' ''a positive integer''
      else Ret (b\<lparr>local_dc := Some dc, used_hosts_per_remote_dc := cast_u 32 hostPerRemoteDatacenter,
                  allow_remote_dcs_for_local_cl := allow, load_balancing_policy := LOAD_BALANCING_DC_AWARE_ROUND_ROBIN\<rparr>))"

definition withBlackListHosts :: "zval list \<Rightarrow> cluster_builder \<Rightarrow> cluster_builder outcome" where
  "withBlackListHosts args b = bind_outcome (php_scylladb_parse_hosts args) (\<lambda>hosts. Ret (b\<lparr>blacklist_hosts := Some hosts\<rparr>))"

definition withWhiteListHosts :: "zval list \<Rightarrow> cluster_builder \<Rightarrow> cluster_builder outcome" where
  "withWhiteListHosts args b = bind_outcome (php_scylladb_parse_hosts args) (\<lambda>hosts. Ret (b\<lparr>whitelist_hosts := Some hosts\<rparr>))"

definition withBlackListDCs :: "zval list \<Rightarrow> cluster_builder \<Rightarrow> cluster_builder outcome" where
  "withBlackListDCs args b = bind_outcome (php_scylladb_parse_hosts args) (\<lambda>hosts. Ret (b\<lparr>blacklist_dcs := Some hosts\<rparr>))"

definition withWhiteListDCs :: "zval list \<Rightarrow> cluster_builder \<Rightarrow> cluster_builder outcome" where
  "withWhiteListDCs args b = bind_outcome (php_scylladb_parse_hosts args) (\<lambda>hosts. Ret (b\<lparr>whitelist_dcs := Some hosts\<rparr>))"

definition withTokenAwareRouting :: "bool \<Rightarrow> cluster_builder \<Rightarrow> cluster_builder outcome" where
  "withTokenAwareRouting enabled b = Ret (b\<lparr>use_token_aware_routing := enabled\<rparr>)"

definition withCredentials :: "string \<Rightarrow> string \<Rightarrow> cluster_builder \<Rightarrow> cluster_builder outcome" where
  "withCredentials user pass b = Ret (b\<lparr>username := Some user, password := Some pass\<rparr>)"

definition withConnectTimeout :: "64 word \<Rightarrow> cluster_builder \<Rightarrow> cluster_builder outcome" where
  "withConnectTimeout timeout b = bind_outcome (php_scylladb_set_timeout timeout) (\<lambda>ms. Ret (b\<lparr>connect_timeout := ms\<rparr>))"

definition withRequestTimeout :: "64 word \<Rightarrow> cluster_builder \<Rightarrow> cluster_builder outcome" where
  "withRequestTimeout timeout b = bind_outcome (php_scylladb_set_timeout timeout) (\<lambda>ms. Ret (b\<lparr>request_timeout := ms\<rparr>))"

definition withSSL :: "nat \<Rightarrow> cluster_builder \<Rightarrow> cluster_builder outcome" where
  "withSSL ssl b = Ret (b\<lparr>ssl_options := Some ssl\<rparr>)"

definition withPersistentSessions :: "ini \<Rightarrow> bool \<Rightarrow> cluster_builder \<Rightarrow> cluster_builder outcome" where
  "withPersistentSessions G enabled b = Ret (b\<lparr>persist := enabled \<and> allow_persistent G\<rparr>)"

text \<open>The version is a case of the enum, or an integer.\<close>

definition withProtocolVersion :: "bool \<Rightarrow> int \<Rightarrow> cluster_builder \<Rightarrow> cluster_builder outcome" where
  "withProtocolVersion versionCase version b =
     (if \<not> versionCase \<and> version < 1 then invalid_argument ''version'' ''a positive number''
      else Ret (b\<lparr>protocol_version := cast_u 32 version\<rparr>))"

definition withIOThreads :: "int \<Rightarrow> cluster_builder \<Rightarrow> cluster_builder outcome" where
  "withIOThreads count b =
     (if count < 1 \<or> 128 < count then invalid_argument ''count'' ''a number between 1 and 128''
      else Ret (b\<lparr>io_threads := cast_u 32 count\<rparr>))"

definition withConnectionsPerHost :: "int \<Rightarrow> int \<Rightarrow> cluster_builder \<Rightarrow> cluster_builder outcome" where
  "withConnectionsPerHost core mx b =
     (if 128 < core \<or> core < 1 then invalid_argument ''core'' ''a number between 1 and 128''
      else if 128 < mx \<or> mx < 1 then invalid_argument ''max'' ''a number between 1 and 128''
      else if mx < core then invalid_argument ''core'' ''greater than max''
      else Ret (b\<lparr>core_connections_per_host := cast_u 32 core, max_connections_per_host := cast_u 32 mx\<rparr>))"

definition withReconnectInterval :: "64 word \<Rightarrow> cluster_builder \<Rightarrow> cluster_builder outcome" where
  "withReconnectInterval timeout b = bind_outcome (php_scylladb_set_timeout timeout) (\<lambda>ms. Ret (b\<lparr>reconnect_interval := ms\<rparr>))"

definition withLatencyAwareRouting :: "bool \<Rightarrow> cluster_builder \<Rightarrow> cluster_builder outcome" where
  "withLatencyAwareRouting enabled b = Ret (b\<lparr>enable_latency_aware_routing := enabled\<rparr>)"

definition withTCPNodelay :: "bool \<Rightarrow> cluster_builder \<Rightarrow> cluster_builder outcome" where
  "withTCPNodelay enabled b = Ret (b\<lparr>enable_tcp_nodelay := enabled\<rparr>)"

definition withTCPKeepalive :: "64 word option \<Rightarrow> cluster_builder \<Rightarrow> cluster_builder outcome" where
  "withTCPKeepalive delay b =
     (case delay of
        None \<Rightarrow> Ret (b\<lparr>tcp_keepalive_delay := 0, enable_tcp_keepalive := False\<rparr>)
      | Some d \<Rightarrow>
          if dbl_less d 0 then invalid_argument ''delay'' ''a positive number or null''
          else bind_outcome (dbl_ceil_mult 32 1 d) (\<lambda>secs. Ret (b\<lparr>tcp_keepalive_delay := secs, enable_tcp_keepalive := True\<rparr>)))"

definition php_scylladb_builder_set_str :: "string option \<Rightarrow> string option" where
  "php_scylladb_builder_set_str src = (if src = Some [] then None else src)"

definition withRackAwareLoadBalancingPolicy :: "string option \<Rightarrow> string option \<Rightarrow> cluster_builder \<Rightarrow> cluster_builder outcome" where
  "withRackAwareLoadBalancingPolicy dc rack b =
     Ret (b\<lparr>local_dc := php_scylladb_builder_set_str dc, local_rack := php_scylladb_builder_set_str rack,
            load_balancing_policy := LOAD_BALANCING_RACK_AWARE\<rparr>)"

definition withApplicationName :: "string \<Rightarrow> cluster_builder \<Rightarrow> cluster_builder outcome" where
  "withApplicationName name b = Ret (b\<lparr>application_name := php_scylladb_builder_set_str (Some name)\<rparr>)"

definition withApplicationVersion :: "string \<Rightarrow> cluster_builder \<Rightarrow> cluster_builder outcome" where
  "withApplicationVersion version b = Ret (b\<lparr>application_version := php_scylladb_builder_set_str (Some version)\<rparr>)"

definition withExponentialReconnect :: "64 word \<Rightarrow> 64 word \<Rightarrow> cluster_builder \<Rightarrow> cluster_builder outcome" where
  "withExponentialReconnect base_interval max_interval b =
     (if dbl_le base_interval 0 then invalid_argument ''baseInterval'' ''a positive number''
      else if dbl_less max_interval base_interval then invalid_argument ''maxInterval'' ''greater than or equal to the base interval''
      else bind_outcome (dbl_ceil_mult 32 1000 base_interval) (\<lambda>base. bind_outcome (dbl_ceil_mult 32 1000 max_interval) (\<lambda>mx.
        Ret (b\<lparr>reconnect_interval := base, reconnect_max_interval := mx, reconnect_policy := RECONNECT_POLICY_EXPONENTIAL\<rparr>))))"

definition withConstantSpeculativeExecutionPolicy :: "64 word \<Rightarrow> int \<Rightarrow> cluster_builder \<Rightarrow> cluster_builder outcome" where
  "withConstantSpeculativeExecutionPolicy delay max_executions b =
     (if dbl_le delay 0 then invalid_argument ''delay'' ''a positive number''
      else if max_executions \<le> 0 then invalid_argument ''maxSpeculativeExecutions'' ''a positive integer''
      else bind_outcome (dbl_ceil_mult 32 1000 delay) (\<lambda>ms.
        Ret (b\<lparr>speculative_execution_delay := ms, speculative_execution_max := cast_s 32 max_executions\<rparr>)))"

definition withNoSpeculativeExecutionPolicy :: "cluster_builder \<Rightarrow> cluster_builder outcome" where
  "withNoSpeculativeExecutionPolicy b = Ret (b\<lparr>speculative_execution_delay := 0\<rparr>)"

definition withCoalesceDelay :: "int \<Rightarrow> cluster_builder \<Rightarrow> cluster_builder outcome" where
  "withCoalesceDelay delay_us b =
     (if delay_us \<le> 0 then invalid_argument ''microseconds'' ''a positive integer''
      else Ret (b\<lparr>coalesce_delay := cast_s 32 delay_us\<rparr>))"

definition withNewRequestRatio :: "int \<Rightarrow> cluster_builder \<Rightarrow> cluster_builder outcome" where
  "withNewRequestRatio ratio b =
     (if ratio < 1 \<or> 100 < ratio then invalid_argument ''ratio'' ''between 1 and 100''
      else Ret (b\<lparr>new_request_ratio := cast_s 32 ratio\<rparr>))"

text \<open>The name is the text of a string or of an enum case; other arguments have none.\<close>

definition withExecutionProfile :: "string option \<Rightarrow> nat \<Rightarrow> cluster_builder \<Rightarrow> cluster_builder outcome" where
  "withExecutionProfile name profile b =
     (case name of
        None \<Rightarrow> invalid_argument ''name'' ''a string or an enum case''
      | Some n \<Rightarrow>
          if n = [] then invalid_argument ''name'' ''a non-empty string''
          else Ret (b\<lparr>execution_profiles := AList.update n profile (execution_profiles b)\<rparr>))"

definition withRetryPolicy :: "nat \<Rightarrow> cluster_builder \<Rightarrow> cluster_builder outcome" where
  "withRetryPolicy policy b = Ret (b\<lparr>retry_policy := Some policy\<rparr>)"

definition withTimestampGenerator :: "nat \<Rightarrow> cluster_builder \<Rightarrow> cluster_builder outcome" where
  "withTimestampGenerator gen b = Ret (b\<lparr>timestamp_gen := Some gen\<rparr>)"

definition withSchemaMetadata :: "bool \<Rightarrow> cluster_builder \<Rightarrow> cluster_builder outcome" where
  "withSchemaMetadata enabled b = Ret (b\<lparr>enable_schema := enabled\<rparr>)"

definition withHostnameResolution :: "bool \<Rightarrow> cluster_builder \<Rightarrow> cluster_builder outcome" where
  "withHostnameResolution enabled b = Ret (b\<lparr>enable_hostname_resolution := enabled\<rparr>)"

definition withRandomizedContactPoints :: "bool \<Rightarrow> cluster_builder \<Rightarrow> cluster_builder outcome" where
  "withRandomizedContactPoints enabled b = Ret (b\<lparr>enable_randomized_contact_points := enabled\<rparr>)"

definition withConnectionHeartbeatInterval :: "64 word \<Rightarrow> cluster_builder \<Rightarrow> cluster_builder outcome" where
  "withConnectionHeartbeatInterval interval b =
     bind_outcome (php_scylladb_set_interval_secs interval) (\<lambda>secs. Ret (b\<lparr>connection_heartbeat_interval := secs\<rparr>))"

text \<open>A new builder: empty strings of php.ini mean "not set", and integers are cut to their fields.\<close>

definition seed_str :: "string option \<Rightarrow> string option" where
  "seed_str v = (if v = Some [] then None else v)"

definition php_scylladb_cluster_builder_new :: "ini \<Rightarrow> cluster_builder" where
  "php_scylladb_cluster_builder_new G =
     (let u32 = (\<lambda>n. cast_u 32 (ini_number G n)); s32 = (\<lambda>n. cast_s 32 (ini_number G n)); flag = ini_flag G
      in \<lparr>contact_points = (case seed_str (ini_contact_points G) of None \<Rightarrow> ''127.0.0.1'' | Some s \<Rightarrow> s),
          username = None, password = None, local_dc = seed_str (ini_local_dc G),
          blacklist_hosts = None, whitelist_hosts = None, blacklist_dcs = None, whitelist_dcs = None,
          local_rack = seed_str (ini_local_rack G), application_name = seed_str (ini_application_name G),
          application_version = seed_str (ini_application_version G), local_address = seed_str (ini_local_address G),
          used_hosts_per_remote_dc = 0, connect_timeout = u32 ''connect_timeout'', default_consistency = u32 ''default_consistency'',
          default_page_size = u32 ''default_page_size'', protocol_version = u32 ''protocol_version'', io_threads = u32 ''io_threads'',
          core_connections_per_host = u32 ''core_connections_per_host'', max_connections_per_host = u32 ''max_connections_per_host'',
          reconnect_interval = u32 ''reconnect_interval'', tcp_keepalive_delay = u32 ''tcp_keepalive_delay'',
          enable_latency_aware_routing = flag ''latency_aware_routing'', enable_tcp_nodelay = flag ''tcp_nodelay'',
          enable_tcp_keepalive = 0 < ini_number G ''tcp_keepalive_delay'', enable_schema = flag ''schema_metadata'',
          enable_hostname_resolution = flag ''hostname_resolution'', enable_randomized_contact_points = flag ''randomized_contact_points'',
          allow_remote_dcs_for_local_cl = False, use_token_aware_routing = flag ''token_aware_routing'',
          connection_heartbeat_interval = u32 ''connection_heartbeat_interval'', request_timeout = u32 ''request_timeout'',
          reconnect_max_interval = u32 ''reconnect_max_interval'', speculative_execution_delay = u32 ''speculative_execution_delay'',
          speculative_execution_max = s32 ''speculative_execution_max'', coalesce_delay = s32 ''coalesce_delay'',
          new_request_ratio = s32 ''new_request_ratio'', connection_idle_timeout = u32 ''connection_idle_timeout'',
          max_schema_wait_time = u32 ''max_schema_wait_time'', resolve_timeout = u32 ''resolve_timeout'',
          monitor_reporting_interval = u32 ''monitor_reporting_interval'', queue_size_io = u32 ''queue_size_io'',
          tracing_consistency = u32 ''tracing_consistency'', tracing_max_wait_time = u32 ''tracing_max_wait_time'',
          tracing_retry_wait_time = u32 ''tracing_retry_wait_time'', prepare_on_all_hosts = flag ''prepare_on_all_hosts'',
          prepare_on_up_or_add_host = flag ''prepare_on_up_or_add_host'', shuffle_replicas = flag ''shuffle_replicas'',
          no_compact = flag ''no_compact'', beta_protocol = flag ''beta_protocol'', port = cast_u 16 (ini_number G ''port''),
          reconnect_policy =
            (case ini_reconnect_policy G of
               Some s \<Rightarrow> if map c_tolower s = ''exponential'' then RECONNECT_POLICY_EXPONENTIAL else RECONNECT_POLICY_CONSTANT
             | None \<Rightarrow> RECONNECT_POLICY_CONSTANT),
          load_balancing_policy = (if seed_str (ini_local_rack G) \<noteq> None then LOAD_BALANCING_RACK_AWARE else LOAD_BALANCING_DEFAULT),
          persist = allow_persistent G, retry_policy = None, timestamp_gen = None, ssl_options = None, execution_profiles = [],
          default_timeout = None\<rparr>)"

section \<open>Execution profiles\<close>

text \<open>
  A setter mixes its tag and its arguments, cut to 32 bits, into the profile's hash, then calls the
  driver; when the driver refuses the call, the hash has changed and the profile has not.
\<close>

definition php_scylladb_profile_this :: "string \<Rightarrow> execution_profile \<Rightarrow> execution_profile" where
  "php_scylladb_profile_this tag p = p\<lparr>config_hash := php_scylladb_cache_key_mix_cstr (config_hash p) (Some tag)\<rparr>"

definition profile_mix_int :: "int \<Rightarrow> execution_profile \<Rightarrow> execution_profile" where
  "profile_mix_int v p = p\<lparr>config_hash := php_scylladb_cache_key_mix_int (config_hash p) (cast_s 32 v)\<rparr>"

definition profile_mix_zstr :: "string \<Rightarrow> execution_profile \<Rightarrow> execution_profile" where
  "profile_mix_zstr s p = p\<lparr>config_hash := php_scylladb_cache_key_mix_zstr (config_hash p) (Some s)\<rparr>"

definition profile_call :: "(ccall \<Rightarrow> cass_rc) \<Rightarrow> ccall \<Rightarrow> execution_profile \<Rightarrow> unit outcome \<times> execution_profile" where
  "profile_call rc c p = (case rc_error (rc c) of None \<Rightarrow> (Ret (), p\<lparr>ep_calls := ep_calls p @ [c]\<rparr>) | Some e \<Rightarrow> (Throw e, p))"

definition refuse :: "string \<Rightarrow> string \<Rightarrow> execution_profile \<Rightarrow> unit outcome \<times> execution_profile" where
  "refuse name expected p = (invalid_argument name expected, p)"

definition profile_seconds :: "nat \<Rightarrow> 64 word \<Rightarrow> execution_profile \<Rightarrow> (int \<Rightarrow> unit outcome \<times> execution_profile) \<Rightarrow> unit outcome \<times> execution_profile" where
  "profile_seconds w d p f = (case dbl_ceil_mult w 1000 d of Ret ms \<Rightarrow> f ms | Throw e \<Rightarrow> (Throw e, p) | UB \<Rightarrow> (UB, p))"

definition profile_withConsistency :: "(ccall \<Rightarrow> cass_rc) \<Rightarrow> int \<Rightarrow> execution_profile \<Rightarrow> unit outcome \<times> execution_profile" where
  "profile_withConsistency rc consistency p =
     (if php_scylladb_validate_consistency (cast_u 32 consistency) = - 1 then refuse ''consistency'' ''one of Cassandra::CONSISTENCY_*'' p
      else profile_call rc (''cass_execution_profile_set_consistency'', [A_Int (cast_u 32 consistency)])
             (profile_mix_int consistency (php_scylladb_profile_this ''consistency'' p)))"

definition profile_withSerialConsistency :: "(ccall \<Rightarrow> cass_rc) \<Rightarrow> int \<Rightarrow> execution_profile \<Rightarrow> unit outcome \<times> execution_profile" where
  "profile_withSerialConsistency rc consistency p =
     (if php_scylladb_validate_serial_consistency (cast_u 32 consistency) = - 1
      then refuse ''consistency'' ''Cassandra::CONSISTENCY_SERIAL or Cassandra::CONSISTENCY_LOCAL_SERIAL'' p
      else profile_call rc (''cass_execution_profile_set_serial_consistency'', [A_Int (cast_u 32 consistency)])
             (profile_mix_int consistency (php_scylladb_profile_this ''serial_consistency'' p)))"

definition profile_withRequestTimeout :: "(ccall \<Rightarrow> cass_rc) \<Rightarrow> 64 word \<Rightarrow> execution_profile \<Rightarrow> unit outcome \<times> execution_profile" where
  "profile_withRequestTimeout rc timeout p =
     (if dbl_less timeout 0 then refuse ''timeout'' ''a positive number'' p
      else let p = php_scylladb_profile_this ''request_timeout'' p
           in profile_seconds 64 timeout p (\<lambda>ms.
                profile_call rc (''cass_execution_profile_set_request_timeout'', [A_Int ms]) (profile_mix_int ms p)))"

definition profile_withRetryPolicy :: "(ccall \<Rightarrow> cass_rc) \<Rightarrow> nat \<Rightarrow> execution_profile \<Rightarrow> unit outcome \<times> execution_profile" where
  "profile_withRetryPolicy rc policy p =
     profile_call rc (''cass_execution_profile_set_retry_policy'', [A_Ptr policy])
       (profile_mix_int (int policy) ((php_scylladb_profile_this ''retry_policy'' p)\<lparr>ep_retry_policy := Some policy\<rparr>))"

definition profile_withRoundRobinLoadBalancingPolicy :: "(ccall \<Rightarrow> cass_rc) \<Rightarrow> execution_profile \<Rightarrow> unit outcome \<times> execution_profile" where
  "profile_withRoundRobinLoadBalancingPolicy rc p =
     profile_call rc (''cass_execution_profile_set_load_balance_round_robin'', []) (php_scylladb_profile_this ''lb_round_robin'' p)"

definition profile_withDatacenterAwareRoundRobinLoadBalancingPolicy ::
    "(ccall \<Rightarrow> cass_rc) \<Rightarrow> string \<Rightarrow> int \<Rightarrow> bool \<Rightarrow> execution_profile \<Rightarrow> unit outcome \<times> execution_profile" where
  "profile_withDatacenterAwareRoundRobinLoadBalancingPolicy rc dc hosts_per_remote_dc allow p =
     (if hosts_per_remote_dc < 0 then refuse ''hostPerRemoteDatacenter'' ''zero or a positive integer'' p
      else profile_call rc
             (''cass_execution_profile_set_load_balance_dc_aware_n'', [A_Str dc, A_Int (cast_u 32 hosts_per_remote_dc), A_Int (cass_bool allow)])
             (profile_mix_int (cass_bool allow) (profile_mix_int hosts_per_remote_dc
               (profile_mix_zstr dc (php_scylladb_profile_this ''lb_dc_aware'' p)))))"

text \<open>The three switches differ in tag and call.\<close>

definition profile_switch :: "(ccall \<Rightarrow> cass_rc) \<Rightarrow> string \<Rightarrow> string \<Rightarrow> bool \<Rightarrow> execution_profile \<Rightarrow> unit outcome \<times> execution_profile" where
  "profile_switch rc tag function enabled p =
     profile_call rc (function, [A_Int (cass_bool enabled)]) (profile_mix_int (cass_bool enabled) (php_scylladb_profile_this tag p))"

definition profile_withTokenAwareRouting :: "(ccall \<Rightarrow> cass_rc) \<Rightarrow> bool \<Rightarrow> execution_profile \<Rightarrow> unit outcome \<times> execution_profile" where
  "profile_withTokenAwareRouting rc = profile_switch rc ''token_aware'' ''cass_execution_profile_set_token_aware_routing''"

definition profile_withTokenAwareRoutingShuffleReplicas :: "(ccall \<Rightarrow> cass_rc) \<Rightarrow> bool \<Rightarrow> execution_profile \<Rightarrow> unit outcome \<times> execution_profile" where
  "profile_withTokenAwareRoutingShuffleReplicas rc =
     profile_switch rc ''shuffle_replicas'' ''cass_execution_profile_set_token_aware_routing_shuffle_replicas''"

definition profile_withLatencyAwareRouting :: "(ccall \<Rightarrow> cass_rc) \<Rightarrow> bool \<Rightarrow> execution_profile \<Rightarrow> unit outcome \<times> execution_profile" where
  "profile_withLatencyAwareRouting rc = profile_switch rc ''latency_aware'' ''cass_execution_profile_set_latency_aware_routing''"

text \<open>The result of the last call here is not looked at; the threshold is hashed as an \<^verbatim>\<open>int\<close> of thousandths.\<close>

definition thousandths :: "64 word \<Rightarrow> int outcome" where
  "thousandths d =
     (let c = c_div (round53 (1000 * dbl_scaled d)) (2 ^ 1074) in if dbl_isfinite d \<and> fits_s 32 c then Ret c else UB)"

definition profile_withLatencyAwareRoutingSettings ::
    "64 word \<Rightarrow> 64 word \<Rightarrow> 64 word \<Rightarrow> 64 word \<Rightarrow> int \<Rightarrow> execution_profile \<Rightarrow> unit outcome \<times> execution_profile" where
  "profile_withLatencyAwareRoutingSettings exclusion_threshold scale retry_period update_rate min_measured p =
     (if dbl_less exclusion_threshold 0 \<or> dbl_less scale 0 \<or> dbl_less retry_period 0 \<or> dbl_less update_rate 0 \<or> min_measured < 0
      then refuse ''latency aware routing settings'' ''positive numbers'' p
      else let p = php_scylladb_profile_this ''latency_aware_settings'' p
           in profile_seconds 64 scale p (\<lambda>s. profile_seconds 64 retry_period p (\<lambda>r. profile_seconds 64 update_rate p (\<lambda>u.
                case thousandths exclusion_threshold of
                  Ret e \<Rightarrow>
                    (Ret (), (profile_mix_int min_measured (profile_mix_int u (profile_mix_int r (profile_mix_int s (profile_mix_int e p)))))
                       \<lparr>ep_calls := ep_calls p @ [(''cass_execution_profile_set_latency_aware_routing_settings'',
                          [A_Double exclusion_threshold, A_Int s, A_Int r, A_Int u, A_Int (cast_u 64 min_measured)])]\<rparr>)
                | Throw e \<Rightarrow> (Throw e, p) | UB \<Rightarrow> (UB, p)))))"

definition profile_withConstantSpeculativeExecutionPolicy ::
    "(ccall \<Rightarrow> cass_rc) \<Rightarrow> 64 word \<Rightarrow> int \<Rightarrow> execution_profile \<Rightarrow> unit outcome \<times> execution_profile" where
  "profile_withConstantSpeculativeExecutionPolicy rc delay max_executions p =
     (if dbl_le delay 0 then refuse ''delay'' ''a positive number'' p
      else if max_executions \<le> 0 then refuse ''maxSpeculativeExecutions'' ''a positive integer'' p
      else let p = php_scylladb_profile_this ''speculative'' p
           in profile_seconds 63 delay p (\<lambda>ms.
                profile_call rc (''cass_execution_profile_set_constant_speculative_execution_policy'', [A_Int ms, A_Int (cast_s 32 max_executions)])
                  (profile_mix_int max_executions (profile_mix_int ms p))))"

definition profile_withNoSpeculativeExecutionPolicy :: "(ccall \<Rightarrow> cass_rc) \<Rightarrow> execution_profile \<Rightarrow> unit outcome \<times> execution_profile" where
  "profile_withNoSpeculativeExecutionPolicy rc p =
     profile_call rc (''cass_execution_profile_set_no_speculative_execution_policy'', []) (php_scylladb_profile_this ''no_speculative'' p)"

definition php_scylladb_profile_filter ::
    "(ccall \<Rightarrow> cass_rc) \<Rightarrow> string \<Rightarrow> string \<Rightarrow> zval list \<Rightarrow> execution_profile \<Rightarrow> unit outcome \<times> execution_profile" where
  "php_scylladb_profile_filter rc tag function args p =
     (if args = [] then (Throw (Exn ArgumentCountError []), p)
      else case php_scylladb_build_hosts_str args of
        None \<Rightarrow> refuse ''hosts'' ''a string ip address, hostname or datacenter name'' p
      | Some joined \<Rightarrow> profile_call rc (function, [A_Str (c_str joined)]) (profile_mix_zstr joined (php_scylladb_profile_this tag p)))"

definition profile_withWhiteListHosts :: "(ccall \<Rightarrow> cass_rc) \<Rightarrow> zval list \<Rightarrow> execution_profile \<Rightarrow> unit outcome \<times> execution_profile" where
  "profile_withWhiteListHosts rc = php_scylladb_profile_filter rc ''whitelist_hosts'' ''cass_execution_profile_set_whitelist_filtering''"

definition profile_withBlackListHosts :: "(ccall \<Rightarrow> cass_rc) \<Rightarrow> zval list \<Rightarrow> execution_profile \<Rightarrow> unit outcome \<times> execution_profile" where
  "profile_withBlackListHosts rc = php_scylladb_profile_filter rc ''blacklist_hosts'' ''cass_execution_profile_set_blacklist_filtering''"

definition profile_withWhiteListDCs :: "(ccall \<Rightarrow> cass_rc) \<Rightarrow> zval list \<Rightarrow> execution_profile \<Rightarrow> unit outcome \<times> execution_profile" where
  "profile_withWhiteListDCs rc = php_scylladb_profile_filter rc ''whitelist_dcs'' ''cass_execution_profile_set_whitelist_dc_filtering''"

definition profile_withBlackListDCs :: "(ccall \<Rightarrow> cass_rc) \<Rightarrow> zval list \<Rightarrow> execution_profile \<Rightarrow> unit outcome \<times> execution_profile" where
  "profile_withBlackListDCs rc = php_scylladb_profile_filter rc ''blacklist_dcs'' ''cass_execution_profile_set_blacklist_dc_filtering''"

definition php_scylladb_execution_profile_new :: execution_profile where
  "php_scylladb_execution_profile_new = \<lparr>ep_calls = [], config_hash = php_scylladb_cache_key_init, ep_retry_policy = None\<rparr>"

section \<open>Building\<close>

text \<open>The fields of the fingerprint, in the order they are mixed.\<close>

definition load_balancing_code :: "php_scylladb_load_balancing \<Rightarrow> int" where
  "load_balancing_code l =
     (case l of LOAD_BALANCING_DEFAULT \<Rightarrow> 0 | LOAD_BALANCING_ROUND_ROBIN \<Rightarrow> 1 | LOAD_BALANCING_DC_AWARE_ROUND_ROBIN \<Rightarrow> 2
      | LOAD_BALANCING_RACK_AWARE \<Rightarrow> 3)"

definition reconnect_code :: "php_scylladb_reconnect_policy \<Rightarrow> int" where
  "reconnect_code r = (case r of RECONNECT_POLICY_CONSTANT \<Rightarrow> 0 | RECONNECT_POLICY_EXPONENTIAL \<Rightarrow> 1)"

definition own_fields :: "cluster_builder \<Rightarrow> key_field list" where
  "own_fields b =
     (let I = K_Int; B = (\<lambda>x. K_Int (cass_bool x)); S = K_Zstr
      in [K_Cstr (Some ''cassandra''), S (Some (contact_points b)), I (port b), I (load_balancing_code (load_balancing_policy b)), S (local_dc b),
          I (used_hosts_per_remote_dc b), B (allow_remote_dcs_for_local_cl b), B (use_token_aware_routing b), S (username b), S (password b),
          I (connect_timeout b), I (request_timeout b), I (protocol_version b), I (io_threads b), I (core_connections_per_host b),
          I (max_connections_per_host b), I (reconnect_interval b), B (enable_latency_aware_routing b), B (enable_tcp_nodelay b),
          B (enable_tcp_keepalive b), I (tcp_keepalive_delay b), B (enable_schema b), B (enable_hostname_resolution b),
          B (enable_randomized_contact_points b), I (connection_heartbeat_interval b), S (whitelist_hosts b), S (whitelist_dcs b),
          S (blacklist_hosts b), S (blacklist_dcs b), S (local_rack b), S (application_name b), S (application_version b),
          I (reconnect_code (reconnect_policy b)), I (reconnect_max_interval b), I (speculative_execution_delay b),
          I (speculative_execution_max b), I (coalesce_delay b), I (new_request_ratio b), S (local_address b), I (connection_idle_timeout b),
          I (max_schema_wait_time b), I (resolve_timeout b), I (monitor_reporting_interval b), I (queue_size_io b), I (tracing_consistency b),
          I (tracing_max_wait_time b), I (tracing_retry_wait_time b), B (prepare_on_all_hosts b), B (prepare_on_up_or_add_host b),
          B (shuffle_replicas b), B (no_compact b), B (beta_protocol b)])"

definition profile_fields :: "(nat \<Rightarrow> execution_profile) \<Rightarrow> (string \<times> nat) list \<Rightarrow> key_field list" where
  "profile_fields P ps = concat (map (\<lambda>(name, p). [K_Zstr (Some name), K_Ulong (config_hash (P p))]) ps)"

definition builder_fields :: "(nat \<Rightarrow> execution_profile) \<Rightarrow> cluster_builder \<Rightarrow> key_field list" where
  "builder_fields P b = own_fields b @ profile_fields P (execution_profiles b)"

definition builder_key :: "(nat \<Rightarrow> execution_profile) \<Rightarrow> cluster_builder \<Rightarrow> 64 word" where
  "builder_key P b = mix_fields php_scylladb_cache_key_init (builder_fields P b)"

text \<open>
  The calls on the new cluster, in order: those whose result is checked, those whose result is ignored,
  and the one for host names, which may not be implemented. Three backends can be compiled in.
\<close>

datatype backend = Scylla_cpp | Scylla_rust | Cassandra_cpp

datatype check = Checked | Unchecked | Hostnames bool

definition opt_str :: "string \<Rightarrow> check \<Rightarrow> string option \<Rightarrow> (check \<times> ccall) list" where
  "opt_str function k s = (case s of None \<Rightarrow> [] | Some s \<Rightarrow> [(k, (function, [A_Str s]))])"

definition safe_zend_string :: "string option \<Rightarrow> carg" where
  "safe_zend_string s = A_Str (case s of None \<Rightarrow> [] | Some s \<Rightarrow> c_str s)"

definition load_balancing_calls :: "backend \<Rightarrow> cluster_builder \<Rightarrow> (check \<times> ccall) list" where
  "load_balancing_calls K b =
     (case load_balancing_policy b of
        LOAD_BALANCING_DEFAULT \<Rightarrow> []
      | LOAD_BALANCING_ROUND_ROBIN \<Rightarrow> [(Unchecked, (''cass_cluster_set_load_balance_round_robin'', []))]
      | LOAD_BALANCING_DC_AWARE_ROUND_ROBIN \<Rightarrow>
          [(Checked, (''cass_cluster_set_load_balance_dc_aware'',
            [safe_zend_string (local_dc b), A_Int (used_hosts_per_remote_dc b), A_Int (cass_bool (allow_remote_dcs_for_local_cl b))]))]
      | LOAD_BALANCING_RACK_AWARE \<Rightarrow>
          (if K = Cassandra_cpp then []
           else [(Unchecked, (''cass_cluster_set_load_balance_rack_aware'', [safe_zend_string (local_dc b), safe_zend_string (local_rack b)]))]))"

definition credentials_calls :: "cluster_builder \<Rightarrow> (check \<times> ccall) list outcome" where
  "credentials_calls b =
     (case (username b, password b) of
        (None, _) \<Rightarrow> Ret []
      | (Some user, Some pass) \<Rightarrow> Ret [(Unchecked, (''cass_cluster_set_credentials_n'', [A_Str user, A_Str pass]))]
      | (Some _, None) \<Rightarrow> UB)"

definition reconnect_calls :: "cluster_builder \<Rightarrow> (check \<times> ccall) list" where
  "reconnect_calls b =
     (if reconnect_policy b = RECONNECT_POLICY_EXPONENTIAL
      then [(Checked, (''cass_cluster_set_exponential_reconnect'', [A_Int (reconnect_interval b), A_Int (reconnect_max_interval b)]))]
      else [(Unchecked, (''cass_cluster_set_constant_reconnect'', [A_Int (reconnect_interval b)]))])"

definition opt_ptr :: "string \<Rightarrow> nat option \<Rightarrow> (check \<times> ccall) list" where
  "opt_ptr function p = (case p of None \<Rightarrow> [] | Some p \<Rightarrow> [(Unchecked, (function, [A_Ptr p]))])"

definition profile_calls :: "(nat \<Rightarrow> execution_profile) \<Rightarrow> (string \<times> nat) list \<Rightarrow> (check \<times> ccall) list" where
  "profile_calls P ps = map (\<lambda>(name, p). (Checked, (''cass_cluster_set_execution_profile_n'', [A_Str name, A_Profile (ep_calls (P p))]))) ps"

definition cluster_calls :: "backend \<Rightarrow> (nat \<Rightarrow> execution_profile) \<Rightarrow> cluster_builder \<Rightarrow> (check \<times> ccall) list outcome" where
  "cluster_calls K P b =
     (let call = (\<lambda>k f n. (k, (''cass_cluster_set_'' @ f, [A_Int n]))); bool = (\<lambda>f x. (Unchecked, (''cass_cluster_set_'' @ f, [A_Int (cass_bool x)])));
          cpp = (\<lambda>cs. if K = Scylla_rust then [] else cs)
      in bind_outcome (credentials_calls b) (\<lambda>credentials.
        Ret (load_balancing_calls K b @
          opt_str ''cass_cluster_set_blacklist_filtering_n'' Unchecked (blacklist_hosts b) @
          opt_str ''cass_cluster_set_whitelist_filtering_n'' Unchecked (whitelist_hosts b) @
          opt_str ''cass_cluster_set_blacklist_dc_filtering_n'' Unchecked (blacklist_dcs b) @
          opt_str ''cass_cluster_set_whitelist_dc_filtering_n'' Unchecked (whitelist_dcs b) @
          [bool ''token_aware_routing'' (use_token_aware_routing b)] @ credentials @
          [call Unchecked ''connect_timeout'' (connect_timeout b), call Unchecked ''request_timeout'' (request_timeout b)] @
          opt_ptr ''cass_cluster_set_ssl'' (ssl_options b) @
          [(Checked, (''cass_cluster_set_contact_points_n'', [A_Str (contact_points b)])), call Checked ''port'' (port b),
           call Checked ''protocol_version'' (cast_s 32 (protocol_version b)), call Checked ''num_threads_io'' (io_threads b),
           call Checked ''core_connections_per_host'' (core_connections_per_host b)] @
          cpp [call Checked ''max_connections_per_host'' (max_connections_per_host b)] @ reconnect_calls b @
          (if 0 < speculative_execution_delay b
           then [(Checked, (''cass_cluster_set_constant_speculative_execution_policy'',
             [A_Int (speculative_execution_delay b), A_Int (speculative_execution_max b)]))] else []) @
          [call Checked ''coalesce_delay'' (coalesce_delay b), call Unchecked ''connection_idle_timeout'' (connection_idle_timeout b),
           call Unchecked ''max_schema_wait_time'' (max_schema_wait_time b), call Unchecked ''resolve_timeout'' (resolve_timeout b),
           bool ''token_aware_routing_shuffle_replicas'' (shuffle_replicas b), bool ''use_beta_protocol_version'' (beta_protocol b)] @
          cpp [bool ''prepare_on_all_hosts'' (prepare_on_all_hosts b), call Checked ''new_request_ratio'' (new_request_ratio b),
               call Checked ''queue_size_io'' (queue_size_io b), call Unchecked ''monitor_reporting_interval'' (monitor_reporting_interval b),
               bool ''prepare_on_up_or_add_host'' (prepare_on_up_or_add_host b), bool ''no_compact'' (no_compact b),
               call Unchecked ''tracing_consistency'' (tracing_consistency b), call Unchecked ''tracing_max_wait_time'' (tracing_max_wait_time b),
               call Unchecked ''tracing_retry_wait_time'' (tracing_retry_wait_time b)] @
          opt_str ''cass_cluster_set_local_address_n'' Checked (local_address b) @ profile_calls P (execution_profiles b) @
          opt_str ''cass_cluster_set_application_name_n'' Unchecked (application_name b) @
          opt_str ''cass_cluster_set_application_version_n'' Unchecked (application_version b) @
          [bool ''latency_aware_routing'' (enable_latency_aware_routing b), bool ''tcp_nodelay'' (enable_tcp_nodelay b),
           (Unchecked, (''cass_cluster_set_tcp_keepalive'', [A_Int (cass_bool (enable_tcp_keepalive b)), A_Int (tcp_keepalive_delay b)])),
           bool ''use_schema'' (enable_schema b)] @
          cpp [(Hostnames (enable_hostname_resolution b),
                (''cass_cluster_set_use_hostname_resolution'', [A_Int (cass_bool (enable_hostname_resolution b))]))] @
          [(Checked, (''cass_cluster_set_use_randomized_contact_points'', [A_Int (cass_bool (enable_randomized_contact_points b))])),
           call Unchecked ''connection_heartbeat_interval'' (connection_heartbeat_interval b)] @
          opt_ptr ''cass_cluster_set_timestamp_gen'' (timestamp_gen b) @ opt_ptr ''cass_cluster_set_retry_policy'' (retry_policy b))))"

record cluster =
  cl_cluster :: "nat option"
  cl_default_consistency :: int
  cl_default_page_size :: int
  cl_default_timeout :: "64 word option"
  cl_persist :: bool
  cl_cache_key :: "64 word"

text \<open>Running the calls: those made, and the exception that stopped the build.\<close>

fun run_calls :: "(ccall \<Rightarrow> cass_rc) \<Rightarrow> (check \<times> ccall) list \<Rightarrow> ccall list \<Rightarrow> ccall list \<times> exn option" where
  "run_calls rc [] made = (made, None)"
| "run_calls rc ((k, c) # cs) made =
     (let failed = (case (k, rc c) of
            (Unchecked, _) \<Rightarrow> None
          | (Hostnames True, CASS_ERROR_LIB_NOT_IMPLEMENTED _) \<Rightarrow> None
          | (_, r) \<Rightarrow> rc_error r)
      in case failed of Some e \<Rightarrow> (made, Some e) | None \<Rightarrow> run_calls rc cs (if rc c = CASS_OK then made @ [c] else made))"

definition php_scylladb_default_cluster_free :: "cluster \<Rightarrow> process \<Rightarrow> process outcome" where
  "php_scylladb_default_cluster_free c W =
     (case cl_cluster c of
        Some p \<Rightarrow> if cl_persist c then Ret W else cass_cluster_free p W
      | None \<Rightarrow> Ret W)"

definition new_cluster :: "cluster_builder \<Rightarrow> 64 word \<Rightarrow> cluster" where
  "new_cluster b h =
     \<lparr>cl_cluster = None, cl_default_consistency = default_consistency b, cl_default_page_size = default_page_size b,
      cl_default_timeout = default_timeout b, cl_persist = persist b, cl_cache_key = h\<rparr>"

text \<open>
  \<^verbatim>\<open>build\<close> without the lookup: a new driver cluster, entered in the list when the object is persistent.
  An exception destroys the object that was to be returned.
\<close>

definition build_new ::
    "backend \<Rightarrow> (ccall \<Rightarrow> cass_rc) \<Rightarrow> (nat \<Rightarrow> execution_profile) \<Rightarrow> cluster_builder \<Rightarrow> cluster \<Rightarrow> process \<Rightarrow> cluster outcome \<times> process" where
  "build_new K rc P b c W =
     (let p = next_ptr W; c = c\<lparr>cl_cluster := Some p\<rparr>
      in case cluster_calls K P b of
           Ret calls \<Rightarrow>
             (let r = run_calls rc calls []; W = W\<lparr>next_ptr := Suc p, cass_clusters := (cass_clusters W)(p \<mapsto> fst r)\<rparr>
              in case snd r of
                   Some e \<Rightarrow> with_process (php_scylladb_default_cluster_free c W) W (\<lambda>W. (Throw e, W))
                 | None \<Rightarrow>
                     if cl_persist c
                     then with_process (plist_update (cl_cache_key c) (R_Cluster p) W) W (\<lambda>W. (Ret c, use_entry PERSISTENT_CLUSTERS 1 W))
                     else (Ret c, W))
         | _ \<Rightarrow> (UB, W))"

definition build ::
    "backend \<Rightarrow> (ccall \<Rightarrow> cass_rc) \<Rightarrow> (nat \<Rightarrow> execution_profile) \<Rightarrow> cluster_builder \<Rightarrow> process \<Rightarrow> cluster outcome \<times> process" where
  "build K rc P b W =
     (if \<not> persist b then build_new K rc P b (new_cluster b 0) W
      else let h = builder_key P b; c = new_cluster b h
           in case persistent_list W h of
                Some (R_Cluster p) \<Rightarrow> (Ret (c\<lparr>cl_cluster := Some p\<rparr>), W)
              | _ \<Rightarrow>
                  (case php_scylladb_persistent_can_cache PERSISTENT_CLUSTERS W of
                     (True, W) \<Rightarrow> build_new K rc P b c W
                   | (False, W) \<Rightarrow> build_new K rc P b (c\<lparr>cl_persist := False\<rparr>) W))"

section \<open>The builder keeps its invariant\<close>

text \<open>All methods that configure a builder.\<close>

inductive setter :: "ini \<Rightarrow> (cluster_builder \<Rightarrow> cluster_builder outcome) \<Rightarrow> bool" for G where
  "setter G (withDefaultConsistency n)"
| "setter G (withDefaultPageSize n)"
| "setter G (withDefaultTimeout d)"
| "setter G (withContactPoints vs)"
| "setter G (withPort n)"
| "setter G withRoundRobinLoadBalancingPolicy"
| "setter G (withDatacenterAwareRoundRobinLoadBalancingPolicy s n x)"
| "setter G (withBlackListHosts vs)"
| "setter G (withWhiteListHosts vs)"
| "setter G (withBlackListDCs vs)"
| "setter G (withWhiteListDCs vs)"
| "setter G (withTokenAwareRouting x)"
| "setter G (withCredentials s t)"
| "setter G (withConnectTimeout d)"
| "setter G (withRequestTimeout d)"
| "setter G (withSSL p)"
| "setter G (withPersistentSessions G x)"
| "setter G (withProtocolVersion x n)"
| "setter G (withIOThreads n)"
| "setter G (withConnectionsPerHost n m)"
| "setter G (withReconnectInterval d)"
| "setter G (withLatencyAwareRouting x)"
| "setter G (withTCPNodelay x)"
| "setter G (withTCPKeepalive d')"
| "setter G (withRackAwareLoadBalancingPolicy s' t')"
| "setter G (withApplicationName s)"
| "setter G (withApplicationVersion s)"
| "setter G (withExponentialReconnect d e)"
| "setter G (withConstantSpeculativeExecutionPolicy d n)"
| "setter G withNoSpeculativeExecutionPolicy"
| "setter G (withCoalesceDelay n)"
| "setter G (withNewRequestRatio n)"
| "setter G (withExecutionProfile s' p)"
| "setter G (withRetryPolicy p)"
| "setter G (withTimestampGenerator p)"
| "setter G (withSchemaMetadata x)"
| "setter G (withHostnameResolution x)"
| "setter G (withRandomizedContactPoints x)"
| "setter G (withConnectionHeartbeatInterval d)"

inductive builder_reachable :: "ini \<Rightarrow> cluster_builder \<Rightarrow> bool" for G where
  new: "builder_reachable G (php_scylladb_cluster_builder_new G)"
| set: "builder_reachable G b \<Longrightarrow> setter G f \<Longrightarrow> f b = Ret b' \<Longrightarrow> builder_reachable G b'"

text \<open>The unsigned and the signed 32-bit fields.\<close>

definition u32_fields :: "cluster_builder \<Rightarrow> int list" where
  "u32_fields b =
     [used_hosts_per_remote_dc b, connect_timeout b, default_consistency b, default_page_size b, protocol_version b, io_threads b,
      core_connections_per_host b, max_connections_per_host b, reconnect_interval b, tcp_keepalive_delay b, connection_heartbeat_interval b,
      request_timeout b, reconnect_max_interval b, speculative_execution_delay b, connection_idle_timeout b, max_schema_wait_time b,
      resolve_timeout b, monitor_reporting_interval b, queue_size_io b, tracing_consistency b, tracing_max_wait_time b, tracing_retry_wait_time b]"

definition s32_fields :: "cluster_builder \<Rightarrow> int list" where
  "s32_fields b = [speculative_execution_max b, coalesce_delay b, new_request_ratio b]"

definition builder_ok :: "ini \<Rightarrow> cluster_builder \<Rightarrow> bool" where
  "builder_ok G b \<longleftrightarrow>
     list_all (\<lambda>v. 0 \<le> v \<and> v < 2 ^ 32) (u32_fields b) \<and> list_all (fits_s 32) (s32_fields b) \<and> 0 \<le> port b \<and> port b < 2 ^ 16 \<and>
     (username b = None \<longleftrightarrow> password b = None) \<and>
     (load_balancing_policy b = LOAD_BALANCING_DC_AWARE_ROUND_ROBIN \<longrightarrow> local_dc b \<noteq> None) \<and>
     (persist b \<longrightarrow> allow_persistent G) \<and>
     local_rack b \<noteq> Some [] \<and> application_name b \<noteq> Some [] \<and> application_version b \<noteq> Some [] \<and> local_address b \<noteq> Some [] \<and>
     distinct (map fst (execution_profiles b)) \<and> [] \<notin> fst ` set (execution_profiles b)"

lemma cast_u_bounds: "0 \<le> cast_u w n" "cast_u w n < 2 ^ w"
  by (simp_all add: cast_u_def)

lemma ceil_bounds: "dbl_ceil_mult w k d = Ret c \<Longrightarrow> 0 \<le> c \<and> c < 2 ^ w"
  by (auto simp: dbl_ceil_mult_def Let_def split: if_splits)

lemma timeout_bounds: "php_scylladb_set_timeout d = Ret c \<Longrightarrow> 0 \<le> c \<and> c < 2 ^ 32" "php_scylladb_set_interval_secs d = Ret c \<Longrightarrow> 0 \<le> c \<and> c < 2 ^ 32"
  by (auto simp: php_scylladb_set_timeout_def php_scylladb_set_interval_secs_def invalid_argument_def dest!: ceil_bounds split: if_splits)

lemma new_builder_ok: "builder_ok G (php_scylladb_cluster_builder_new G)"
  using cast_u_bounds [of 32] cast_u_bounds [of 16] cast_s_fits [of 32]
  by (auto simp: php_scylladb_cluster_builder_new_def builder_ok_def u32_fields_def s32_fields_def seed_str_def Let_def split: option.splits)

lemmas setter_defs =
  withDefaultConsistency_def withDefaultPageSize_def withDefaultTimeout_def withContactPoints_def withPort_def
  withRoundRobinLoadBalancingPolicy_def withDatacenterAwareRoundRobinLoadBalancingPolicy_def withBlackListHosts_def withWhiteListHosts_def
  withBlackListDCs_def withWhiteListDCs_def withTokenAwareRouting_def withCredentials_def withConnectTimeout_def withRequestTimeout_def
  withSSL_def withPersistentSessions_def withProtocolVersion_def withIOThreads_def withConnectionsPerHost_def withReconnectInterval_def
  withLatencyAwareRouting_def withTCPNodelay_def withTCPKeepalive_def withRackAwareLoadBalancingPolicy_def withApplicationName_def
  withApplicationVersion_def withExponentialReconnect_def withConstantSpeculativeExecutionPolicy_def withNoSpeculativeExecutionPolicy_def
  withCoalesceDelay_def withNewRequestRatio_def withExecutionProfile_def withRetryPolicy_def withTimestampGenerator_def
  withSchemaMetadata_def withHostnameResolution_def withRandomizedContactPoints_def withConnectionHeartbeatInterval_def

text \<open>A property of what is returned, if anything is.\<close>

definition if_returns :: "('a \<Rightarrow> bool) \<Rightarrow> 'a outcome \<Rightarrow> bool" where
  "if_returns P r = (case r of Ret x \<Rightarrow> P x | _ \<Rightarrow> True)"

lemma if_returns_simps [simp]:
  "if_returns P (Ret x) = P x" "if_returns P (Throw e)" "if_returns P UB" "if_returns P (invalid_argument a c)"
  by (simp_all add: if_returns_def invalid_argument_def)

lemma if_returns_bind [simp]: "if_returns P (bind_outcome r g) \<longleftrightarrow> (\<forall>x. r = Ret x \<longrightarrow> if_returns P (g x))"
  by (cases r) auto

lemma setter_ok:
  assumes b: "builder_ok G b" and f: "setter G f"
  shows "if_returns (builder_ok G) (f b)"
proof -
  have u: "0 \<le> cast_u 32 n" "cast_u 32 n < 4294967296" "0 \<le> cast_u 16 n" "cast_u 16 n < 65536" "fits_s 32 (cast_s 32 n)" for n
    using cast_u_bounds [of 32] cast_u_bounds [of 16] cast_s_fits [of 32] by auto
  note t = timeout_bounds [simplified] ceil_bounds [of 32, simplified]
  show ?thesis
    by (rule setter.cases [OF f]; insert b;
        simp add: setter_defs builder_ok_def u32_fields_def s32_fields_def u t php_scylladb_builder_set_str_def dom_update distinct_update
          del: fits_s_numeral split: option.split)
qed

lemma reachable_ok: "builder_reachable G b \<Longrightarrow> builder_ok G b"
proof (induction rule: builder_reachable.induct)
  case (set b f b')
  then show ?case using setter_ok [of G b f] by simp
qed (rule new_builder_ok)

section \<open>Timeouts\<close>

lemma round53_near: "0 \<le> m \<Longrightarrow> 2 ^ 53 * \<bar>round53 m - m\<bar> \<le> m"
proof (cases "bitlen m \<le> 53")
  case True
  then show "0 \<le> m \<Longrightarrow> ?thesis" by (simp add: round53_def)
next
  case False
  define s where "s = nat (bitlen m - 53)"
  have s: "bitlen m - 1 = int (s + 52)" using False by (simp add: s_def)
  have "0 < m" using False bitlen_eq_zero_iff [of m] by linarith
  then have low: "2 ^ (s + 52) \<le> m" using bitlen_bounds [of m] unfolding s nat_int by blast
  let ?q = "m div 2 ^ s" and ?r = "m mod 2 ^ s"
  have m: "m = ?q * 2 ^ s + ?r" by (rule div_mult_mod_eq [symmetric])
  have r: "0 \<le> ?r" "?r < 2 ^ s" by simp_all
  have "2 * \<bar>round53 m - m\<bar> \<le> 2 ^ s"
  proof (cases "2 ^ s < 2 * ?r \<or> 2 ^ s = 2 * ?r \<and> odd ?q")
    case True
    then have "round53 m = (?q + 1) * 2 ^ s" by (simp add: round53_def s_def [symmetric] Let_def)
    then have "round53 m - m = 2 ^ s - ?r" using m by (simp add: algebra_simps)
    then have "\<bar>round53 m - m\<bar> = 2 ^ s - ?r" using r(2) by linarith
    moreover have "2 ^ s \<le> 2 * ?r" using True by auto
    moreover have "x = P - r \<Longrightarrow> P \<le> 2 * r \<Longrightarrow> 2 * x \<le> P" for x P r :: int by simp
    ultimately show ?thesis by blast
  next
    case False
    then have "round53 m = ?q * 2 ^ s" by (simp add: round53_def s_def [symmetric] Let_def)
    then have "round53 m - m = - ?r" using m by linarith
    moreover have "2 * ?r \<le> 2 ^ s" using False by auto
    ultimately show ?thesis using r by simp
  qed
  then have "2 ^ 52 * (2 * \<bar>round53 m - m\<bar>) \<le> 2 ^ 52 * 2 ^ s" by (rule mult_left_mono) simp
  then show ?thesis using low by (simp add: power_add mult.commute)
qed

text \<open>Milliseconds are the seconds rounded up, but for the rounding of the product to a double.\<close>

lemma set_timeout_near:
  assumes "php_scylladb_set_timeout d = Ret ms"
  shows "(2 ^ 53 - 1) * (1000 * dbl_scaled d) \<le> 2 ^ 53 * (ms * 2 ^ 1074)"
    and "2 ^ 53 * ((ms - 1) * 2 ^ 1074) < (2 ^ 53 + 1) * (1000 * dbl_scaled d) + 1"
proof -
  define m D where "m = 1000 * dbl_scaled d" and "D = (2 ^ 1074 :: int)"
  have fin: "dbl_isfinite d" and neg: "\<not> dbl_less d 0" and ms: "ms = - ((- round53 m) div D)"
    using assms by (auto simp: php_scylladb_set_timeout_def dbl_ceil_mult_def invalid_argument_def m_def D_def Let_def split: if_splits)
  have "0 \<le> dbl_scaled d"
    using neg fin by (auto simp: ieee_less_def ieee_isnan_def ieee_isfinite_def ieee_scaled_def ieee_exp_def ieee_frac_def ieee_sign_def not_less)
  then have near: "2 ^ 53 * \<bar>round53 m - m\<bar> \<le> m" by (intro round53_near) (simp add: m_def)
  have "0 < D" by (simp add: D_def)
  then have "0 \<le> (- round53 m) mod D" "(- round53 m) mod D < D" by simp_all
  moreover have "D * ((- round53 m) div D) = - round53 m - (- round53 m) mod D" by (rule minus_mod_eq_mult_div [symmetric])
  ultimately have up: "round53 m \<le> ms * D" "(ms - 1) * D < round53 m" unfolding ms by (simp_all only: algebra_simps minus_mult_left)
  have b: "2 ^ 53 * (m - round53 m) \<le> m" "2 ^ 53 * (round53 m - m) \<le> m"
    by (rule order_trans [OF mult_left_mono near]; simp)+
  have "(2 ^ 53 - 1) * m \<le> 2 ^ 53 * round53 m" "2 ^ 53 * round53 m \<le> (2 ^ 53 + 1) * m" using b by (simp_all add: algebra_simps)
  moreover have "2 ^ 53 * round53 m \<le> 2 ^ 53 * (ms * D)" "2 ^ 53 * ((ms - 1) * D) < 2 ^ 53 * round53 m" using up by simp_all
  ultimately show "(2 ^ 53 - 1) * (1000 * dbl_scaled d) \<le> 2 ^ 53 * (ms * 2 ^ 1074)"
    and "2 ^ 53 * ((ms - 1) * 2 ^ 1074) < (2 ^ 53 + 1) * (1000 * dbl_scaled d) + 1"
    unfolding m_def [symmetric] D_def [symmetric] by (blast intro: order_trans, linarith)
qed

end
