(* ===== verification/ClusterBuild.thy ===== *)
theory ClusterBuild
  imports Cluster
begin

text \<open>
  Building clusters: what the fingerprint of a builder determines, the calls on a new driver cluster,
  and the list of persistent clusters after \<^verbatim>\<open>build\<close>.
\<close>

section \<open>Fingerprints\<close>

definition strings_plain :: "cluster_builder \<Rightarrow> bool" where
  "strings_plain b \<longleftrightarrow>
     list_all (\<lambda>s. s \<noteq> Some [] \<and> (\<forall>t. s = Some t \<longrightarrow> NUL \<notin> set t))
       ([Some (contact_points b), local_dc b, username b, password b, whitelist_hosts b, whitelist_dcs b, blacklist_hosts b, blacklist_dcs b,
         local_rack b, application_name b, application_version b, local_address b] @ map (Some \<circ> fst) (execution_profiles b))"

lemma own_fields_kind: "list_all2 same_kind (own_fields b) (own_fields c)"
  by (simp add: own_fields_def same_kind_def)

lemma own_fields_plain: "builder_ok G b \<Longrightarrow> strings_plain b \<Longrightarrow> list_all plain_field (own_fields b)"
  by (simp add: own_fields_def builder_ok_def u32_fields_def s32_fields_def strings_plain_def plain_field_def cass_bool_def
      load_balancing_code_def reconnect_code_def fits_s_def split: php_scylladb_load_balancing.split php_scylladb_reconnect_policy.split)

lemma codes_inject:
  "cass_bool x = cass_bool y \<longleftrightarrow> x = y" "load_balancing_code l = load_balancing_code m \<longleftrightarrow> l = m" "reconnect_code r = reconnect_code q \<longleftrightarrow> r = q"
  by (auto simp: cass_bool_def load_balancing_code_def reconnect_code_def split: if_splits php_scylladb_load_balancing.splits php_scylladb_reconnect_policy.splits)

text \<open>Profiles: their names and hashes.\<close>

lemma profiles_decode:
  assumes "key_bytes (profile_fields P ps) = key_bytes (profile_fields Q qs)"
    and "\<And>s. s \<in> fst ` set ps \<union> fst ` set qs \<Longrightarrow> s \<noteq> [] \<and> NUL \<notin> set s"
  shows "map (\<lambda>(s, p). (s, config_hash (P p))) ps = map (\<lambda>(s, q). (s, config_hash (Q q))) qs"
  using assms
proof (induction ps arbitrary: qs)
  case Nil
  then show ?case by (cases qs) (auto simp: profile_fields_def key_bytes_def field_bytes_def)
next
  case (Cons p ps)
  obtain q qs' where qs: "qs = q # qs'"
    using Cons.prems(1) by (cases qs) (auto simp: profile_fields_def key_bytes_def field_bytes_def split_beta)
  let ?h = "\<lambda>R e. [K_Zstr (Some (fst e)), K_Ulong (config_hash (R (snd e)))]"
  have "key_bytes (?h P p) @ key_bytes (profile_fields P ps) = key_bytes (?h Q q) @ key_bytes (profile_fields Q qs')"
    using Cons.prems(1) by (simp add: qs profile_fields_def key_bytes_def split_beta)
  moreover have "list_all2 same_kind (?h P p) (?h Q q)" "list_all plain_field (?h P p)" "list_all plain_field (?h Q q)"
    using Cons.prems(2) by (auto simp: same_kind_def plain_field_def qs)
  ultimately have "?h P p = ?h Q q" "key_bytes (profile_fields P ps) = key_bytes (profile_fields Q qs')"
    by (rule fields_decode [rotated 3]; assumption)+
  then show ?case using Cons.IH [of qs'] Cons.prems(2) by (auto simp: qs split_beta)
qed

text \<open>The calls are determined by the fields, the profiles, and the three objects that are not fields.\<close>

lemma calls_of_fields:
  assumes "own_fields b = own_fields c" and "profile_calls P (execution_profiles b) = profile_calls P (execution_profiles c)"
    and "ssl_options b = ssl_options c" "retry_policy b = retry_policy c" "timestamp_gen b = timestamp_gen c"
  shows "cluster_calls K P b = cluster_calls K P c"
proof -
  note eqs = assms(1) [unfolded own_fields_def Let_def, simplified codes_inject list.inject key_field.inject option.inject simp_thms]
  have "load_balancing_calls K b = load_balancing_calls K c" "credentials_calls b = credentials_calls c" "reconnect_calls b = reconnect_calls c"
    using eqs by (simp_all add: load_balancing_calls_def credentials_calls_def reconnect_calls_def
        cong: php_scylladb_load_balancing.case_cong option.case_cong if_cong)
  then show ?thesis using eqs by (simp add: cluster_calls_def assms(2-))
qed

lemma same_bytes_calls:
  assumes b: "builder_ok G b" "strings_plain b" and c: "builder_ok G c" "strings_plain c"
    and bytes: "key_bytes (builder_fields P b) = key_bytes (builder_fields P c)"
    and hash: "\<And>p q. p \<in> snd ` set (execution_profiles b) \<Longrightarrow> q \<in> snd ` set (execution_profiles c) \<Longrightarrow>
      config_hash (P p) = config_hash (P q) \<Longrightarrow> ep_calls (P p) = ep_calls (P q)"
    and objs: "ssl_options b = ssl_options c" "retry_policy b = retry_policy c" "timestamp_gen b = timestamp_gen c"
  shows "cluster_calls K P b = cluster_calls K P c"
proof -
  have "key_bytes (own_fields b) @ key_bytes (profile_fields P (execution_profiles b)) =
      key_bytes (own_fields c) @ key_bytes (profile_fields P (execution_profiles c))"
    using bytes by (simp add: builder_fields_def key_bytes_def)
  then have own: "own_fields b = own_fields c" and "key_bytes (profile_fields P (execution_profiles b)) = key_bytes (profile_fields P (execution_profiles c))"
    by (rule fields_decode [OF own_fields_kind own_fields_plain [OF b] own_fields_plain [OF c]])+
  then have eq: "map (\<lambda>(s, p). (s, config_hash (P p))) (execution_profiles b) = map (\<lambda>(s, q). (s, config_hash (P q))) (execution_profiles c)"
    using b(2) c(2) by (intro profiles_decode) (auto simp: strings_plain_def list_all_iff)
  have "profile_calls P (execution_profiles b) = profile_calls P (execution_profiles c)"
  proof (rule nth_equalityI)
    show len: "length (profile_calls P (execution_profiles b)) = length (profile_calls P (execution_profiles c))"
      using arg_cong [OF eq, of length] by (simp add: profile_calls_def)
    show "profile_calls P (execution_profiles b) ! i = profile_calls P (execution_profiles c) ! i" if "i < length (profile_calls P (execution_profiles b))" for i
    proof -
      have i: "i < length (execution_profiles b)" "i < length (execution_profiles c)" using that len by (simp_all add: profile_calls_def)
      then show ?thesis
        using arg_cong [OF eq, of "\<lambda>xs. xs ! i"] hash [of "snd (execution_profiles b ! i)" "snd (execution_profiles c ! i)"]
        by (auto simp: profile_calls_def split_beta)
    qed
  qed
  then show ?thesis by (rule calls_of_fields [OF own _ objs])
qed

section \<open>Building clusters\<close>

lemma cluster_calls_defined: "builder_ok G b \<Longrightarrow> \<exists>calls. cluster_calls K P b = Ret calls"
  by (cases "username b"; cases "password b") (auto simp: cluster_calls_def credentials_calls_def builder_ok_def Let_def)

text \<open>Calls that all succeed, or whose results are ignored, are all made; only those that succeed take effect.\<close>

lemma run_calls_done:
  "snd (run_calls rc calls made) = None \<Longrightarrow> fst (run_calls rc calls made) = made @ filter (\<lambda>c. rc c = CASS_OK) (map snd calls)"
proof (induction rc calls made rule: run_calls.induct)
  case (2 rc k c cs made)
  then show ?case by (auto simp: Let_def split: option.splits)
qed simp

lemma run_calls_checked:
  "snd (run_calls rc calls made) = None \<Longrightarrow> (Checked, c) \<in> set calls \<Longrightarrow> rc c = CASS_OK"
proof (induction calls arbitrary: made)
  case (Cons d cs)
  obtain made' where rest: "snd (run_calls rc cs made') = None" using Cons.prems(1) by (cases d) (auto simp: Let_def split: option.splits)
  show ?case
  proof (cases "d = (Checked, c)")
    case True
    then show ?thesis using Cons.prems(1) by (cases "rc c") (simp_all add: rc_error_def)
  next
    case False
    then show ?thesis using Cons.IH [OF rest] Cons.prems(2) by simp
  qed
qed simp

text \<open>A new object, in a process that is consistent.\<close>

definition with_cluster :: "ccall list \<Rightarrow> process \<Rightarrow> process" where
  "with_cluster made W = W\<lparr>next_ptr := Suc (next_ptr W), cass_clusters := (cass_clusters W)(next_ptr W \<mapsto> made)\<rparr>"

lemma with_cluster_fields [simp]:
  "persistent_list (with_cluster made W) = persistent_list W" "next_ptr (with_cluster made W) = Suc (next_ptr W)"
  "cass_clusters (with_cluster made W) = (cass_clusters W)(next_ptr W \<mapsto> made)"
  "persistent_used (with_cluster made W) = persistent_used W" "max_persistent (with_cluster made W) = max_persistent W"
  by (simp_all add: with_cluster_def)

lemma process_ok_grow:
  assumes W: "process_ok W" and k: "keeps A W W'" "A \<subseteq> {next_ptr W..}" "next_ptr W \<le> next_ptr W'"
    and same: "persistent_list W' = persistent_list W" "persistent_used W' = persistent_used W"
  shows "process_ok W'"
proof -
  have other: "own W' r = own W r" "alive W' r = alive W r" if "persistent_list W key = Some r" for key r
  proof -
    have "own W r \<inter> A = {}" using W k(2) that by (fastforce simp: process_ok_def)
    then show "own W' r = own W r" "alive W' r = alive W r" using keeps_own keeps_alive k(1) by blast+
  qed
  have "entries_of W' = entries_of W" by (simp add: entries_of_def same fun_eq_iff)
  moreover have "own W' r \<subseteq> {..<next_ptr W'}" if "persistent_list W key = Some r" for key r
    using W that other(1) [OF that] k(3) by (fastforce simp: process_ok_def)
  ultimately show ?thesis using W other by (simp add: process_ok_def same)
qed

lemma with_cluster_ok: "process_ok W \<Longrightarrow> process_ok (with_cluster made W)"
  by (rule process_ok_grow [of _ "{next_ptr W}"]) (auto simp: keeps_def with_cluster_def)

lemma own_cluster [simp]: "own W (R_Cluster p) = {p}" by (simp add: own_def)

lemma alive_cluster [simp]: "alive W (R_Cluster p) \<longleftrightarrow> cass_clusters W p \<noteq> None" by (simp add: alive_def)

lemma with_cluster_free: "php_scylladb_default_cluster_free (c\<lparr>cl_cluster := Some (next_ptr W)\<rparr>) (with_cluster made W) =
    Ret (if cl_persist c then with_cluster made W else W\<lparr>next_ptr := Suc (next_ptr W), cass_clusters := (cass_clusters W)(next_ptr W := None)\<rparr>)"
  by (simp add: php_scylladb_default_cluster_free_def cass_cluster_free_def with_cluster_def)

lemma with_cluster_list:
  assumes "process_ok W"
  shows "\<exists>W'. plist_update k (R_Cluster (next_ptr W)) (with_cluster made W) = Ret W' \<and> process_ok (use_entry PERSISTENT_CLUSTERS 1 W') \<and>
    persistent_list W' = (persistent_list W)(k \<mapsto> R_Cluster (next_ptr W)) \<and> max_persistent W' = max_persistent W \<and>
    cass_clusters W' (next_ptr W) = Some made"
proof -
  let ?V = "with_cluster made W"
  have own: "own ?V r = own W r" for r by (cases r) (simp_all add: own_def with_cluster_def)
  have fresh: "own W r \<inter> {next_ptr W} = {}" if "persistent_list W key = Some r" for key r
    using assms that by (fastforce simp: process_ok_def)
  have "own ?V r' \<inter> own ?V (R_Cluster (next_ptr W)) = {}" if "persistent_list ?V k' = Some r'" for k' r'
    using fresh that by (simp add: own)
  then obtain W' where W': "plist_update k (R_Cluster (next_ptr W)) ?V = Ret W'" "process_ok (use_entry PERSISTENT_CLUSTERS 1 W')"
      "persistent_list W' = (persistent_list W)(k \<mapsto> R_Cluster (next_ptr W))" "max_persistent W' = max_persistent W"
      "keeps (case persistent_list W k of None \<Rightarrow> {} | Some o' \<Rightarrow> own ?V o') ?V W'"
    using plist_update_ok [OF with_cluster_ok [OF assms], where r = "R_Cluster (next_ptr W)" and k = k and made1 = made] by (auto simp: kind_of_def)
  have "next_ptr W \<notin> (case persistent_list W k of None \<Rightarrow> {} | Some o' \<Rightarrow> own ?V o')" using fresh [of k] by (simp add: own split: option.split)
  then have "cass_clusters W' (next_ptr W) = cass_clusters ?V (next_ptr W)" using W'(5) unfolding keeps_def by blast
  then show ?thesis using W' by simp
qed

text \<open>The configuration a cluster gets from the calls that were checked and those that were ignored.\<close>

definition configured :: "(ccall \<Rightarrow> cass_rc) \<Rightarrow> (check \<times> ccall) list outcome \<Rightarrow> ccall list option \<Rightarrow> bool" where
  "configured rc r made \<longleftrightarrow>
     (\<exists>calls. r = Ret calls \<and> made = Some (filter (\<lambda>c. rc c = CASS_OK) (map snd calls)) \<and> (\<forall>c. (Checked, c) \<in> set calls \<longrightarrow> rc c = CASS_OK))"

lemma run_calls_configured:
  "snd (run_calls rc calls []) = None \<Longrightarrow> configured rc (Ret calls) (Some (fst (run_calls rc calls [])))"
  using run_calls_done [of rc calls "[]"] run_calls_checked [of rc calls "[]"] by (auto simp: configured_def)

lemma used_after_put:
  assumes "process_ok W" "process_ok (use_entry PERSISTENT_CLUSTERS 1 W')" "persistent_list W' = (persistent_list W)(k \<mapsto> R_Cluster p)"
  shows "persistent_used W' PERSISTENT_CLUSTERS \<le> persistent_used W PERSISTENT_CLUSTERS"
proof -
  have count: "persistent_used V kind = int (card (entries_of V kind))" if "process_ok V" for V kind
    using that unfolding process_ok_def by blast
  have "persistent_used W' PERSISTENT_CLUSTERS + 1 = int (card (entries_of W' PERSISTENT_CLUSTERS))"
    using count [OF assms(2), of PERSISTENT_CLUSTERS] unfolding list_only by (simp add: use_entry_def)
  also have "\<dots> \<le> int (card (insert k (entries_of W PERSISTENT_CLUSTERS)))"
    using assms(1) by (intro iffD2 [OF zle_int] card_mono finite.insertI entries_finite) (auto simp: process_ok_def entries_of_def assms(3))
  also have "\<dots> \<le> int (card (entries_of W PERSISTENT_CLUSTERS)) + 1"
    using assms(1) by (subst card_insert_if [OF entries_finite]) (auto simp: process_ok_def)
  finally show ?thesis by (simp add: count [OF assms(1)])
qed

lemma build_new_ok:
  fixes K rc P b c W
  defines "r \<equiv> build_new K rc P b c W"
  assumes W: "process_ok W" and b: "builder_ok G b"
  shows "fst r \<noteq> UB" "process_ok (snd r)"
    and "fst r = Ret d \<Longrightarrow> d = c\<lparr>cl_cluster := Some (next_ptr W)\<rparr> \<and> configured rc (cluster_calls K P b) (cass_clusters (snd r) (next_ptr W)) \<and>
      (cl_persist c \<longrightarrow> persistent_list (snd r) (cl_cache_key c) = Some (R_Cluster (next_ptr W)))"
    and "fst r = Throw e \<Longrightarrow> cass_clusters (snd r) (next_ptr W) = None \<longleftrightarrow> \<not> cl_persist c"
    and "persistent_used (snd r) PERSISTENT_CLUSTERS \<le> persistent_used W PERSISTENT_CLUSTERS + (if cl_persist c then 1 else 0)"
proof -
  obtain calls where calls: "cluster_calls K P b = Ret calls" using cluster_calls_defined [OF b] by blast
  define made where "made = fst (run_calls rc calls [])"
  obtain W' where W': "plist_update (cl_cache_key c) (R_Cluster (next_ptr W)) (with_cluster made W) = Ret W'"
      "process_ok (use_entry PERSISTENT_CLUSTERS 1 W')" "persistent_list W' = (persistent_list W)(cl_cache_key c \<mapsto> R_Cluster (next_ptr W))"
      "cass_clusters W' (next_ptr W) = Some made"
    using with_cluster_list [OF W] by blast
  note used = used_after_put [OF W W'(2,3)]
  let ?F = "W\<lparr>next_ptr := Suc (next_ptr W), cass_clusters := (cass_clusters W)(next_ptr W := None)\<rparr>"
  have F: "process_ok ?F" by (rule process_ok_grow [OF W, of "{next_ptr W}"]) (auto simp: keeps_def)
  have r: "r = (case snd (run_calls rc calls []) of
      Some e \<Rightarrow> (Throw e, if cl_persist c then with_cluster made W else ?F)
    | None \<Rightarrow> (Ret (c\<lparr>cl_cluster := Some (next_ptr W)\<rparr>), if cl_persist c then use_entry PERSISTENT_CLUSTERS 1 W' else with_cluster made W))"
    unfolding r_def build_new_def calls Let_def outcome.case made_def [symmetric] with_cluster_def [symmetric] with_cluster_free
    using W'(1) by (simp split: option.split)
  have conf: "snd (run_calls rc calls []) = None \<Longrightarrow> configured rc (cluster_calls K P b) (Some made)"
    using run_calls_configured by (simp add: calls made_def)
  show "fst r \<noteq> UB" "process_ok (snd r)" using W'(2) F with_cluster_ok [OF W] by (auto simp: r split: option.split)
  show "d = c\<lparr>cl_cluster := Some (next_ptr W)\<rparr> \<and> configured rc (cluster_calls K P b) (cass_clusters (snd r) (next_ptr W)) \<and>
      (cl_persist c \<longrightarrow> persistent_list (snd r) (cl_cache_key c) = Some (R_Cluster (next_ptr W)))" if "fst r = Ret d"
    using that conf W'(3,4) by (auto simp: r use_entry_def split: option.splits)
  show "cass_clusters (snd r) (next_ptr W) = None \<longleftrightarrow> \<not> cl_persist c" if "fst r = Throw e"
    using that by (auto simp: r split: option.splits)
  show "persistent_used (snd r) PERSISTENT_CLUSTERS \<le> persistent_used W PERSISTENT_CLUSTERS + (if cl_persist c then 1 else 0)"
    using used by (auto simp: r use_entry_def split: option.split)
qed

text \<open>The entry in the list that \<^verbatim>\<open>build\<close> takes, if it takes one.\<close>

definition cached :: "(nat \<Rightarrow> execution_profile) \<Rightarrow> cluster_builder \<Rightarrow> process \<Rightarrow> nat option" where
  "cached P b W = (case persistent_list W (builder_key P b) of Some (R_Cluster p) \<Rightarrow> if persist b then Some p else None | _ \<Rightarrow> None)"

definition may_cache :: "cluster_builder \<Rightarrow> process \<Rightarrow> bool" where
  "may_cache b W \<longleftrightarrow> persist b \<and> fst (php_scylladb_persistent_can_cache PERSISTENT_CLUSTERS W)"

lemma can_cache_ok: "process_ok (snd (php_scylladb_persistent_can_cache kind W)) \<longleftrightarrow> process_ok W"
    "next_ptr (snd (php_scylladb_persistent_can_cache kind W)) = next_ptr W"
    "persistent_used (snd (php_scylladb_persistent_can_cache kind W)) = persistent_used W"
proof -
  have "own (W\<lparr>warned_cap := f\<rparr>) r = own W r" "alive (W\<lparr>warned_cap := f\<rparr>) r = alive W r" for f r
    by (cases r; simp add: own_def alive_def)+
  moreover have "entries_of (W\<lparr>warned_cap := f\<rparr>) = entries_of W" for f by (simp add: entries_of_def fun_eq_iff)
  ultimately show "process_ok (snd (php_scylladb_persistent_can_cache kind W)) \<longleftrightarrow> process_ok W"
    by (simp add: php_scylladb_persistent_can_cache_def process_ok_def Let_def)
qed (simp_all add: php_scylladb_persistent_can_cache_def Let_def)

lemma build_hit: "cached P b W = Some p \<Longrightarrow> build K rc P b W = (Ret ((new_cluster b (builder_key P b))\<lparr>cl_cluster := Some p\<rparr>), W)"
  by (auto simp: cached_def build_def Let_def split: option.splits presource.splits if_splits)

lemma build_miss:
  "cached P b W = None \<Longrightarrow> \<exists>V. build K rc P b W =
    build_new K rc P b ((new_cluster b (if persist b then builder_key P b else 0))\<lparr>cl_persist := may_cache b W\<rparr>) V \<and>
    (V = W \<or> V = snd (php_scylladb_persistent_can_cache PERSISTENT_CLUSTERS W))"
proof (cases "persist b")
  case True
  let ?r = "php_scylladb_persistent_can_cache PERSISTENT_CLUSTERS W"
  let ?c = "new_cluster b (builder_key P b)"
  have id: "cl_persist ?c" using True by (simp add: new_cluster_def)
  have c: "?c\<lparr>cl_persist := True\<rparr> = ?c" using id by simp
  assume "cached P b W = None"
  then have "build K rc P b W = (case ?r of (True, W) \<Rightarrow> build_new K rc P b ?c W | (False, W) \<Rightarrow> build_new K rc P b (?c\<lparr>cl_persist := False\<rparr>) W)"
    using True by (auto simp: build_def cached_def Let_def split: option.splits presource.splits)
  also have "\<dots> = build_new K rc P b (?c\<lparr>cl_persist := may_cache b W\<rparr>) (snd ?r)"
    using True c by (cases ?r; cases "fst ?r") (simp_all add: may_cache_def)
  finally show ?thesis using True by auto
next
  case False
  then have "(new_cluster b 0)\<lparr>cl_persist := False\<rparr> = new_cluster b 0" by (simp add: new_cluster_def)
  then show ?thesis using False by (auto simp: build_def may_cache_def)
qed

definition built :: "(nat \<Rightarrow> execution_profile) \<Rightarrow> cluster_builder \<Rightarrow> process \<Rightarrow> cluster" where
  "built P b W = (new_cluster b (if persist b then builder_key P b else 0))\<lparr>cl_persist := may_cache b W\<rparr>"

lemma built_fields [simp]:
  "cl_persist (built P b W) = may_cache b W" "cl_cache_key (built P b W) = (if persist b then builder_key P b else 0)"
  by (simp_all add: built_def new_cluster_def)

lemma build_new_process:
  assumes "cached P b W = None" and "process_ok W"
  obtains V where "build K rc P b W = build_new K rc P b (built P b W) V" "process_ok V" "next_ptr V = next_ptr W" "persistent_used V = persistent_used W"
  using build_miss [OF assms(1), of K rc] can_cache_ok assms(2) unfolding built_def by metis

lemma build_parts:
  fixes K rc P b W
  defines "r \<equiv> build K rc P b W"
  assumes W: "process_ok W" and b: "builder_ok G b"
  shows "fst r \<noteq> UB" "process_ok (snd r)"
    and "cached P b W = None \<Longrightarrow> fst r = Ret c \<Longrightarrow> c = (built P b W)\<lparr>cl_cluster := Some (next_ptr W)\<rparr> \<and>
      configured rc (cluster_calls K P b) (cass_clusters (snd r) (next_ptr W)) \<and>
      (may_cache b W \<longrightarrow> persistent_list (snd r) (builder_key P b) = Some (R_Cluster (next_ptr W)))"
    and "cached P b W = None \<Longrightarrow> fst r = Throw e \<Longrightarrow> cass_clusters (snd r) (next_ptr W) = None \<longleftrightarrow> \<not> may_cache b W"
    and "persistent_used (snd r) PERSISTENT_CLUSTERS \<le> persistent_used W PERSISTENT_CLUSTERS + (if may_cache b W then 1 else 0)"
proof -
  note new = build_new_ok [OF _ b, of _ K rc P "built P b W", unfolded built_fields]
  have hit: "r = (Ret ((new_cluster b (builder_key P b))\<lparr>cl_cluster := Some p\<rparr>), W)" if "cached P b W = Some p" for p
    unfolding r_def by (rule build_hit [OF that])
  have "fst r \<noteq> UB \<and> process_ok (snd r) \<and>
      persistent_used (snd r) PERSISTENT_CLUSTERS \<le> persistent_used W PERSISTENT_CLUSTERS + (if may_cache b W then 1 else 0)"
  proof (cases "cached P b W")
    case None
    obtain V where V: "r = build_new K rc P b (built P b W) V" "process_ok V" "persistent_used V = persistent_used W"
      using build_new_process [OF None W, of K rc] unfolding r_def by metis
    show ?thesis using new(1,2,5) [OF V(2)] unfolding V(1,3) by blast
  qed (simp add: hit W)
  then show "fst r \<noteq> UB" "process_ok (snd r)"
    "persistent_used (snd r) PERSISTENT_CLUSTERS \<le> persistent_used W PERSISTENT_CLUSTERS + (if may_cache b W then 1 else 0)" by blast+
  have mc: "may_cache b W \<Longrightarrow> persist b" by (simp add: may_cache_def)
  show "c = (built P b W)\<lparr>cl_cluster := Some (next_ptr W)\<rparr> \<and>
      configured rc (cluster_calls K P b) (cass_clusters (snd r) (next_ptr W)) \<and>
      (may_cache b W \<longrightarrow> persistent_list (snd r) (builder_key P b) = Some (R_Cluster (next_ptr W)))" if n: "cached P b W = None" and c: "fst r = Ret c"
  proof -
    obtain V where V: "r = build_new K rc P b (built P b W) V" "process_ok V" "next_ptr V = next_ptr W"
      using build_new_process [OF n W, of K rc] unfolding r_def by metis
    show ?thesis using new(3) [OF V(2), of c] c mc unfolding V(1,3) by auto
  qed
  show "cass_clusters (snd r) (next_ptr W) = None \<longleftrightarrow> \<not> may_cache b W" if n: "cached P b W = None" and e: "fst r = Throw e"
  proof -
    obtain V where V: "r = build_new K rc P b (built P b W) V" "process_ok V" "next_ptr V = next_ptr W"
      using build_new_process [OF n W, of K rc] unfolding r_def by metis
    show ?thesis using new(4) [OF V(2), of e] e unfolding V(1,3) by blast
  qed
qed

text \<open>A builder whose fingerprint and defaults are those of a builder that has a persistent cluster gets the same object.\<close>

lemma build_again:
  assumes W: "process_ok W" and b: "builder_ok G b" and c: "build K rc P b W = (Ret c, W')" "cl_persist c"
    and same: "builder_key P b' = builder_key P b" "\<And>h. new_cluster b' h = new_cluster b h"
  shows "build K' rc' P b' W' = (Ret c, W')"
proof -
  have persist: "persist b' = persist b" using same(2) [of 0] by (simp add: new_cluster_def)
  have c_is: "cached P b W' = Some (the (cl_cluster c)) \<and> c = (new_cluster b (builder_key P b))\<lparr>cl_cluster := Some (the (cl_cluster c))\<rparr>"
  proof (cases "cached P b W")
    case (Some p)
    then show ?thesis using build_hit [OF Some, of K rc] c by auto
  next
    case None
    have d: "c = (built P b W)\<lparr>cl_cluster := Some (next_ptr W)\<rparr>" "may_cache b W \<Longrightarrow> persistent_list W' (builder_key P b) = Some (R_Cluster (next_ptr W))"
      using build_parts(3) [OF W b None, of K rc c] c by auto
    then have "persist b" "may_cache b W" using c(2) by (simp_all add: may_cache_def)
    then show ?thesis using d by (simp add: cached_def built_def new_cluster_def)
  qed
  then have "cached P b' W' = Some (the (cl_cluster c))" unfolding cached_def same persist by blast
  then show ?thesis using build_hit [of P b' W'] c_is same by metis
qed

lemma build_limit:
  assumes W: "process_ok W" and b: "builder_ok G b"
    and lim: "0 \<le> max_persistent W PERSISTENT_CLUSTERS" "persistent_used W PERSISTENT_CLUSTERS \<le> max_persistent W PERSISTENT_CLUSTERS"
  shows "persistent_used (snd (build K rc P b W)) PERSISTENT_CLUSTERS \<le> max_persistent W PERSISTENT_CLUSTERS"
proof -
  have "may_cache b W \<Longrightarrow> persistent_used W PERSISTENT_CLUSTERS + 1 \<le> max_persistent W PERSISTENT_CLUSTERS"
    using lim by (auto simp: may_cache_def php_scylladb_persistent_can_cache_def Let_def split: if_splits)
  then show ?thesis using build_parts(5) [OF W b, of K rc P] lim by (cases "may_cache b W") simp_all
qed

section \<open>Properties\<close>

lemma builder_valid_parts:
  assumes "builder_reachable G b"
  shows "builder_ok G b" and "\<exists>calls. cluster_calls K P b = Ret calls"
    and "withConnectTimeout d b = Ret b' \<Longrightarrow> builder_reachable G b' \<and> b' = b\<lparr>connect_timeout := connect_timeout b'\<rparr>"
    and "withConnectTimeout d b = Ret b' \<Longrightarrow> (2 ^ 53 - 1) * (1000 * dbl_scaled d) \<le> 2 ^ 53 * (connect_timeout b' * 2 ^ 1074)"
    and "withConnectTimeout d b = Ret b' \<Longrightarrow> 2 ^ 53 * ((connect_timeout b' - 1) * 2 ^ 1074) < (2 ^ 53 + 1) * (1000 * dbl_scaled d) + 1"
proof -
  show ok: "builder_ok G b" by (rule reachable_ok [OF assms])
  show "\<exists>calls. cluster_calls K P b = Ret calls" by (rule cluster_calls_defined [OF ok])
  assume d: "withConnectTimeout d b = Ret b'"
  have t: "php_scylladb_set_timeout d = Ret (connect_timeout b')" "b' = b\<lparr>connect_timeout := connect_timeout b'\<rparr>"
    using d by (cases "php_scylladb_set_timeout d"; auto simp: withConnectTimeout_def)+
  show "builder_reachable G b' \<and> b' = b\<lparr>connect_timeout := connect_timeout b'\<rparr>"
    using builder_reachable.set [OF assms setter.intros(14) d] t(2) by blast
  show "(2 ^ 53 - 1) * (1000 * dbl_scaled d) \<le> 2 ^ 53 * (connect_timeout b' * 2 ^ 1074)"
    "2 ^ 53 * ((connect_timeout b' - 1) * 2 ^ 1074) < (2 ^ 53 + 1) * (1000 * dbl_scaled d) + 1"
    by (rule set_timeout_near [OF t(1)])+
qed

text \<open>
  Property C17. A builder that its methods configured keeps every number in its width, user name and
  password together, a data centre with the policy that needs one, no empty name that stands for none, and
  profiles under distinct names; so the calls of \<^verbatim>\<open>build\<close> read nothing that is missing. A timeout in seconds
  becomes the milliseconds rounded up: at least the product of the doubles, and less than one more, up to
  one part in 2^53.
\<close>

theorem builder_valid:
  assumes "builder_reachable G b"
  shows "builder_ok G b \<and> (\<exists>calls. cluster_calls K P b = Ret calls) \<and>
    (withConnectTimeout d b = Ret b' \<longrightarrow> builder_reachable G b' \<and> b' = b\<lparr>connect_timeout := connect_timeout b'\<rparr>) \<and>
    (withConnectTimeout d b = Ret b' \<longrightarrow> (2 ^ 53 - 1) * (1000 * dbl_scaled d) \<le> 2 ^ 53 * (connect_timeout b' * 2 ^ 1074)) \<and>
    (withConnectTimeout d b = Ret b' \<longrightarrow> 2 ^ 53 * ((connect_timeout b' - 1) * 2 ^ 1074) < (2 ^ 53 + 1) * (1000 * dbl_scaled d) + 1)"
  by (intro builder_valid_parts [OF assms] conjI impI)

definition ini_example :: ini where
  "ini_example = \<lparr>ini_contact_points = None, ini_local_dc = None, ini_local_rack = None, ini_application_name = None, ini_application_version = None,
     ini_local_address = None, ini_reconnect_policy = None, ini_number = (\<lambda>_. 1), ini_flag = (\<lambda>_. False), allow_persistent = True, expose_credentials = False\<rparr>"

definition builder_example :: cluster_builder where
  "builder_example = php_scylladb_cluster_builder_new ini_example"

lemma builder_example_reachable: "builder_reachable ini_example builder_example"
  unfolding builder_example_def by (rule builder_reachable.new)

lemma round53_exact: "2 ^ n dvd m \<Longrightarrow> 0 \<le> m \<Longrightarrow> m < 2 ^ (n + 53) \<Longrightarrow> round53 m = m"
proof -
  assume d: "2 ^ n dvd m" and b: "m < 2 ^ (n + 53)"
  have "bitlen m \<le> int (n + 53)" using b unfolding bitlen_le_iff_power nat_int by simp
  then have "nat (bitlen m - 53) \<le> n" by simp
  then have "2 ^ nat (bitlen m - 53) dvd m" using d by (blast intro: dvd_trans le_imp_power_dvd)
  then show ?thesis by (simp add: round53_def Let_def)
qed

lemma half_second: "php_scylladb_set_timeout 0x3FE0000000000000 = Ret 500"
proof -
  have "dbl_scaled 0x3FE0000000000000 = 2 ^ 1073" "dbl_isfinite 0x3FE0000000000000" "\<not> dbl_less 0x3FE0000000000000 0"
    by (simp_all add: ieee_scaled_def ieee_isfinite_def ieee_less_def ieee_exp_def ieee_frac_def ieee_sign_def ieee_isnan_def)
  moreover have "round53 (1000 * 2 ^ 1073) = 1000 * 2 ^ 1073"
    by (rule round53_exact [of 1073]) (simp_all add: power_add)
  moreover have "- (- (1000 * 2 ^ 1073) div 2 ^ 1074) = (500 :: int)"
  proof -
    have "1000 * 2 ^ 1073 = 500 * (2 ^ 1074 :: int)" by simp
    then show ?thesis by simp
  qed
  ultimately show ?thesis by (simp add: php_scylladb_set_timeout_def dbl_ceil_mult_def Let_def)
qed

theorem builder_valid_witness:
  "withConnectTimeout 0x3FE0000000000000 builder_example = Ret (builder_example\<lparr>connect_timeout := 500\<rparr>) \<and>
   builder_reachable ini_example (builder_example\<lparr>connect_timeout := 500\<rparr>)"
  using builder_valid [OF builder_example_reachable, of Scylla_cpp undefined "0x3FE0000000000000" "builder_example\<lparr>connect_timeout := 500\<rparr>"]
  by (simp add: withConnectTimeout_def half_second)

lemma cluster_cache_parts:
  assumes W: "process_ok W" and b: "builder_ok G b"
  shows "fst (build K rc P b W) \<noteq> UB" "process_ok (snd (build K rc P b W))"
    and "cached P b W = Some p \<Longrightarrow> build K rc P b W = (Ret ((new_cluster b (builder_key P b))\<lparr>cl_cluster := Some p\<rparr>), W)"
    and "cached P b W = None \<Longrightarrow> build K rc P b W = (Ret c, W') \<Longrightarrow>
      cl_cluster c = Some (next_ptr W) \<and> cl_persist c = may_cache b W \<and> configured rc (cluster_calls K P b) (cass_clusters W' (next_ptr W))"
    and "cached P b W = None \<Longrightarrow> build K rc P b W = (Throw e, W') \<Longrightarrow> cass_clusters W' (next_ptr W) = None \<longleftrightarrow> \<not> may_cache b W"
    and "build K rc P b W = (Ret c, W') \<Longrightarrow> cl_persist c \<Longrightarrow> builder_key P b' = builder_key P b \<Longrightarrow> new_cluster b' = new_cluster b \<Longrightarrow>
      build K' rc' P b' W' = (Ret c, W')"
    and "0 \<le> max_persistent W PERSISTENT_CLUSTERS \<Longrightarrow> persistent_used W PERSISTENT_CLUSTERS \<le> max_persistent W PERSISTENT_CLUSTERS \<Longrightarrow>
      persistent_used (snd (build K rc P b W)) PERSISTENT_CLUSTERS \<le> max_persistent W PERSISTENT_CLUSTERS"
proof -
  note parts = build_parts [OF W b, where K = K and rc = rc and P = P]
  show "cached P b W = None \<Longrightarrow> build K rc P b W = (Ret c, W') \<Longrightarrow>
      cl_cluster c = Some (next_ptr W) \<and> cl_persist c = may_cache b W \<and> configured rc (cluster_calls K P b) (cass_clusters W' (next_ptr W))"
    using parts(3) [of c] by auto
  show "cached P b W = None \<Longrightarrow> build K rc P b W = (Throw e, W') \<Longrightarrow> cass_clusters W' (next_ptr W) = None \<longleftrightarrow> \<not> may_cache b W"
    using parts(4) [of e] by simp
  show "build K rc P b W = (Ret c, W') \<Longrightarrow> cl_persist c \<Longrightarrow> builder_key P b' = builder_key P b \<Longrightarrow> new_cluster b' = new_cluster b \<Longrightarrow>
      build K' rc' P b' W' = (Ret c, W')"
    using build_again [OF W b, where c = c and W' = W' and b' = b'] by simp
qed (fact build_parts [OF W b] build_hit build_limit [OF W b])+

text \<open>
  Property C6. Building a cluster keeps the worker's list of persistent resources consistent: entries exist,
  own disjoint objects and are counted. A builder whose fingerprint is in the list gets the listed cluster and
  nothing changes; otherwise a new cluster is made whose configuration is exactly the calls that succeeded,
  among them every checked one. After a persistent cluster was built, a builder with the same fingerprint and
  defaults gets the same object. The number of listed clusters stays within the limit. When a call is refused,
  the new cluster is freed if the object was not to be persistent, and leaked if it was.
\<close>

theorem cluster_cache:
  assumes "process_ok W" and "builder_ok G b"
  shows "fst (build K rc P b W) \<noteq> UB \<and> process_ok (snd (build K rc P b W)) \<and>
    (cached P b W = Some p \<longrightarrow> build K rc P b W = (Ret ((new_cluster b (builder_key P b))\<lparr>cl_cluster := Some p\<rparr>), W)) \<and>
    (cached P b W = None \<longrightarrow> build K rc P b W = (Ret c, W') \<longrightarrow>
      cl_cluster c = Some (next_ptr W) \<and> cl_persist c = may_cache b W \<and> configured rc (cluster_calls K P b) (cass_clusters W' (next_ptr W))) \<and>
    (cached P b W = None \<longrightarrow> build K rc P b W = (Throw e, W') \<longrightarrow> cass_clusters W' (next_ptr W) = None \<longleftrightarrow> \<not> may_cache b W) \<and>
    (build K rc P b W = (Ret c, W') \<longrightarrow> cl_persist c \<longrightarrow> builder_key P b' = builder_key P b \<longrightarrow> new_cluster b' = new_cluster b \<longrightarrow>
      build K' rc' P b' W' = (Ret c, W')) \<and>
    (0 \<le> max_persistent W PERSISTENT_CLUSTERS \<longrightarrow> persistent_used W PERSISTENT_CLUSTERS \<le> max_persistent W PERSISTENT_CLUSTERS \<longrightarrow>
      persistent_used (snd (build K rc P b W)) PERSISTENT_CLUSTERS \<le> max_persistent W PERSISTENT_CLUSTERS)"
  by (intro cluster_cache_parts [OF assms] conjI impI)

definition process_new :: process where
  "process_new = \<lparr>persistent_list = Map.empty, cass_clusters = Map.empty, cass_sessions = {}, cass_futures = Map.empty, psessions = Map.empty,
     pprepared = Map.empty, next_ptr = 0, persistent_used = (\<lambda>_. 0), max_persistent = (\<lambda>_. 1), warned_cap = (\<lambda>_. False)\<rparr>"

lemma process_new_ok: "process_ok process_new"
  by (simp add: process_ok_def process_new_def entries_of_def)

lemma builder_example_ok: "builder_ok ini_example (builder_example\<lparr>persist := True\<rparr>)"
proof -
  have "builder_ok ini_example builder_example" by (rule reachable_ok [OF builder_example_reachable])
  then show ?thesis by (simp add: builder_ok_def u32_fields_def s32_fields_def ini_example_def)
qed

theorem cluster_cache_witness:
  "fst (build Scylla_cpp (\<lambda>_. CASS_OK) undefined (builder_example\<lparr>persist := True\<rparr>) process_new) \<noteq> UB \<and>
   persistent_used (snd (build Scylla_cpp (\<lambda>_. CASS_OK) undefined (builder_example\<lparr>persist := True\<rparr>) process_new)) PERSISTENT_CLUSTERS \<le> 1"
proof -
  have "max_persistent process_new = (\<lambda>_. 1)" "persistent_used process_new = (\<lambda>_. 0)" by (simp_all add: process_new_def)
  moreover have "fst r \<noteq> UB \<and> (0 \<le> max_persistent process_new PERSISTENT_CLUSTERS \<longrightarrow>
      persistent_used process_new PERSISTENT_CLUSTERS \<le> max_persistent process_new PERSISTENT_CLUSTERS \<longrightarrow>
      persistent_used (snd r) PERSISTENT_CLUSTERS \<le> max_persistent process_new PERSISTENT_CLUSTERS)"
    if "r = build Scylla_cpp (\<lambda>_. CASS_OK) undefined (builder_example\<lparr>persist := True\<rparr>) process_new" for r
    using cluster_cache [OF process_new_ok builder_example_ok, of Scylla_cpp "\<lambda>_. CASS_OK" undefined] unfolding that by blast
  ultimately show ?thesis by simp
qed

text \<open>The three objects a builder holds that are not fields.\<close>

lemma key_without_objects: "builder_key P (b\<lparr>ssl_options := s, retry_policy := r, timestamp_gen := t\<rparr>) = builder_key P b"
  by (simp add: builder_key_def builder_fields_def own_fields_def)

lemma opt_ptr_inject: "opt_ptr f s = opt_ptr f t \<longleftrightarrow> s = t"
  by (cases s; cases t) (simp_all add: opt_ptr_def)

lemma calls_with_ssl:
  assumes "cluster_calls K P b = Ret calls" and "s \<noteq> ssl_options b"
  shows "cluster_calls K P (b\<lparr>ssl_options := s\<rparr>) \<noteq> cluster_calls K P b"
proof -
  have same: "load_balancing_calls K (b\<lparr>ssl_options := s\<rparr>) = load_balancing_calls K b" "credentials_calls (b\<lparr>ssl_options := s\<rparr>) = credentials_calls b"
      "reconnect_calls (b\<lparr>ssl_options := s\<rparr>) = reconnect_calls b"
    by (simp_all add: load_balancing_calls_def credentials_calls_def reconnect_calls_def cong: php_scylladb_load_balancing.case_cong)
  obtain cred where "credentials_calls b = Ret cred" using assms(1) by (cases "credentials_calls b") (simp_all add: cluster_calls_def Let_def)
  then show ?thesis using assms(2) by (simp add: cluster_calls_def same Let_def opt_ptr_inject)
qed

text \<open>A number of measurements is hashed as 32 bits and passed to the driver as 64.\<close>

lemma zero_seconds: "dbl_ceil_mult 64 1000 0 = Ret 0" "thousandths 0 = Ret 0" "\<not> ieee_less 52 11 0 0"
proof -
  have "dbl_scaled 0 = 0" "dbl_isfinite 0" by (simp_all add: ieee_scaled_def ieee_isfinite_def ieee_exp_def ieee_frac_def ieee_sign_def)
  then show "dbl_ceil_mult 64 1000 0 = Ret 0" "thousandths 0 = Ret 0" "\<not> ieee_less 52 11 0 0"
    by (simp_all add: dbl_ceil_mult_def thousandths_def round53_def c_div_def ieee_less_def)
qed

lemma profile_alias:
  fixes p n
  defines "f \<equiv> \<lambda>m. snd (profile_withLatencyAwareRoutingSettings 0 0 0 0 m p)"
  assumes "0 \<le> n" "n < 2 ^ 32"
  shows "config_hash (f (n + 2 ^ 32)) = config_hash (f n)" and "ep_calls (f (n + 2 ^ 32)) \<noteq> ep_calls (f n)"
proof -
  have "cast_s 32 (n + 2 ^ 32) = cast_s 32 n" by (simp add: cast_s_def signed_take_bit_eq_iff_take_bit_eq take_bit_eq_mod)
  then show "config_hash (f (n + 2 ^ 32)) = config_hash (f n)" using assms(2)
    by (simp add: f_def profile_withLatencyAwareRoutingSettings_def zero_seconds profile_seconds_def Let_def profile_mix_int_def)
  have "cast_u 64 (n + 2 ^ 32) \<noteq> cast_u 64 n" using assms(2,3) by (simp add: cast_u_def take_bit_eq_mod)
  then show "ep_calls (f (n + 2 ^ 32)) \<noteq> ep_calls (f n)" using assms(2)
    by (simp add: f_def profile_withLatencyAwareRoutingSettings_def zero_seconds profile_seconds_def Let_def)
qed

lemma fingerprint_parts:
  fixes p n
  defines "f \<equiv> \<lambda>m. snd (profile_withLatencyAwareRoutingSettings 0 0 0 0 m p)"
  assumes b: "builder_ok G b"
  shows "builder_ok G c \<Longrightarrow> strings_plain b \<Longrightarrow> strings_plain c \<Longrightarrow> key_bytes (builder_fields P b) = key_bytes (builder_fields P c) \<Longrightarrow>
      \<forall>p q. p \<in> snd ` set (execution_profiles b) \<longrightarrow> q \<in> snd ` set (execution_profiles c) \<longrightarrow> config_hash (P p) = config_hash (P q) \<longrightarrow>
        ep_calls (P p) = ep_calls (P q) \<Longrightarrow>
      (ssl_options b, retry_policy b, timestamp_gen b) = (ssl_options c, retry_policy c, timestamp_gen c) \<Longrightarrow>
      cluster_calls K P b = cluster_calls K P c"
    and "builder_key P b = php_scylladb_cache_key_mix_bytes php_scylladb_cache_key_init (key_bytes (builder_fields P b))"
    and "builder_key P (b\<lparr>ssl_options := s, retry_policy := r, timestamp_gen := t\<rparr>) = builder_key P b"
    and "s \<noteq> ssl_options b \<Longrightarrow> cluster_calls K P (b\<lparr>ssl_options := s\<rparr>) \<noteq> cluster_calls K P b"
    and "0 \<le> n \<Longrightarrow> n < 2 ^ 32 \<Longrightarrow> config_hash (f (n + 2 ^ 32)) = config_hash (f n) \<and> ep_calls (f (n + 2 ^ 32)) \<noteq> ep_calls (f n)"
proof -
  show "cluster_calls K P b = cluster_calls K P c"
    if "builder_ok G c" "strings_plain b" "strings_plain c" "key_bytes (builder_fields P b) = key_bytes (builder_fields P c)"
      "\<forall>p q. p \<in> snd ` set (execution_profiles b) \<longrightarrow> q \<in> snd ` set (execution_profiles c) \<longrightarrow> config_hash (P p) = config_hash (P q) \<longrightarrow>
        ep_calls (P p) = ep_calls (P q)"
      "(ssl_options b, retry_policy b, timestamp_gen b) = (ssl_options c, retry_policy c, timestamp_gen c)"
    by (rule same_bytes_calls [OF b that(2,1,3,4)]) (use that(5,6) in blast)+
  show "builder_key P b = php_scylladb_cache_key_mix_bytes php_scylladb_cache_key_init (key_bytes (builder_fields P b))"
    unfolding builder_key_def by (rule mix_fields_bytes)
  show "builder_key P (b\<lparr>ssl_options := s, retry_policy := r, timestamp_gen := t\<rparr>) = builder_key P b" by (rule key_without_objects)
  show "s \<noteq> ssl_options b \<Longrightarrow> cluster_calls K P (b\<lparr>ssl_options := s\<rparr>) \<noteq> cluster_calls K P b"
    using cluster_calls_defined [OF b, of K P] calls_with_ssl by blast
  show "0 \<le> n \<Longrightarrow> n < 2 ^ 32 \<Longrightarrow> config_hash (f (n + 2 ^ 32)) = config_hash (f n) \<and> ep_calls (f (n + 2 ^ 32)) \<noteq> ep_calls (f n)"
    unfolding f_def using profile_alias by blast
qed

text \<open>
  Property C7. The fingerprint of a builder is the hash of the bytes of its fields, and these determine the
  calls that configure a cluster: two builders with the same bytes, whose strings are without NUL and not empty,
  whose profiles with the same hash are the same, and which hold the same SSL options, retry policy and timestamp
  generator make the same calls. The three objects are not in the fingerprint, though SSL options change the
  calls, and two profiles whose number of measurements differs by 2^32 have the same hash.
\<close>

theorem fingerprint_determines_calls:
  fixes p n
  defines "f \<equiv> \<lambda>m. snd (profile_withLatencyAwareRoutingSettings 0 0 0 0 m p)"
  assumes "builder_ok G b"
  shows "(builder_ok G c \<longrightarrow> strings_plain b \<longrightarrow> strings_plain c \<longrightarrow> key_bytes (builder_fields P b) = key_bytes (builder_fields P c) \<longrightarrow>
      (\<forall>p q. p \<in> snd ` set (execution_profiles b) \<longrightarrow> q \<in> snd ` set (execution_profiles c) \<longrightarrow> config_hash (P p) = config_hash (P q) \<longrightarrow>
        ep_calls (P p) = ep_calls (P q)) \<longrightarrow>
      (ssl_options b, retry_policy b, timestamp_gen b) = (ssl_options c, retry_policy c, timestamp_gen c) \<longrightarrow>
      cluster_calls K P b = cluster_calls K P c) \<and>
    builder_key P b = php_scylladb_cache_key_mix_bytes php_scylladb_cache_key_init (key_bytes (builder_fields P b)) \<and>
    builder_key P (b\<lparr>ssl_options := s, retry_policy := r, timestamp_gen := t\<rparr>) = builder_key P b \<and>
    (s \<noteq> ssl_options b \<longrightarrow> cluster_calls K P (b\<lparr>ssl_options := s\<rparr>) \<noteq> cluster_calls K P b) \<and>
    (0 \<le> n \<longrightarrow> n < 2 ^ 32 \<longrightarrow> config_hash (f (n + 2 ^ 32)) = config_hash (f n) \<and> ep_calls (f (n + 2 ^ 32)) \<noteq> ep_calls (f n))"
  unfolding f_def by (intro fingerprint_parts [OF assms(2)] conjI impI)

theorem fingerprint_determines_calls_witness:
  "builder_key (\<lambda>_. php_scylladb_execution_profile_new) (builder_example\<lparr>ssl_options := Some 7, retry_policy := None, timestamp_gen := None\<rparr>) =
      builder_key (\<lambda>_. php_scylladb_execution_profile_new) builder_example \<and>
    cluster_calls Scylla_cpp (\<lambda>_. php_scylladb_execution_profile_new) (builder_example\<lparr>ssl_options := Some 7\<rparr>) \<noteq>
      cluster_calls Scylla_cpp (\<lambda>_. php_scylladb_execution_profile_new) builder_example"
proof -
  have "Some 7 \<noteq> ssl_options builder_example" by (simp add: builder_example_def php_scylladb_cluster_builder_new_def Let_def)
  then show ?thesis
    using fingerprint_determines_calls [OF reachable_ok [OF builder_example_reachable], where s = "Some 7" and r = None and t = None and K = Scylla_cpp and P = "\<lambda>_. php_scylladb_execution_profile_new"]
    by blast
qed

end
