(* ===== verification/Sessions.thy ===== *)
theory Sessions
  imports Cluster
begin

text \<open>
  Sessions: \<^verbatim>\<open>src/Cluster/DefaultCluster.c\<close>, \<^verbatim>\<open>src/FutureSession.c\<close>, \<^verbatim>\<open>src/FutureUtil.c\<close>, and the part of
  \<^verbatim>\<open>src/DefaultSession.c\<close> that prepares statements and closes. A session belongs to its object, or to the
  entry of the worker's list that the object borrows it from. What the driver makes of a pending future, and
  after how many microseconds, is an argument of the calls that wait.
\<close>

section \<open>Waiting\<close>

type_synonym answer = "cass_rc \<times> nat"

definition timeout_micros :: "zval \<Rightarrow> int option outcome" where
  "timeout_micros timeout =
     (case timeout of
        ZNull \<Rightarrow> Ret None
      | ZLong n \<Rightarrow> if 0 < n then Ret (Some (cast_u 64 (n * 1000000))) else invalid_argument ''timeout'' ''an positive number of seconds or null''
      | ZDouble d \<Rightarrow>
          if dbl_less 0 d then bind_outcome (dbl_ceil_mult 64 1000000 d) (\<lambda>us. Ret (Some us))
          else invalid_argument ''timeout'' ''an positive number of seconds or null''
      | _ \<Rightarrow> invalid_argument ''timeout'' ''an positive number of seconds or null'')"

definition null_future :: exn where
  "null_future = Exn RuntimeException ''Received a nullptr future from the driver (allocation failure)''"

definition resolve :: "nat \<Rightarrow> cass_rc \<Rightarrow> process \<Rightarrow> process" where
  "resolve f rc W = W\<lparr>cass_futures := (cass_futures W)(f \<mapsto> Resolved rc)\<rparr>"

definition php_scylladb_future_wait_timed :: "nat option \<Rightarrow> zval \<Rightarrow> answer \<Rightarrow> process \<Rightarrow> unit outcome \<times> process" where
  "php_scylladb_future_wait_timed future timeout ans W =
     (case future of
        None \<Rightarrow> (Throw null_future, W)
      | Some f \<Rightarrow>
          (case cass_futures W f of
             None \<Rightarrow> (UB, W)
           | Some (Resolved _) \<Rightarrow> (Ret (), W)
           | Some Pending \<Rightarrow>
               (case timeout_micros timeout of
                  Ret None \<Rightarrow> (Ret (), resolve f (fst ans) W)
                | Ret (Some us) \<Rightarrow>
                    if int (snd ans) \<le> us then (Ret (), resolve f (fst ans) W)
                    else (Throw (Exn TimeoutException ''Future hasn't resolved''), W)
                | Throw e \<Rightarrow> (Throw e, W)
                | UB \<Rightarrow> (UB, W))))"

text \<open>Reading the result of a future blocks until it has one.\<close>

definition cass_future_error_code :: "nat \<Rightarrow> answer \<Rightarrow> process \<Rightarrow> cass_rc outcome \<times> process" where
  "cass_future_error_code f ans W =
     (case cass_futures W f of
        None \<Rightarrow> (UB, W)
      | Some (Resolved rc) \<Rightarrow> (Ret rc, W)
      | Some Pending \<Rightarrow> (Ret (fst ans), resolve f (fst ans) W))"

definition php_scylladb_future_is_error :: "nat option \<Rightarrow> answer \<Rightarrow> process \<Rightarrow> unit outcome \<times> process" where
  "php_scylladb_future_is_error future ans W =
     (case future of
        None \<Rightarrow> (Throw null_future, W)
      | Some f \<Rightarrow>
          (case cass_future_error_code f ans W of
             (Ret rc, W) \<Rightarrow> (case rc_error rc of None \<Rightarrow> (Ret (), W) | Some e \<Rightarrow> (Throw e, W))
           | (Throw e, W) \<Rightarrow> (Throw e, W)
           | (UB, W) \<Rightarrow> (UB, W)))"

text \<open>
  Both, one after the other. The methods \<^verbatim>\<open>get\<close> of futures wait with \<^verbatim>\<open>php_scylladb_future_wait_coro\<close>, which
  is this wait unless a coroutine scheduler runs.
\<close>

definition await :: "nat option \<Rightarrow> zval \<Rightarrow> answer \<Rightarrow> process \<Rightarrow> unit outcome \<times> process" where
  "await future timeout ans W =
     (case php_scylladb_future_wait_timed future timeout ans W of
        (Ret _, W) \<Rightarrow> php_scylladb_future_is_error future ans W
      | r \<Rightarrow> r)"

section \<open>Session objects\<close>

record session =
  s_session :: "nat option"
  s_default_consistency :: int
  s_default_page_size :: int
  s_keyspace :: "string option"
  s_cache_key :: "64 word"
  s_default_timeout :: "64 word option"
  s_persist :: bool

record future_session =
  fs_future :: "nat option"
  fs_session :: "nat option"
  fs_default_session :: "nat option" \<comment> \<open>the handle of the session object\<close>
  fs_persist :: bool
  fs_cache_key :: "64 word"
  fs_default_consistency :: int
  fs_default_page_size :: int
  fs_default_timeout :: "64 word option"
  fs_exception :: "exn option"
  fs_session_keyspace :: "string option"

definition php_scylladb_default_session_free :: "session \<Rightarrow> process \<Rightarrow> process outcome" where
  "php_scylladb_default_session_free s W =
     (case s_session s of
        Some p \<Rightarrow> if s_persist s then Ret W else cass_session_free p W
      | None \<Rightarrow> Ret W)"

text \<open>A \<^verbatim>\<open>session\<close> object that was to be returned dies with the exception.\<close>

definition discard :: "session \<Rightarrow> exn \<Rightarrow> process \<Rightarrow> 'a outcome \<times> process" where
  "discard s e W = with_process (php_scylladb_default_session_free s W) W (\<lambda>W. (Throw e, W))"

text \<open>The fingerprint of a session: that of its cluster and the keyspace, as a C string.\<close>

definition session_key :: "64 word \<Rightarrow> string option \<Rightarrow> 64 word" where
  "session_key cluster_key keyspace =
     mix_fields php_scylladb_cache_key_init
       [K_Ulong cluster_key, K_Cstr (Some '':session:''), K_Cstr (Some (case keyspace of None \<Rightarrow> [] | Some s \<Rightarrow> c_str s))]"

text \<open>A new driver session that connects: the session, its future, and the process.\<close>

definition open_session :: "nat option \<Rightarrow> process \<Rightarrow> (nat \<times> nat \<times> process) outcome" where
  "open_session cluster W =
     (case cluster of
        None \<Rightarrow> UB
      | Some c \<Rightarrow>
          if cass_clusters W c = None then UB
          else let p = next_ptr W
               in Ret (p, Suc p, W\<lparr>next_ptr := Suc (Suc p), cass_sessions := insert p (cass_sessions W), cass_futures := (cass_futures W)(Suc p \<mapsto> Pending)\<rparr>))"

text \<open>The entry for it.\<close>

definition keep_session :: "64 word \<Rightarrow> nat \<Rightarrow> nat \<Rightarrow> process \<Rightarrow> process outcome" where
  "keep_session key p f W =
     (let q = next_ptr W
      in bind_outcome (plist_update key (R_Session q) (W\<lparr>next_ptr := Suc q, psessions := (psessions W)(q \<mapsto> \<lparr>ps_session = p, ps_future = f\<rparr>)\<rparr>)) (\<lambda>W.
           Ret (use_entry PERSISTENT_SESSIONS 1 W)))"

definition session_of_cluster :: "cluster \<Rightarrow> string option \<Rightarrow> session" where
  "session_of_cluster c keyspace =
     \<lparr>s_session = None, s_default_consistency = cl_default_consistency c, s_default_page_size = cast_s 32 (cl_default_page_size c),
      s_keyspace = keyspace, s_cache_key = (if cl_persist c then session_key (cl_cache_key c) keyspace else cl_cache_key c),
      s_default_timeout = cl_default_timeout c, s_persist = cl_persist c\<rparr>"

text \<open>The entry that both ways to connect look for.\<close>

definition find_session :: "64 word \<Rightarrow> process \<Rightarrow> psession option outcome" where
  "find_session key W =
     (case persistent_list W key of
        Some (R_Session q) \<Rightarrow> (case psessions W q of None \<Rightarrow> UB | Some s \<Rightarrow> Ret (Some s))
      | _ \<Rightarrow> Ret None)"

text \<open>The end of \<^verbatim>\<open>connect\<close>, from the wait on.\<close>

definition connect_wait :: "session \<Rightarrow> nat \<Rightarrow> zval \<Rightarrow> answer \<Rightarrow> process \<Rightarrow> session outcome \<times> process" where
  "connect_wait s f timeout ans W =
     (case await (Some f) timeout ans W of
        (Ret _, W) \<Rightarrow> if s_persist s then (Ret s, W) else with_process (cass_future_free f W) W (\<lambda>W. (Ret s, W))
      | (Throw e, W) \<Rightarrow>
          if s_persist s then with_process (bind_outcome (plist_del (s_cache_key s) W) (\<lambda>(_, W). Ret W)) W (discard s e)
          else with_process (cass_future_free f W) W (discard s e)
      | (UB, W) \<Rightarrow> (UB, W))"

definition connect_new :: "nat option \<Rightarrow> session \<Rightarrow> zval \<Rightarrow> answer \<Rightarrow> process \<Rightarrow> session outcome \<times> process" where
  "connect_new cluster s timeout ans W =
     (case open_session cluster W of
        Ret (p, f, W) \<Rightarrow>
          let s = s\<lparr>s_session := Some p\<rparr>
          in if s_persist s then with_process (keep_session (s_cache_key s) p f W) W (connect_wait s f timeout ans)
             else connect_wait s f timeout ans W
      | _ \<Rightarrow> (UB, W))"

definition connect :: "cluster \<Rightarrow> string option \<Rightarrow> zval \<Rightarrow> answer \<Rightarrow> process \<Rightarrow> session outcome \<times> process" where
  "connect self keyspace timeout ans W =
     (let s = session_of_cluster self keyspace
      in if s_persist s
         then case find_session (s_cache_key s) W of
                Ret (Some ps) \<Rightarrow> connect_wait (s\<lparr>s_session := Some (ps_session ps)\<rparr>) (ps_future ps) timeout ans W
              | Ret None \<Rightarrow>
                  (case php_scylladb_persistent_can_cache PERSISTENT_SESSIONS W of
                     (ok, W) \<Rightarrow> connect_new (cl_cluster self) (s\<lparr>s_persist := ok\<rparr>) timeout ans W)
              | _ \<Rightarrow> (UB, W)
         else connect_new (cl_cluster self) s timeout ans W)"

definition future_of_cluster :: "cluster \<Rightarrow> string option \<Rightarrow> future_session" where
  "future_of_cluster c keyspace =
     \<lparr>fs_future = None, fs_session = None, fs_default_session = None, fs_persist = cl_persist c,
      fs_cache_key = (if cl_persist c then session_key (cl_cache_key c) keyspace else cl_cache_key c),
      fs_default_consistency = cl_default_consistency c, fs_default_page_size = cast_s 32 (cl_default_page_size c),
      fs_default_timeout = cl_default_timeout c, fs_exception = None, fs_session_keyspace = keyspace\<rparr>"

definition connectAsync_new :: "nat option \<Rightarrow> future_session \<Rightarrow> process \<Rightarrow> future_session outcome \<times> process" where
  "connectAsync_new cluster fs W =
     (case open_session cluster W of
        Ret (p, f, W) \<Rightarrow>
          let fs = fs\<lparr>fs_session := Some p, fs_future := Some f\<rparr>
          in if fs_persist fs then with_process (keep_session (fs_cache_key fs) p f W) W (Pair (Ret fs)) else (Ret fs, W)
      | _ \<Rightarrow> (UB, W))"

definition connectAsync :: "cluster \<Rightarrow> string option \<Rightarrow> process \<Rightarrow> future_session outcome \<times> process" where
  "connectAsync self keyspace W =
     (let fs = future_of_cluster self keyspace
      in if cl_persist self
         then case find_session (fs_cache_key fs) W of
                Ret (Some ps) \<Rightarrow> (Ret (fs\<lparr>fs_session := Some (ps_session ps), fs_future := Some (ps_future ps)\<rparr>), W)
              | Ret None \<Rightarrow>
                  (case php_scylladb_persistent_can_cache PERSISTENT_SESSIONS W of
                     (ok, W) \<Rightarrow> connectAsync_new (cl_cluster self) (fs\<lparr>fs_persist := ok\<rparr>) W)
              | _ \<Rightarrow> (UB, W)
         else connectAsync_new (cl_cluster self) fs W)"

section \<open>\<^verbatim>\<open>FutureSession::get\<close> and release\<close>

definition session_of_future :: "future_session \<Rightarrow> session" where
  "session_of_future fs =
     \<lparr>s_session = fs_session fs, s_default_consistency = fs_default_consistency fs, s_default_page_size = fs_default_page_size fs,
      s_keyspace = fs_session_keyspace fs, s_cache_key = fs_cache_key fs, s_default_timeout = fs_default_timeout fs, s_persist = fs_persist fs\<rparr>"

text \<open>What is returned: the object of an earlier call, or a new one. A removed entry takes the future with it.\<close>

datatype got = Existing nat | New session

definition drop_entry :: "future_session \<Rightarrow> process \<Rightarrow> (future_session \<times> process) outcome" where
  "drop_entry fs W =
     bind_outcome (plist_del (fs_cache_key fs) W) (\<lambda>(gone, W). Ret (if gone then fs\<lparr>fs_future := None\<rparr> else fs, W))"

definition get_failed :: "future_session \<Rightarrow> session \<Rightarrow> bool \<Rightarrow> exn \<Rightarrow> process \<Rightarrow> got outcome \<times> future_session \<times> process" where
  "get_failed fs s del e W =
     (case (if del then drop_entry fs W else Ret (fs, W)) of
        Ret (fs, W) \<Rightarrow> (case discard s e W of (r, W) \<Rightarrow> (r, fs, W))
      | _ \<Rightarrow> (UB, fs, W))"

definition future_session_get :: "future_session \<Rightarrow> zval \<Rightarrow> answer \<Rightarrow> process \<Rightarrow> got outcome \<times> future_session \<times> process" where
  "future_session_get self timeout ans W =
     (case fs_exception self of
        Some e \<Rightarrow> (Throw e, self, W)
      | None \<Rightarrow>
          (case fs_default_session self of
             Some h \<Rightarrow> (Ret (Existing h), self, W)
           | None \<Rightarrow>
               if fs_session self = None \<or> fs_future self = None
               then (Throw (Exn RuntimeException ''FutureSession has no associated session (cached entry expired)''), self, W)
               else let s = session_of_future self; fs = (if fs_persist self then self else self\<lparr>fs_session := None\<rparr>)
                    in case php_scylladb_future_wait_timed (fs_future fs) timeout ans W of
                         (Throw e, W) \<Rightarrow> get_failed fs s (fs_persist fs \<and> fs_cache_key fs \<noteq> 0) e W
                       | (UB, W) \<Rightarrow> (UB, fs, W)
                       | (Ret _, W) \<Rightarrow>
                           (case php_scylladb_future_is_error (fs_future fs) ans W of
                              (Ret _, W) \<Rightarrow> (Ret (New s), fs, W)
                            | (Throw e, W) \<Rightarrow>
                                if fs_persist fs then get_failed (fs\<lparr>fs_exception := Some e\<rparr>) s True e W else get_failed fs s False e W
                            | (UB, W) \<Rightarrow> (UB, fs, W))))"

definition php_scylladb_future_session_free :: "future_session \<Rightarrow> process \<Rightarrow> process outcome" where
  "php_scylladb_future_session_free self W =
     (if fs_persist self then Ret W
      else bind_outcome (case fs_future self of None \<Rightarrow> Ret W | Some f \<Rightarrow> cass_future_free f W) (\<lambda>W.
        case fs_session self of None \<Rightarrow> Ret W | Some p \<Rightarrow> cass_session_free p W))"

section \<open>Using a session\<close>

text \<open>A request of a session: a new future.\<close>

definition session_future :: "nat option \<Rightarrow> process \<Rightarrow> (nat \<times> process) outcome" where
  "session_future session W =
     (case session of
        None \<Rightarrow> UB
      | Some p \<Rightarrow>
          if p \<in> cass_sessions W
          then let f = next_ptr W in Ret (f, W\<lparr>next_ptr := Suc f, cass_futures := (cass_futures W)(f \<mapsto> Pending)\<rparr>)
          else UB)"

text \<open>A prepared statement is named by the future it came from.\<close>

definition prepare_key :: "session \<Rightarrow> string \<Rightarrow> 64 word" where
  "prepare_key s cql =
     mix_fields
       (php_scylladb_cache_key_mix_bytes (mix_fields php_scylladb_cache_key_init [K_Ulong (s_cache_key s)]) (char_bytes cql))
       [K_Cstr (Some '':prepared_statement:''), K_Cstr (Some (case s_keyspace s of None \<Rightarrow> [] | Some k \<Rightarrow> c_str k))]"

definition prepare_new :: "session \<Rightarrow> 64 word \<Rightarrow> bool \<Rightarrow> zval \<Rightarrow> answer \<Rightarrow> process \<Rightarrow> nat outcome \<times> process" where
  "prepare_new s key keep timeout ans W =
     (case session_future (s_session s) W of
        Ret (f, W) \<Rightarrow>
          (case await (Some f) timeout ans W of
             (Ret _, W) \<Rightarrow>
               if keep
               then let q = next_ptr W
                    in with_process (plist_update key (R_Statement q) (W\<lparr>next_ptr := Suc q, pprepared := (pprepared W)(q \<mapsto> f)\<rparr>)) W (\<lambda>W.
                         (Ret f, use_entry PERSISTENT_PREPARED_STATEMENTS 1 W))
               else with_process (cass_future_free f W) W (\<lambda>W. (Ret f, W))
           | (Throw e, W) \<Rightarrow> with_process (cass_future_free f W) W (\<lambda>W. (Throw e, W))
           | (UB, W) \<Rightarrow> (UB, W))
      | _ \<Rightarrow> (UB, W))"

text \<open>\<open>prepared\<close> says whether the driver has a prepared statement for a future that did not fail.\<close>

definition prepare :: "(nat \<Rightarrow> bool) \<Rightarrow> session \<Rightarrow> string \<Rightarrow> zval \<Rightarrow> answer \<Rightarrow> process \<Rightarrow> nat outcome \<times> process" where
  "prepare prepared self cql timeout ans W =
     (let key = prepare_key self cql;
          new = (\<lambda>W. if s_persist self
                      then case php_scylladb_persistent_can_cache PERSISTENT_PREPARED_STATEMENTS W of (ok, W) \<Rightarrow> prepare_new self key ok timeout ans W
                      else prepare_new self key False timeout ans W)
      in case (if s_persist self then persistent_list W key else None) of
           Some (R_Statement q) \<Rightarrow>
             (case pprepared W q of
                None \<Rightarrow> (UB, W)
              | Some f \<Rightarrow>
                  (case cass_future_error_code f ans W of
                     (Ret rc, W) \<Rightarrow>
                       if rc = CASS_OK \<and> prepared f then (Ret f, W)
                       else with_process (bind_outcome (plist_del key W) (\<lambda>(_, W). Ret W)) W new
                   | (_, W) \<Rightarrow> (UB, W)))
         | _ \<Rightarrow> new W)"

definition prepareAsync :: "session \<Rightarrow> process \<Rightarrow> nat outcome \<times> process" where
  "prepareAsync self W = (case session_future (s_session self) W of Ret (f, W) \<Rightarrow> (Ret f, W) | _ \<Rightarrow> (UB, W))"

definition close :: "session \<Rightarrow> zval \<Rightarrow> answer \<Rightarrow> process \<Rightarrow> unit outcome \<times> process" where
  "close self timeout ans W =
     (if s_persist self then (Ret (), W)
      else case session_future (s_session self) W of
        Ret (f, W) \<Rightarrow> (case await (Some f) timeout ans W of (r, W) \<Rightarrow> with_process (cass_future_free f W) W (\<lambda>W. (r, W)))
      | _ \<Rightarrow> (UB, W))"

text \<open>Nothing to wait for when the session is persistent.\<close>

definition closeAsync :: "session \<Rightarrow> process \<Rightarrow> nat option outcome \<times> process" where
  "closeAsync self W =
     (if s_persist self then (Ret None, W)
      else case session_future (s_session self) W of Ret (f, W) \<Rightarrow> (Ret (Some f), W) | _ \<Rightarrow> (UB, W))"

section \<open>Other futures\<close>

definition future_close_get :: "nat \<Rightarrow> zval \<Rightarrow> answer \<Rightarrow> process \<Rightarrow> unit outcome \<times> process" where
  "future_close_get future timeout ans W = await (Some future) timeout ans W"

definition php_scylladb_future_close_free :: "nat \<Rightarrow> process \<Rightarrow> process outcome" where
  "php_scylladb_future_close_free future W = cass_future_free future W"

text \<open>A second \<^verbatim>\<open>get\<close> returns the statement of the first.\<close>

definition future_prepared_statement_get :: "nat \<Rightarrow> nat option \<Rightarrow> zval \<Rightarrow> answer \<Rightarrow> process \<Rightarrow> nat outcome \<times> process" where
  "future_prepared_statement_get future prepared_statement timeout ans W =
     (case prepared_statement of
        Some q \<Rightarrow> (Ret q, W)
      | None \<Rightarrow>
          (case await (Some future) timeout ans W of
             (Ret _, W) \<Rightarrow> (Ret future, W)
           | (Throw e, W) \<Rightarrow> (Throw e, W)
           | (UB, W) \<Rightarrow> (UB, W)))"

definition php_scylladb_future_prepared_statement_free :: "nat \<Rightarrow> process \<Rightarrow> process outcome" where
  "php_scylladb_future_prepared_statement_free future W = cass_future_free future W"

section \<open>Scripts\<close>

text \<open>
  The objects of a script, by handle. A future of \<^verbatim>\<open>close\<close> holds its session, one of \<^verbatim>\<open>prepareAsync\<close> what it
  returned.
\<close>

datatype php_object =
    O_Cluster cluster
  | O_Session session
  | O_FutureSession future_session
  | O_FutureClose nat nat
  | O_FuturePrepared nat "nat option"

record script =
  proc :: process
  objects :: "nat \<rightharpoonup> php_object"

definition holds :: "php_object \<Rightarrow> nat \<Rightarrow> bool" where
  "holds x h \<longleftrightarrow> (case x of O_FutureSession fs \<Rightarrow> fs_default_session fs = Some h | O_FutureClose _ s \<Rightarrow> s = h | _ \<Rightarrow> False)"

definition object_free :: "php_object \<Rightarrow> process \<Rightarrow> process outcome" where
  "object_free x W =
     (case x of
        O_Cluster c \<Rightarrow> php_scylladb_default_cluster_free c W
      | O_Session s \<Rightarrow> php_scylladb_default_session_free s W
      | O_FutureSession fs \<Rightarrow> php_scylladb_future_session_free fs W
      | O_FutureClose f _ \<Rightarrow> php_scylladb_future_close_free f W
      | O_FuturePrepared f _ \<Rightarrow> php_scylladb_future_prepared_statement_free f W)"

text \<open>After a call: undefined, or the script with what the call made of the process and its objects.\<close>

definition after :: "'a outcome \<times> process \<Rightarrow> ('a \<Rightarrow> (nat \<rightharpoonup> php_object) \<Rightarrow> nat \<rightharpoonup> php_object) \<Rightarrow> script \<Rightarrow> script outcome" where
  "after r put S =
     (case r of
        (Ret x, W) \<Rightarrow> Ret \<lparr>proc = W, objects = put x (objects S)\<rparr>
      | (Throw _, W) \<Rightarrow> Ret (S\<lparr>proc := W\<rparr>)
      | (UB, _) \<Rightarrow> UB)"

end
