(* ===== verification/SessionOwnership.thy ===== *)
theory SessionOwnership
  imports Sessions
begin

text \<open>
  Who frees what: every driver session and future belongs to one entry of the worker's list, to one object of
  the script, or to the call that is running. The invariant \<open>ok\<close> says so, and the lemmas show how each step of
  a call on the worker's state keeps it: a future resolves, a session is opened, an entry is kept or deleted, an
  object is put in the script's table or taken out of it.
\<close>

section \<open>Ownership\<close>

text \<open>
  Driver objects belong to an entry of the list, to an object of the script, or, during a call, to the
  call: the loose ones.
\<close>

definition object_own :: "php_object \<Rightarrow> nat set" where
  "object_own x =
     (case x of
        O_Cluster c \<Rightarrow> if cl_persist c then {} else set_option (cl_cluster c)
      | O_Session s \<Rightarrow> if s_persist s then {} else set_option (s_session s)
      | O_FutureSession fs \<Rightarrow> if fs_persist fs then {} else set_option (fs_future fs) \<union> set_option (fs_session fs)
      | O_FutureClose f _ \<Rightarrow> {f}
      | O_FuturePrepared f _ \<Rightarrow> {f})"

datatype owner = Loose | Entry "64 word" | Object nat

definition claim :: "nat set \<Rightarrow> process \<Rightarrow> (nat \<rightharpoonup> php_object) \<Rightarrow> owner \<Rightarrow> nat set" where
  "claim L W Os c =
     (case c of
        Loose \<Rightarrow> L
      | Entry k \<Rightarrow> (case persistent_list W k of None \<Rightarrow> {} | Some r \<Rightarrow> own W r)
      | Object h \<Rightarrow> (case Os h of None \<Rightarrow> {} | Some x \<Rightarrow> object_own x))"

definition borrowed :: "process \<Rightarrow> 64 word \<Rightarrow> nat \<Rightarrow> nat \<Rightarrow> bool" where
  "borrowed W k p f \<longleftrightarrow> (\<exists>q. persistent_list W k = Some (R_Session q) \<and> psessions W q = Some \<lparr>ps_session = p, ps_future = f\<rparr>)"

definition object_ok :: "process \<Rightarrow> php_object \<Rightarrow> bool" where
  "object_ok W x =
     (case x of
        O_Cluster c \<Rightarrow>
          (\<exists>p. cl_cluster c = Some p \<and>
            (if cl_persist c then persistent_list W (cl_cache_key c) = Some (R_Cluster p) else cass_clusters W p \<noteq> None))
      | O_Session s \<Rightarrow>
          (\<exists>p. s_session s = Some p \<and>
            (if s_persist s then \<exists>f. borrowed W (s_cache_key s) p f \<and> cass_futures W f = Some (Resolved CASS_OK) else p \<in> cass_sessions W))
      | O_FutureSession fs \<Rightarrow>
          if fs_persist fs then (\<forall>f. fs_future fs = Some f \<longrightarrow> (\<exists>p. fs_session fs = Some p \<and> borrowed W (fs_cache_key fs) p f))
          else set_option (fs_session fs) \<subseteq> cass_sessions W \<and> (\<exists>f. fs_future fs = Some f \<and> cass_futures W f \<noteq> None)
      | O_FutureClose f _ \<Rightarrow> cass_futures W f \<noteq> None
      | O_FuturePrepared f _ \<Rightarrow> cass_futures W f \<noteq> None)"

definition held_ok :: "(nat \<rightharpoonup> php_object) \<Rightarrow> bool" where
  "held_ok Os \<longleftrightarrow> (\<forall>h x h'. Os h = Some x \<longrightarrow> holds x h' \<longrightarrow> (\<exists>s. Os h' = Some (O_Session s)))"

definition in_use :: "process \<Rightarrow> nat set" where
  "in_use W = cass_sessions W \<union> dom (cass_futures W)"

text \<open>Claims are below a bound, disjoint, and cover what is in use.\<close>

definition family_ok :: "nat \<Rightarrow> nat set \<Rightarrow> (owner \<Rightarrow> nat set) \<Rightarrow> bool" where
  "family_ok n U C \<longleftrightarrow> (\<forall>c. C c \<subseteq> {..<n}) \<and> (\<forall>c d. c \<noteq> d \<longrightarrow> C c \<inter> C d = {}) \<and> (\<forall>p \<in> U. \<exists>c. p \<in> C c)"

lemma family_okD:
  assumes "family_ok n U C"
  shows "C c \<subseteq> {..<n}" "c \<noteq> d \<Longrightarrow> C c \<inter> C d = {}" "p \<in> U \<Longrightarrow> \<exists>c. p \<in> C c"
  using assms by (auto simp: family_ok_def)

lemma family_loose:
  assumes C: "family_ok n U C" and "n \<le> n'" "L \<subseteq> {..<n'}" "L \<subseteq> C Loose \<union> {n..}"
    and U: "\<And>p. p \<in> U' \<Longrightarrow> p \<in> L \<or> p \<in> U \<and> p \<notin> C Loose"
  shows "family_ok n' U' (C(Loose := L))"
  unfolding family_ok_def
proof (intro conjI allI impI ballI)
  have other: "C c \<inter> L = {}" if "c \<noteq> Loose" for c using family_okD(1,2) [OF C, of c] assms(4) that by fastforce
  show "(C(Loose := L)) c \<subseteq> {..<n'}" for c using family_okD(1) [OF C, of c] assms(2,3) by auto
  show "(C(Loose := L)) c \<inter> (C(Loose := L)) d = {}" if "c \<noteq> d" for c d
    using family_okD(2) [OF C that] other that by (auto simp: Int_commute)
  show "\<exists>c. p \<in> (C(Loose := L)) c" if "p \<in> U'" for p
    using U [OF that] family_okD(3) [OF C, of p] by (metis fun_upd_other fun_upd_same)
qed

lemma family_split:
  assumes C: "family_ok n U C" and "X \<subseteq> C Loose" "C d = {}" "d \<noteq> Loose"
  shows "family_ok n U (C(Loose := C Loose - X, d := X))"
  unfolding family_ok_def
proof (intro conjI allI impI ballI)
  have other: "C c \<inter> X = {}" if "c \<noteq> Loose" for c using family_okD(2) [OF C that] assms(2) by blast
  show "(C(Loose := C Loose - X, d := X)) c \<subseteq> {..<n}" for c using family_okD(1) [OF C, of c] family_okD(1) [OF C, of Loose] assms(2) by auto
  show "(C(Loose := C Loose - X, d := X)) a \<inter> (C(Loose := C Loose - X, d := X)) c = {}" if "a \<noteq> c" for a c
    using family_okD(2) [OF C that] other [of a] other [of c] that by auto
  show "\<exists>c. p \<in> (C(Loose := C Loose - X, d := X)) c" if "p \<in> U" for p
  proof -
    obtain c where "p \<in> C c" using family_okD(3) [OF C \<open>p \<in> U\<close>] by blast
    then have "p \<in> (C(Loose := C Loose - X, d := X)) (if p \<in> X then d else c)" using assms(3,4) by auto
    then show ?thesis by blast
  qed
qed

lemma family_merge:
  assumes C: "family_ok n U C" and "d \<noteq> Loose"
  shows "family_ok n U (C(Loose := C Loose \<union> C d, d := {}))"
  unfolding family_ok_def
proof (intro conjI allI impI ballI)
  show "(C(Loose := C Loose \<union> C d, d := {})) c \<subseteq> {..<n}" for c using family_okD(1) [OF C, of c] family_okD(1) [OF C, of d] by auto
  show "(C(Loose := C Loose \<union> C d, d := {})) a \<inter> (C(Loose := C Loose \<union> C d, d := {})) c = {}" if "a \<noteq> c" for a c
    using family_okD(2) [OF C that] family_okD(2) [OF C, of a d] family_okD(2) [OF C, of c d] that by auto
  show "\<exists>c. p \<in> (C(Loose := C Loose \<union> C d, d := {})) c" if "p \<in> U" for p
  proof -
    obtain c where "p \<in> C c" using family_okD(3) [OF C \<open>p \<in> U\<close>] by blast
    then have "p \<in> (C(Loose := C Loose \<union> C d, d := {})) (if c = d then Loose else c)" using assms(2) by auto
    then show ?thesis by blast
  qed
qed

lemma family_drop:
  assumes C: "family_ok n U C" and U: "\<And>p. p \<in> U' \<Longrightarrow> p \<in> U \<and> p \<notin> C d"
  shows "family_ok n U' (C(d := {}))"
  unfolding family_ok_def
proof (intro conjI allI impI ballI)
  show "(C(d := {})) c \<subseteq> {..<n}" for c using family_okD(1) [OF C, of c] by auto
  show "(C(d := {})) a \<inter> (C(d := {})) c = {}" if "a \<noteq> c" for a c using family_okD(2) [OF C that] by auto
  show "\<exists>c. p \<in> (C(d := {})) c" if "p \<in> U'" for p using U [OF that] family_okD(3) [OF C, of p] by (metis fun_upd_other)
qed

text \<open>An address is of one kind, and of none beyond the counter.\<close>

definition address_ok :: "process \<Rightarrow> nat \<Rightarrow> bool" where
  "address_ok W p \<longleftrightarrow>
     (p \<in> in_use W \<or> next_ptr W \<le> p \<longrightarrow> cass_clusters W p = None \<and> psessions W p = None \<and> pprepared W p = None) \<and>
     (p \<in> cass_sessions W \<longrightarrow> cass_futures W p = None)"

definition ok :: "nat set \<Rightarrow> process \<Rightarrow> (nat \<rightharpoonup> php_object) \<Rightarrow> bool" where
  "ok L W Os \<longleftrightarrow>
     process_ok W \<and> held_ok Os \<and> (\<forall>x \<in> ran Os. object_ok W x) \<and> family_ok (next_ptr W) (in_use W) (claim L W Os) \<and>
     (\<forall>p. address_ok W p)"

lemma claim_simps [simp]:
  "claim L W Os Loose = L" "claim L W Os (Entry k) = (case persistent_list W k of None \<Rightarrow> {} | Some r \<Rightarrow> own W r)"
  "claim L W Os (Object h) = (case Os h of None \<Rightarrow> {} | Some x \<Rightarrow> object_own x)"
  by (simp_all add: claim_def)

lemma ok_disjoint: "ok L W Os \<Longrightarrow> c \<noteq> d \<Longrightarrow> claim L W Os c \<inter> claim L W Os d = {}"
  by (simp add: ok_def family_ok_def)

lemma ok_below: "ok L W Os \<Longrightarrow> claim L W Os c \<subseteq> {..<next_ptr W}"
  by (simp add: ok_def family_ok_def)

lemma ok_kinds: "ok L W Os \<Longrightarrow> cass_futures W p \<noteq> None \<Longrightarrow> p \<notin> cass_sessions W"
  by (auto simp: ok_def address_ok_def)

lemma ok_in_use_below: "ok L W Os \<Longrightarrow> p \<in> in_use W \<Longrightarrow> p < next_ptr W"
  unfolding ok_def family_ok_def by blast

text \<open>What a call changes: nothing outside a set of addresses, but for futures that get their result.\<close>

definition evolves :: "nat set \<Rightarrow> process \<Rightarrow> process \<Rightarrow> bool" where
  "evolves A W W' \<longleftrightarrow>
     (\<forall>p. p \<notin> A \<longrightarrow> cass_clusters W' p = cass_clusters W p \<and> (p \<in> cass_sessions W') = (p \<in> cass_sessions W) \<and>
       (cass_futures W' p = cass_futures W p \<or> cass_futures W p = Some Pending \<and> (\<exists>rc. cass_futures W' p = Some (Resolved rc))) \<and>
       psessions W' p = psessions W p \<and> pprepared W' p = pprepared W p)"

lemma keeps_evolves: "keeps A W W' \<Longrightarrow> evolves A W W'"
  by (simp add: keeps_def evolves_def)

lemma evolves_future: "evolves A W W' \<Longrightarrow> p \<notin> A \<Longrightarrow> cass_futures W' p = None \<longleftrightarrow> cass_futures W p = None"
  by (auto simp: evolves_def)

lemma evolves_own: "evolves A W W' \<Longrightarrow> own W r \<inter> A = {} \<Longrightarrow> own W' r = own W r"
  by (cases r) (auto simp: evolves_def own_def)

lemma evolves_alive: "evolves A W W' \<Longrightarrow> own W r \<inter> A = {} \<Longrightarrow> alive W' r = alive W r"
  by (cases r) (auto simp: evolves_def own_def alive_def evolves_future split: option.splits)

lemma borrowed_evolves:
  assumes "evolves A W W'" "borrowed W k p f" "persistent_list W' k = persistent_list W k" "claim L W Os (Entry k) \<inter> A = {}"
  shows "borrowed W' k p f" "f \<notin> A"
proof -
  obtain q where q: "persistent_list W k = Some (R_Session q)" "psessions W q = Some \<lparr>ps_session = p, ps_future = f\<rparr>"
    using assms(2) by (auto simp: borrowed_def)
  then have "q \<notin> A" "f \<notin> A" using assms(4) by (auto simp: own_def)
  then show "borrowed W' k p f" "f \<notin> A" using q assms(1,3) by (auto simp: borrowed_def evolves_def)
qed

text \<open>An object keeps its state when what it owns and the entry it borrows from are not touched.\<close>

definition object_key :: "php_object \<Rightarrow> 64 word option" where
  "object_key x =
     (case x of
        O_Cluster c \<Rightarrow> if cl_persist c then Some (cl_cache_key c) else None
      | O_Session s \<Rightarrow> if s_persist s then Some (s_cache_key s) else None
      | O_FutureSession fs \<Rightarrow> if fs_persist fs \<and> fs_future fs \<noteq> None then Some (fs_cache_key fs) else None
      | _ \<Rightarrow> None)"

lemma object_ok_evolves:
  assumes x: "object_ok W x" and e: "evolves A W W'" and own: "object_own x \<inter> A = {}"
    and key: "\<And>k. object_key x = Some k \<Longrightarrow> persistent_list W' k = persistent_list W k \<and> claim L W Os (Entry k) \<inter> A = {}"
  shows "object_ok W' x"
proof (cases x)
  case (O_Cluster c)
  then show ?thesis using x e own key by (auto simp: object_ok_def object_own_def object_key_def evolves_def split: if_splits)
next
  case (O_Session s)
  show ?thesis
  proof (cases "s_persist s")
    case True
    then obtain p f where p: "s_session s = Some p" "borrowed W (s_cache_key s) p f" "cass_futures W f = Some (Resolved CASS_OK)"
      using x O_Session by (auto simp: object_ok_def)
    have "borrowed W' (s_cache_key s) p f" "f \<notin> A"
      using borrowed_evolves [OF e p(2)] key [of "s_cache_key s"] True O_Session by (auto simp: object_key_def)
    moreover have "cass_futures W' f = Some (Resolved CASS_OK)" using p(3) e \<open>f \<notin> A\<close> by (auto simp: evolves_def)
    ultimately show ?thesis using p(1) True O_Session by (auto simp: object_ok_def)
  qed (use x e own O_Session in \<open>auto simp: object_ok_def object_own_def evolves_def\<close>)
next
  case (O_FutureSession fs)
  show ?thesis
  proof (cases "fs_persist fs")
    case True
    have "\<exists>p. fs_session fs = Some p \<and> borrowed W' (fs_cache_key fs) p f" if f: "fs_future fs = Some f" for f
    proof -
      obtain p where "fs_session fs = Some p" "borrowed W (fs_cache_key fs) p f" using x True f O_FutureSession by (auto simp: object_ok_def)
      then show ?thesis using borrowed_evolves(1) [OF e] key [of "fs_cache_key fs"] True f O_FutureSession by (auto simp: object_key_def)
    qed
    then show ?thesis using True O_FutureSession by (auto simp: object_ok_def)
  qed (use x e own O_FutureSession in \<open>auto simp: object_ok_def object_own_def evolves_def evolves_future\<close>)
qed (use x own evolves_future [OF e] in \<open>auto simp: object_ok_def object_own_def\<close>)

lemma process_ok_evolves:
  assumes W: "process_ok W" and e: "evolves A W W'" and A: "\<And>k r. persistent_list W k = Some r \<Longrightarrow> own W r \<inter> A = {}"
    and same: "persistent_list W' = persistent_list W" "persistent_used W' = persistent_used W" and n: "next_ptr W \<le> next_ptr W'"
  shows "process_ok W'"
proof -
  have other: "own W' r = own W r" "alive W' r = alive W r" if "persistent_list W k = Some r" for k r
    using evolves_own [OF e A [OF that]] evolves_alive [OF e A [OF that]] by auto
  have "entries_of W' = entries_of W" by (simp add: entries_of_def same fun_eq_iff)
  moreover have "own W' r \<subseteq> {..<next_ptr W'}" if "persistent_list W k = Some r" for k r
    using W that other(1) [OF that] n by (fastforce simp: process_ok_def)
  ultimately show ?thesis using W other by (simp add: process_ok_def same)
qed

text \<open>
  The frame rule: a call that changes only loose and new addresses keeps everything else, and what it
  leaves in use must be loose afterwards.
\<close>

lemma ok_frame:
  assumes ok: "ok L W Os" and e: "evolves A W W'" and A: "A \<subseteq> L \<union> {next_ptr W..}"
    and same: "persistent_list W' = persistent_list W" "persistent_used W' = persistent_used W"
    and n: "next_ptr W \<le> next_ptr W'" and L': "L' \<subseteq> {..<next_ptr W'}" "L' \<subseteq> L \<union> {next_ptr W..}"
    and live: "in_use W' \<inter> (L \<union> A) \<subseteq> L'" and kinds: "\<And>p. p \<in> A \<Longrightarrow> address_ok W' p"
  shows "ok L' W' Os"
proof -
  have away: "claim L W Os c \<inter> (L \<union> {next_ptr W..}) = {}" if "c \<noteq> Loose" for c
    using ok_disjoint [OF ok that] ok_below [OF ok, of c] by force
  have entry: "own W r \<inter> A = {}" if "persistent_list W k = Some r" for k r
    using away [of "Entry k"] A that by auto
  have claims: "claim L' W' Os = (claim L W Os)(Loose := L')"
  proof
    fix c show "claim L' W' Os c = ((claim L W Os)(Loose := L')) c"
      using evolves_own [OF e entry] by (cases c) (auto simp: same split: option.splits)
  qed
  have "object_ok W' x" if x: "x \<in> ran Os" for x
  proof -
    obtain h where h: "Os h = Some x" using x by (auto simp: ran_def)
    have "object_own x \<inter> A = {}" using away [of "Object h"] A h by auto
    moreover have "claim L W Os (Entry k) \<inter> A = {}" for k using away [of "Entry k"] A by blast
    ultimately show ?thesis using object_ok_evolves [OF _ e, where L = L and Os = Os] ok x same by (auto simp: ok_def)
  qed
  moreover have "family_ok (next_ptr W') (in_use W') (claim L' W' Os)"
    unfolding claims
  proof (rule family_loose [OF _ n L'(1)])
    show "family_ok (next_ptr W) (in_use W) (claim L W Os)" using ok by (simp add: ok_def)
    show "L' \<subseteq> claim L W Os Loose \<union> {next_ptr W..}" using L'(2) by simp
    show "p \<in> L' \<or> p \<in> in_use W \<and> p \<notin> claim L W Os Loose" if "p \<in> in_use W'" for p
    proof (cases "p \<in> L \<union> A")
      case False
      then show ?thesis using that evolves_future [OF e, of p] e by (auto simp: in_use_def evolves_def)
    qed (use live that in blast)
  qed
  moreover have "process_ok W'" using process_ok_evolves [OF _ e entry same n] ok by (simp add: ok_def)
  moreover have "address_ok W' p" for p
  proof (cases "p \<in> A")
    case False
    then have "address_ok W p \<longrightarrow> address_ok W' p" using e evolves_future [OF e False] n False by (auto simp: address_ok_def in_use_def evolves_def)
    then show ?thesis using ok by (simp add: ok_def)
  qed (rule kinds)
  ultimately show ?thesis using ok unfolding ok_def by blast
qed

lemma ok_resolve:
  assumes ok: "ok L W Os" and f: "cass_futures W f = Some Pending"
  shows "ok L (resolve f rc W) Os"
proof (rule ok_frame [OF ok, of "{}"])
  show "evolves {} W (resolve f rc W)" using f by (auto simp: evolves_def resolve_def)
  show "L \<subseteq> {..<next_ptr (resolve f rc W)}" using ok_below [OF ok, of Loose] by (simp add: resolve_def)
qed (auto simp: resolve_def address_ok_def in_use_def)

lemma ok_can_cache: "ok L W Os \<Longrightarrow> ok L (snd (php_scylladb_persistent_can_cache kind W)) Os"
  by (rule ok_frame [of L W Os "{}"])
    (use ok_below [of L W Os Loose] in \<open>auto simp: evolves_def php_scylladb_persistent_can_cache_def Let_def\<close>)

lemma ok_open:
  assumes ok: "ok L W Os" and c: "cass_clusters W c \<noteq> None"
  obtains p f W' where "open_session (Some c) W = Ret (p, f, W')" "ok (L \<union> {p, f}) W' Os" "p \<in> cass_sessions W'" "cass_futures W' f = Some Pending"
    "persistent_list W' = persistent_list W" "p \<notin> L" "f \<notin> L" "p \<noteq> f" "p < next_ptr W'" "f < next_ptr W'"
proof -
  let ?W = "W\<lparr>next_ptr := Suc (Suc (next_ptr W)), cass_sessions := insert (next_ptr W) (cass_sessions W),
    cass_futures := (cass_futures W)(Suc (next_ptr W) \<mapsto> Pending)\<rparr>"
  have L: "L \<subseteq> {..<next_ptr W}" using ok_below [OF ok, of Loose] by simp
  have new: "next_ptr W \<notin> in_use W" "Suc (next_ptr W) \<notin> in_use W" "address_ok W (next_ptr W)" "address_ok W (Suc (next_ptr W))"
    using ok_in_use_below [OF ok] ok by (fastforce, fastforce, simp_all add: ok_def)
  have "ok (L \<union> {next_ptr W, Suc (next_ptr W)}) ?W Os"
    by (rule ok_frame [OF ok, of "{next_ptr W, Suc (next_ptr W)}"]) (use L new in \<open>auto simp: evolves_def in_use_def address_ok_def\<close>)
  moreover have "open_session (Some c) W = Ret (next_ptr W, Suc (next_ptr W), ?W)" using c by (simp add: open_session_def Let_def)
  moreover have "next_ptr W \<notin> L" "Suc (next_ptr W) \<notin> L" using L by auto
  ultimately show thesis using that [of "next_ptr W" "Suc (next_ptr W)" ?W] by simp
qed

lemma ok_request:
  assumes ok: "ok L W Os" and p: "p \<in> cass_sessions W"
  obtains f W' where "session_future (Some p) W = Ret (f, W')" "ok (insert f L) W' Os" "cass_futures W' f = Some Pending" "f \<notin> L"
    "persistent_list W' = persistent_list W" "f < next_ptr W'"
proof -
  let ?W = "W\<lparr>next_ptr := Suc (next_ptr W), cass_futures := (cass_futures W)(next_ptr W \<mapsto> Pending)\<rparr>"
  have L: "L \<subseteq> {..<next_ptr W}" using ok_below [OF ok, of Loose] by simp
  have new: "next_ptr W \<notin> in_use W" "address_ok W (next_ptr W)" using ok_in_use_below [OF ok] ok by (fastforce, simp add: ok_def)
  have "ok (insert (next_ptr W) L) ?W Os"
    by (rule ok_frame [OF ok, of "{next_ptr W}"]) (use L new in \<open>auto simp: evolves_def in_use_def address_ok_def\<close>)
  moreover have "session_future (Some p) W = Ret (next_ptr W, ?W)" using p by (simp add: session_future_def Let_def)
  moreover have "next_ptr W \<notin> L" using L by auto
  ultimately show thesis using that [of "next_ptr W" ?W] by simp
qed

lemma ok_future_free:
  assumes ok: "ok L W Os" and f: "f \<in> L" "cass_futures W f \<noteq> None"
  shows "\<exists>W'. cass_future_free f W = Ret W' \<and> ok (L - {f}) W' Os \<and> persistent_list W' = persistent_list W \<and>
    cass_sessions W' = cass_sessions W \<and> cass_clusters W' = cass_clusters W"
proof -
  let ?W = "W\<lparr>cass_futures := (cass_futures W)(f := None)\<rparr>"
  have L: "L \<subseteq> {..<next_ptr W}" using ok_below [OF ok, of Loose] by simp
  have "ok (L - {f}) ?W Os"
    by (rule ok_frame [OF ok, of "{f}"]) (use L f ok_kinds [OF ok f(2)] ok in \<open>auto simp: evolves_def in_use_def address_ok_def ok_def\<close>)
  then show ?thesis using f by (simp add: cass_future_free_def)
qed

lemma ok_session_free:
  assumes ok: "ok L W Os" and p: "p \<in> L" "p \<in> cass_sessions W"
  shows "\<exists>W'. cass_session_free p W = Ret W' \<and> ok (L - {p}) W' Os \<and> persistent_list W' = persistent_list W"
proof -
  let ?W = "W\<lparr>cass_sessions := cass_sessions W - {p}\<rparr>"
  have L: "L \<subseteq> {..<next_ptr W}" using ok_below [OF ok, of Loose] by simp
  have "ok (L - {p}) ?W Os"
    by (rule ok_frame [OF ok, of "{p}"]) (use L p ok_kinds [OF ok] ok in \<open>auto simp: evolves_def in_use_def address_ok_def ok_def\<close>)
  then show ?thesis using p by (simp add: cass_session_free_def)
qed

text \<open>A loose set may shrink to what is in use.\<close>

lemma ok_shrink: "ok L W Os \<Longrightarrow> L' \<subseteq> L \<Longrightarrow> in_use W \<inter> L \<subseteq> L' \<Longrightarrow> ok L' W Os"
  using ok_below [of L W Os Loose] by (intro ok_frame [of L W Os "{}" W L']) (auto simp: evolves_def)

lemma ok_process: "ok L W Os \<Longrightarrow> process_ok W"
  by (simp add: ok_def)

lemma ok_family: "ok L W Os \<Longrightarrow> family_ok (next_ptr W) (in_use W) (claim L W Os)"
  by (simp add: ok_def)

lemma ok_object: "ok L W Os \<Longrightarrow> Os h = Some x \<Longrightarrow> object_ok W x"
  by (auto simp: ok_def ran_def)

text \<open>A new entry takes loose addresses.\<close>

lemma ok_put:
  assumes ok: "ok L W Os" and k: "persistent_list W k = None" and r: "alive W r" "own W r \<subseteq> L"
  shows "\<exists>W'. bind_outcome (plist_update k r W) (\<lambda>W. Ret (use_entry (kind_of r) 1 W)) = Ret W' \<and> ok (L - own W r) W' Os \<and>
    persistent_list W' = (persistent_list W)(k \<mapsto> r) \<and> psessions W' = psessions W \<and> cass_futures W' = cass_futures W"
proof -
  let ?W = "use_entry (kind_of r) 1 (W\<lparr>persistent_list := (persistent_list W)(k \<mapsto> r)\<rparr>)"
  have P: "process_ok ?W"
  proof (rule plist_put_ok [OF ok_process [OF ok] k r(1)])
    show "own W r \<subseteq> {..<next_ptr W}" using r(2) ok_below [OF ok, of Loose] by auto
    show "own W r' \<inter> own W r = {}" if "persistent_list W k' = Some r'" for k' r'
      using ok_disjoint [OF ok, of "Entry k'" Loose] that r(2) by auto
  qed
  have W': "persistent_list ?W = (persistent_list W)(k \<mapsto> r)" "next_ptr ?W = next_ptr W" "in_use ?W = in_use W"
    by (simp_all add: use_entry_def in_use_def)
  have own': "own ?W r' = own W r'" for r' by (simp add: list_only)
  have claims: "claim (L - own W r) ?W Os = (claim L W Os)(Loose := claim L W Os Loose - own W r, Entry k := own W r)"
  proof
    fix c show "claim (L - own W r) ?W Os c = ((claim L W Os)(Loose := claim L W Os Loose - own W r, Entry k := own W r)) c"
      by (cases c) (auto simp: W'(1) own' split: option.splits)
  qed
  have "object_ok ?W x" if x: "x \<in> ran Os" for x
  proof -
    have xW: "object_ok W x" using ok x by (simp add: ok_def)
    have key: "object_key x = Some k' \<Longrightarrow> k' \<noteq> k" for k'
      using xW k by (cases x) (auto simp: object_key_def object_ok_def borrowed_def split: if_splits)
    have "evolves {} W ?W" by (simp add: evolves_def use_entry_def)
    then show ?thesis by (rule object_ok_evolves [OF xW, where L = L and Os = Os]) (use key in \<open>simp_all add: W'(1)\<close>)
  qed
  moreover have "family_ok (next_ptr ?W) (in_use ?W) (claim (L - own W r) ?W Os)"
    unfolding claims W'(2,3) by (rule family_split [OF ok_family [OF ok]]) (simp_all add: r(2) k)
  moreover have "address_ok ?W p" for p using ok by (simp add: ok_def address_ok_def use_entry_def in_use_def)
  moreover have "held_ok Os" using ok by (simp add: ok_def)
  ultimately have "ok (L - own W r) ?W Os" using P by (simp add: ok_def)
  moreover have "bind_outcome (plist_update k r W) (\<lambda>W. Ret (use_entry (kind_of r) 1 W)) = Ret ?W"
    using k by (simp add: plist_update_def plist_del_def)
  ultimately show ?thesis by (simp add: use_entry_def)
qed

text \<open>An entry that no object borrows from can go; nothing it owned stays in use.\<close>

lemma destroyed:
  assumes ok: "ok L W Os" and r: "persistent_list W k = Some r" and d: "plist_del k W = Ret (b, W')"
  shows "p \<in> own W r \<Longrightarrow> p \<notin> in_use W'" and "p \<in> own W r \<Longrightarrow> address_ok W' p"
proof -
  have al: "alive W r" using ok_process [OF ok] r by (simp add: process_ok_def)
  have one: "address_ok W p" for p using ok by (simp add: ok_def)
  let ?V = "W\<lparr>persistent_list := (persistent_list W)(k := None)\<rparr>"
  have d: "plist_destroy r ?V = Ret W'" using d r by (cases "plist_destroy r ?V") (auto simp: plist_del_def)
  have "p \<in> own W r \<longrightarrow> p \<notin> in_use W' \<and> address_ok W' p"
  proof (cases r)
    case (R_Cluster c)
    then show ?thesis using al d one [of c]
      by (auto simp: alive_def own_def plist_destroy_def php_scylladb_cluster_dtor_def cass_cluster_free_def use_entry_def in_use_def address_ok_def)
  next
    case (R_Session q)
    then obtain s where s: "psessions W q = Some s" "ps_session s \<in> cass_sessions W" "cass_futures W (ps_future s) \<noteq> None"
      using al by (auto simp: alive_def)
    have W': "W' = use_entry PERSISTENT_SESSIONS (- 1) (?V\<lparr>cass_futures := (cass_futures W)(ps_future s := None),
        cass_sessions := cass_sessions W - {ps_session s}, psessions := (psessions W)(q := None)\<rparr>)"
      using d s R_Session by (simp add: plist_destroy_def php_scylladb_session_dtor_def cass_future_free_def cass_session_free_def)
    show ?thesis
      using s R_Session one [of q] one [of "ps_session s"] one [of "ps_future s"]
      by (auto simp: W' own_def use_entry_def in_use_def address_ok_def)
  next
    case (R_Statement q)
    then obtain f where f: "pprepared W q = Some f" "cass_futures W f \<noteq> None" using al by (auto simp: alive_def)
    have W': "W' = use_entry PERSISTENT_PREPARED_STATEMENTS (- 1) (?V\<lparr>cass_futures := (cass_futures W)(f := None), pprepared := (pprepared W)(q := None)\<rparr>)"
      using d f R_Statement by (simp add: plist_destroy_def php_scylladb_prepared_statement_dtor_def cass_future_free_def)
    show ?thesis using f R_Statement one [of q] one [of f] by (auto simp: W' own_def use_entry_def in_use_def address_ok_def)
  qed
  then show "p \<in> own W r \<Longrightarrow> p \<notin> in_use W'" "p \<in> own W r \<Longrightarrow> address_ok W' p" by auto
qed

lemma ok_del:
  assumes ok: "ok L W Os" and r: "persistent_list W k = Some r" and free: "\<And>x. x \<in> ran Os \<Longrightarrow> object_key x \<noteq> Some k"
  shows "\<exists>W'. plist_del k W = Ret (True, W') \<and> ok L W' Os \<and> persistent_list W' = (persistent_list W)(k := None) \<and> keeps (own W r) W W'"
proof -
  obtain W' where W': "plist_del k W = Ret (True, W')" "process_ok W'" "keeps (own W r) W W'" "next_ptr W' = next_ptr W"
      "persistent_list W' = (persistent_list W)(k := None)"
    using plist_del_ok [OF ok_process [OF ok] r] by blast
  note e = keeps_evolves [OF W'(3)]
  have away: "claim L W Os c \<inter> own W r = {}" if "c \<noteq> Entry k" for c using ok_disjoint [OF ok that] r by simp
  have other: "own W' r' = own W r'" if "persistent_list W k' = Some r'" "k' \<noteq> k" for k' r'
    using evolves_own [OF e] away [of "Entry k'"] that by auto
  have claims: "claim L W' Os = (claim L W Os)(Entry k := {})"
  proof
    fix c show "claim L W' Os c = ((claim L W Os)(Entry k := {})) c"
      using other by (cases c) (auto simp: W'(5) split: option.splits)
  qed
  have "object_ok W' x" if x: "x \<in> ran Os" for x
  proof -
    obtain h where h: "Os h = Some x" using x by (auto simp: ran_def)
    have "object_ok W x" using ok x by (simp add: ok_def)
    moreover have "object_own x \<inter> own W r = {}" using away [of "Object h"] h by simp
    moreover have "persistent_list W' k' = persistent_list W k' \<and> claim L W Os (Entry k') \<inter> own W r = {}" if "object_key x = Some k'" for k'
      using free [OF x] that away [of "Entry k'"] by (simp add: W'(5))
    ultimately show ?thesis using object_ok_evolves [OF _ e] by blast
  qed
  moreover have "family_ok (next_ptr W') (in_use W') (claim L W' Os)"
    unfolding claims W'(4)
  proof (rule family_drop [OF ok_family [OF ok]])
    show "p \<in> in_use W \<and> p \<notin> claim L W Os (Entry k)" if "p \<in> in_use W'" for p
    proof (cases "p \<in> own W r")
      case False
      then show ?thesis using that W'(3) r by (auto simp: keeps_def in_use_def)
    qed (use destroyed(1) [OF ok r W'(1)] that in blast)
  qed
  moreover have "address_ok W' p" for p
  proof (cases "p \<in> own W r")
    case False
    have "address_ok W p" using ok by (simp add: ok_def)
    then show ?thesis using False W'(3,4) by (simp add: address_ok_def keeps_def in_use_def dom_def)
  qed (rule destroyed(2) [OF ok r W'(1)])
  moreover have "held_ok Os" using ok by (simp add: ok_def)
  ultimately have "ok L W' Os" using W'(2) by (simp add: ok_def)
  then show ?thesis using W' by blast
qed

text \<open>Objects come and go.\<close>

lemma ok_attach:
  assumes ok: "ok L W Os" and h: "Os h = None" and x: "object_ok W x" "object_own x \<subseteq> L" "\<And>h'. holds x h' \<Longrightarrow> \<exists>s. Os h' = Some (O_Session s)"
  shows "ok (L - object_own x) W (Os(h \<mapsto> x))"
proof -
  have claims: "claim (L - object_own x) W (Os(h \<mapsto> x)) = (claim L W Os)(Loose := claim L W Os Loose - object_own x, Object h := object_own x)"
  proof
    fix c show "claim (L - object_own x) W (Os(h \<mapsto> x)) c = ((claim L W Os)(Loose := claim L W Os Loose - object_own x, Object h := object_own x)) c"
      by (cases c) (auto split: option.splits)
  qed
  have "family_ok (next_ptr W) (in_use W) (claim (L - object_own x) W (Os(h \<mapsto> x)))"
    unfolding claims by (rule family_split [OF ok_family [OF ok]]) (simp_all add: x(2) h)
  moreover have "held_ok (Os(h \<mapsto> x))"
    using ok x(3) h unfolding ok_def held_ok_def by (metis fun_upd_apply option.distinct(1) option.inject)
  moreover have "\<forall>y \<in> ran (Os(h \<mapsto> x)). object_ok W y" using ok x(1) h by (auto simp: ok_def ran_def)
  ultimately show ?thesis using ok by (simp add: ok_def)
qed

lemma ok_detach:
  assumes ok: "ok L W Os" and h: "Os h = Some x" and free: "\<And>h' y. Os h' = Some y \<Longrightarrow> \<not> holds y h"
  shows "ok (L \<union> object_own x) W (Os(h := None))"
proof -
  have claims: "claim (L \<union> object_own x) W (Os(h := None)) = (claim L W Os)(Loose := claim L W Os Loose \<union> claim L W Os (Object h), Object h := {})"
  proof
    fix c show "claim (L \<union> object_own x) W (Os(h := None)) c =
        ((claim L W Os)(Loose := claim L W Os Loose \<union> claim L W Os (Object h), Object h := {})) c"
      using h by (cases c) (auto split: option.splits)
  qed
  have "family_ok (next_ptr W) (in_use W) (claim (L \<union> object_own x) W (Os(h := None)))"
    unfolding claims by (rule family_merge [OF ok_family [OF ok]]) simp
  moreover have "held_ok (Os(h := None))" using ok free unfolding ok_def held_ok_def by (metis fun_upd_apply option.distinct(1))
  moreover have "\<forall>y \<in> ran (Os(h := None)). object_ok W y" using ok by (auto simp: ok_def ran_def split: if_splits)
  ultimately show ?thesis using ok by (simp add: ok_def)
qed

end
