(* ===== verification/SessionCalls.thy ===== *)
theory SessionCalls
  imports SessionOwnership
begin

text \<open>
  What every call on clusters, sessions and futures keeps of the ownership invariant: waiting, connecting in both
  ways, \<^verbatim>\<open>FutureSession::get\<close>, preparing, closing and the release of an object.
\<close>

section \<open>Calls keep ownership\<close>

text \<open>Waiting changes only the result of a future.\<close>

definition still :: "process \<Rightarrow> process \<Rightarrow> bool" where
  "still W W' \<longleftrightarrow>
     persistent_list W' = persistent_list W \<and> cass_clusters W' = cass_clusters W \<and> cass_sessions W' = cass_sessions W \<and>
     psessions W' = psessions W \<and> pprepared W' = pprepared W \<and> dom (cass_futures W') = dom (cass_futures W)"

lemma still_borrowed: "still W W' \<Longrightarrow> borrowed W' k p f = borrowed W k p f"
  by (simp add: still_def borrowed_def)

lemma still_refl [simp]: "still W W"
  by (simp add: still_def)

lemma still_resolve: "cass_futures W f = Some Pending \<Longrightarrow> still W (resolve f rc W)"
  by (auto simp: still_def resolve_def)

lemma wait_ok:
  assumes ok: "ok L W Os" and f: "cass_futures W f \<noteq> None" and t: "timeout_micros t \<noteq> UB"
  obtains r W' where "php_scylladb_future_wait_timed (Some f) t ans W = (r, W')" "r \<noteq> UB" "ok L W' Os" "still W W'"
    "\<And>x. r = Ret x \<Longrightarrow> \<exists>rc. cass_futures W' f = Some (Resolved rc)" "\<And>e. r = Throw e \<Longrightarrow> cass_futures W' f = Some Pending"
proof (cases "cass_futures W f = Some Pending")
  case False
  then have "\<exists>rc. cass_futures W f = Some (Resolved rc)" using f by (metis future_state.exhaust not_Some_eq)
  then show thesis using that [of "Ret ()" W] ok by (auto simp: php_scylladb_future_wait_timed_def)
next
  case True
  let ?W = "resolve f (fst ans) W"
  have res: "ok L ?W Os" "still W ?W" "cass_futures ?W f = Some (Resolved (fst ans))"
    using ok_resolve [OF ok True] still_resolve [OF True] by (simp_all add: resolve_def)
  consider (wait) "timeout_micros t = Ret None" | (time) us where "timeout_micros t = Ret (Some us)" | (bad) e where "timeout_micros t = Throw e"
    using t by (cases "timeout_micros t") auto
  then show thesis
  proof cases
    case wait
    then show thesis using that [of "Ret ()" ?W] True res by (simp add: php_scylladb_future_wait_timed_def)
  next
    case time
    then show thesis
      using that [of "Ret ()" ?W] that [of "Throw (Exn TimeoutException ''Future hasn't resolved'')" W] True res ok
      by (cases "int (snd ans) \<le> us") (simp_all add: php_scylladb_future_wait_timed_def)
  next
    case bad
    then show thesis using that [of "Throw e" W] True ok by (simp add: php_scylladb_future_wait_timed_def)
  qed
qed

lemma is_error_resolved:
  "cass_futures W f = Some (Resolved rc) \<Longrightarrow>
    php_scylladb_future_is_error (Some f) ans W = (case rc_error rc of None \<Rightarrow> Ret () | Some e \<Rightarrow> Throw e, W)"
  by (simp add: php_scylladb_future_is_error_def cass_future_error_code_def split: option.split)

lemma rc_error_None [simp]: "rc_error rc = None \<longleftrightarrow> rc = CASS_OK" "rc_error CASS_OK = None"
  by (cases rc; simp add: rc_error_def)+

lemma await_ok:
  assumes ok: "ok L W Os" and f: "cass_futures W f \<noteq> None" and t: "timeout_micros t \<noteq> UB"
  obtains r W' where "await (Some f) t ans W = (r, W')" "r \<noteq> UB" "ok L W' Os" "still W W'"
    "\<And>x. r = Ret x \<Longrightarrow> cass_futures W' f = Some (Resolved CASS_OK)" "\<And>e. r = Throw e \<Longrightarrow> cass_futures W' f \<noteq> Some (Resolved CASS_OK)"
proof -
  obtain r W' where W': "php_scylladb_future_wait_timed (Some f) t ans W = (r, W')" "r \<noteq> UB" "ok L W' Os" "still W W'"
    "\<And>x. r = Ret x \<Longrightarrow> \<exists>rc. cass_futures W' f = Some (Resolved rc)" "\<And>e. r = Throw e \<Longrightarrow> cass_futures W' f = Some Pending"
    by (rule wait_ok [OF ok f t]) blast
  show thesis
  proof (cases r)
    case (Ret x)
    then obtain rc where rc: "cass_futures W' f = Some (Resolved rc)" using W'(5) by blast
    show thesis
    proof (rule that [of "case rc_error rc of None \<Rightarrow> Ret () | Some e \<Rightarrow> Throw e" W'])
      show "await (Some f) t ans W = (case rc_error rc of None \<Rightarrow> Ret () | Some e \<Rightarrow> Throw e, W')"
        using W'(1) Ret by (simp add: await_def is_error_resolved [OF rc])
    qed (use W'(3,4) rc rc_error_None in \<open>auto split: option.splits\<close>)
  next
    case (Throw e)
    then show thesis using that [of r W'] W' by (simp add: await_def)
  qed (use W'(2) in simp)
qed

text \<open>What a call leaves: an exception and nothing loose, or an object and what it owns.\<close>

definition fine :: "(nat \<rightharpoonup> php_object) \<Rightarrow> ('a \<Rightarrow> php_object) \<Rightarrow> 'a outcome \<times> process \<Rightarrow> bool" where
  "fine Os wrap r \<longleftrightarrow>
     (case r of (Ret x, W) \<Rightarrow> ok (object_own (wrap x)) W Os \<and> object_ok W (wrap x) | (Throw _, W) \<Rightarrow> ok {} W Os | (UB, _) \<Rightarrow> False)"

lemma fine_simps [simp]:
  "fine Os wrap (Ret x, W) \<longleftrightarrow> ok (object_own (wrap x)) W Os \<and> object_ok W (wrap x)" "fine Os wrap (Throw e, W) \<longleftrightarrow> ok {} W Os" "\<not> fine Os wrap (UB, W)"
  by (simp_all add: fine_def)

text \<open>Futures of the script that read the entry of a key.\<close>

definition shared :: "(nat \<rightharpoonup> php_object) \<Rightarrow> 64 word \<Rightarrow> bool" where
  "shared Os k \<longleftrightarrow> (\<exists>fs. O_FutureSession fs \<in> ran Os \<and> object_key (O_FutureSession fs) = Some k)"

lemma borrowed_unique: "borrowed W k p f \<Longrightarrow> borrowed W k p' f' \<Longrightarrow> p' = p \<and> f' = f"
  by (auto simp: borrowed_def)

lemma unborrowed:
  assumes ok: "ok L W Os" and b: "borrowed W k p f" and f: "cass_futures W f \<noteq> Some (Resolved CASS_OK)" and s: "\<not> shared Os k" and x: "x \<in> ran Os"
  shows "object_key x \<noteq> Some k"
proof
  assume k: "object_key x = Some k"
  have x': "object_ok W x" using ok x by (simp add: ok_def)
  show False
  proof (cases x)
    case (O_Cluster c)
    then show False using k x' b by (auto simp: object_key_def object_ok_def borrowed_def split: if_splits)
  next
    case (O_Session s)
    then obtain p' f' where "borrowed W k p' f'" "cass_futures W f' = Some (Resolved CASS_OK)"
      using k x' by (auto simp: object_key_def object_ok_def split: if_splits)
    then show False using borrowed_unique [OF b] f by blast
  next
    case (O_FutureSession fs)
    then show False using s x k by (auto simp: shared_def)
  qed (use k in \<open>simp_all add: object_key_def\<close>)
qed

lemma borrowed_future: "ok L W Os \<Longrightarrow> borrowed W k p f \<Longrightarrow> cass_futures W f \<noteq> None \<and> p \<in> cass_sessions W"
  using ok_process [of L W Os] by (fastforce simp: borrowed_def process_ok_def alive_def)

lemma discard_persistent [simp]: "s_persist s \<Longrightarrow> discard s e W = (Throw e, W)"
  by (cases "s_session s") (simp_all add: discard_def php_scylladb_default_session_free_def)

lemma discard_throws: "fst (with_process R V (discard s e)) \<noteq> Ret x"
proof -
  have "fst (discard s e W) \<noteq> Ret x" for W by (cases "php_scylladb_default_session_free s W") (simp_all add: discard_def)
  then show ?thesis by (cases R) simp_all
qed

lemma del_borrowed:
  assumes ok: "ok L W Os" and b: "borrowed W k p f" and f: "cass_futures W f \<noteq> Some (Resolved CASS_OK)" and s: "\<not> shared Os k"
  obtains W' where "plist_del k W = Ret (True, W')" "ok L W' Os"
proof -
  obtain q where "persistent_list W k = Some (R_Session q)" using b by (auto simp: borrowed_def)
  then show thesis using ok_del [OF ok _ unborrowed [OF ok b f s]] that by blast
qed

lemma connect_wait_persistent:
  assumes ok: "ok {} W Os" and b: "borrowed W (s_cache_key s) p f" and s: "s_persist s" "s_session s = Some p" and t: "timeout_micros t \<noteq> UB"
    and sh: "\<not> shared Os (s_cache_key s) \<or> (\<exists>x. fst (connect_wait s f t ans W) = Ret x)"
  shows "fine Os O_Session (connect_wait s f t ans W)"
proof -
  have f: "cass_futures W f \<noteq> None" using borrowed_future [OF ok b] by blast
  obtain r W' where W': "await (Some f) t ans W = (r, W')" "r \<noteq> UB" "ok {} W' Os" "still W W'"
    "\<And>x. r = Ret x \<Longrightarrow> cass_futures W' f = Some (Resolved CASS_OK)" "\<And>e. r = Throw e \<Longrightarrow> cass_futures W' f \<noteq> Some (Resolved CASS_OK)"
    by (rule await_ok [OF ok f t]) blast
  have b': "borrowed W' (s_cache_key s) p f" using b still_borrowed [OF W'(4)] by blast
  show ?thesis
  proof (cases r)
    case (Ret x)
    then have "connect_wait s f t ans W = (Ret s, W')" using W'(1) s by (simp add: connect_wait_def)
    then show ?thesis using W'(3) W'(5) [OF Ret] b' s by (auto simp: object_own_def object_ok_def)
  next
    case (Throw e)
    have eq: "connect_wait s f t ans W = with_process (bind_outcome (plist_del (s_cache_key s) W') (\<lambda>(_, W). Ret W)) W' (discard s e)"
      using W'(1) Throw s by (simp add: connect_wait_def)
    have "\<not> shared Os (s_cache_key s)" using sh eq discard_throws by metis
    then obtain W'' where "plist_del (s_cache_key s) W' = Ret (True, W'')" "ok {} W'' Os" using del_borrowed [OF W'(3) b' W'(6) [OF Throw]] by blast
    then show ?thesis using eq s by simp
  qed (use W'(2) in simp)
qed

lemma discard_private:
  assumes ok: "ok {p} W Os" and p: "p \<in> cass_sessions W" and s: "s_session s = Some p" "\<not> s_persist s"
  shows "\<exists>W'. discard s e W = (Throw e, W') \<and> ok {} W' Os"
  using ok_session_free [OF ok _ p] s by (auto simp: discard_def php_scylladb_default_session_free_def)

lemma connect_wait_private:
  assumes ok: "ok {p, f} W Os" and p: "p \<in> cass_sessions W" "cass_futures W f \<noteq> None" and s: "\<not> s_persist s" "s_session s = Some p"
    and t: "timeout_micros t \<noteq> UB"
  shows "fine Os O_Session (connect_wait s f t ans W)"
proof -
  obtain r W' where W': "await (Some f) t ans W = (r, W')" "r \<noteq> UB" "ok {p, f} W' Os" "still W W'"
    by (rule await_ok [OF ok p(2) t]) blast
  have f: "cass_futures W' f \<noteq> None" and p': "p \<in> cass_sessions W'" using W'(4) p by (auto simp: still_def)
  then have "p \<noteq> f" using ok_kinds [OF W'(3)] by blast
  obtain W'' where W'': "cass_future_free f W' = Ret W''" "ok {p} W'' Os" "cass_sessions W'' = cass_sessions W'"
  proof -
    have "{p, f} - {f} = {p}" using \<open>p \<noteq> f\<close> by auto
    then show ?thesis using ok_future_free [OF W'(3) _ f] that by auto
  qed
  show ?thesis
  proof (cases r)
    case (Ret x)
    then have "connect_wait s f t ans W = (Ret s, W'')" using W'(1) W''(1) s by (simp add: connect_wait_def)
    then show ?thesis using W''(2,3) p' s by (simp add: object_own_def object_ok_def)
  next
    case (Throw e)
    then have "connect_wait s f t ans W = discard s e W''" using W'(1) W''(1) s by (simp add: connect_wait_def)
    moreover obtain W3 where "(discard s e W'' :: session outcome \<times> process) = (Throw e, W3)" "ok {} W3 Os"
      using discard_private [OF W''(2) _ s(2,1), of e] p' W''(3) by blast
    ultimately show ?thesis by simp
  qed (use W'(2) in simp)
qed

lemma ok_keep:
  assumes ok: "ok {p, f} W Os" and p: "p \<in> cass_sessions W" "cass_futures W f \<noteq> None" and k: "persistent_list W k = None"
  obtains W' where "keep_session k p f W = Ret W'" "ok {} W' Os" "borrowed W' k p f" "cass_futures W' = cass_futures W"
proof -
  let ?q = "next_ptr W"
  let ?W = "W\<lparr>next_ptr := Suc ?q, psessions := (psessions W)(?q \<mapsto> \<lparr>ps_session = p, ps_future = f\<rparr>)\<rparr>"
  have new: "?q \<notin> in_use W" "address_ok W ?q" using ok_in_use_below [OF ok] ok by (fastforce, simp add: ok_def)
  have L: "{p, f} \<subseteq> {..<next_ptr W}" using ok_below [OF ok, of Loose] by simp
  have ok': "ok {?q, p, f} ?W Os"
    by (rule ok_frame [OF ok, of "{?q}"]) (use L new in \<open>auto simp: evolves_def in_use_def address_ok_def\<close>)
  have own: "own ?W (R_Session ?q) = {?q, p, f}" "alive ?W (R_Session ?q)" using p by (auto simp: own_def alive_def)
  obtain W' where W': "bind_outcome (plist_update k (R_Session ?q) ?W) (\<lambda>W. Ret (use_entry (kind_of (R_Session ?q)) 1 W)) = Ret W'"
      "ok ({?q, p, f} - own ?W (R_Session ?q)) W' Os" "persistent_list W' = (persistent_list ?W)(k \<mapsto> R_Session ?q)" "psessions W' = psessions ?W"
      "cass_futures W' = cass_futures ?W"
    using ok_put [OF ok' _ own(2), of k] k own(1) by auto
  have "keep_session k p f W = Ret W'" using W'(1) by (simp add: keep_session_def Let_def kind_of_def)
  moreover have "ok {} W' Os" using W'(2) own(1) by simp
  ultimately show thesis using that W'(3-5) by (simp add: borrowed_def)
qed

text \<open>A cluster object has a cluster.\<close>

lemma cluster_exists:
  assumes "ok L W Os" "object_ok W (O_Cluster c)"
  obtains p where "cl_cluster c = Some p" "cass_clusters W p \<noteq> None"
  using assms ok_process [OF assms(1)] by (fastforce simp: object_ok_def process_ok_def alive_def split: if_splits)

lemma connect_new_fine:
  assumes ok: "ok {} W Os" and c: "cl_cluster c = Some a" "cass_clusters W a \<noteq> None" and t: "timeout_micros t \<noteq> UB"
    and k: "s_persist s \<Longrightarrow> persistent_list W (s_cache_key s) = None"
    and sh: "\<not> shared Os (s_cache_key s) \<or> (\<exists>x. fst (connect_new (cl_cluster c) s t ans W) = Ret x)"
  shows "fine Os O_Session (connect_new (cl_cluster c) s t ans W)"
proof -
  obtain p f V where V: "open_session (Some a) W = Ret (p, f, V)" "ok ({} \<union> {p, f}) V Os" "p \<in> cass_sessions V" "cass_futures V f = Some Pending"
      "persistent_list V = persistent_list W"
    by (rule ok_open [OF ok c(2)]) blast
  have okV: "ok {p, f} V Os" using V(2) by simp
  let ?s = "s\<lparr>s_session := Some p\<rparr>"
  show ?thesis
  proof (cases "s_persist s")
    case True
    obtain W' where W': "keep_session (s_cache_key s) p f V = Ret W'" "ok {} W' Os" "borrowed W' (s_cache_key s) p f"
      using ok_keep [OF okV V(3)] V(4,5) k [OF True] by auto
    have eq: "connect_new (cl_cluster c) s t ans W = connect_wait ?s f t ans W'"
      using V(1) W'(1) True c(1) by (simp add: connect_new_def Let_def)
    show ?thesis unfolding eq by (rule connect_wait_persistent [OF W'(2), where p = p]) (use W'(3) True t sh eq in auto)
  next
    case False
    then have "connect_new (cl_cluster c) s t ans W = connect_wait ?s f t ans V" using V(1) c(1) by (simp add: connect_new_def Let_def)
    then show ?thesis using connect_wait_private [OF okV V(3) _ _ _ t, of ?s ans] V(4) False by simp
  qed
qed

text \<open>Fingerprints of different kinds of resources do not meet.\<close>

definition no_clash :: "persistent_kind \<Rightarrow> process \<Rightarrow> 64 word \<Rightarrow> bool" where
  "no_clash kind W k \<longleftrightarrow> (\<forall>r. persistent_list W k = Some r \<longrightarrow> kind_of r = kind)"

lemma find_session_cases:
  assumes ok: "ok L W Os" and n: "no_clash PERSISTENT_SESSIONS W k"
  obtains p f where "find_session k W = Ret (Some \<lparr>ps_session = p, ps_future = f\<rparr>)" "borrowed W k p f"
  | "find_session k W = Ret None" "persistent_list W k = None"
proof (cases "persistent_list W k")
  case (Some r)
  then obtain q where q: "r = R_Session q" using n by (cases r) (auto simp: no_clash_def kind_of_def)
  then obtain ps where "psessions W q = Some ps" using Some ok_process [OF ok] by (fastforce simp: process_ok_def alive_def)
  then show thesis using that(1) [of "ps_session ps" "ps_future ps"] Some q by (cases ps) (simp add: find_session_def borrowed_def)
qed (use that(2) in \<open>simp add: find_session_def\<close>)

lemma can_cache_list [simp]:
  "persistent_list (snd (php_scylladb_persistent_can_cache kind W)) = persistent_list W"
  "cass_clusters (snd (php_scylladb_persistent_can_cache kind W)) = cass_clusters W"
  "cass_sessions (snd (php_scylladb_persistent_can_cache kind W)) = cass_sessions W"
  by (simp_all add: php_scylladb_persistent_can_cache_def Let_def)

lemma connect_fine:
  assumes ok: "ok {} W Os" and c: "object_ok W (O_Cluster c)" and t: "timeout_micros t \<noteq> UB"
    and n: "no_clash PERSISTENT_SESSIONS W (s_cache_key (session_of_cluster c ks))"
    and sh: "\<not> shared Os (s_cache_key (session_of_cluster c ks)) \<or> (\<exists>x. fst (connect c ks t ans W) = Ret x)"
  shows "fine Os O_Session (connect c ks t ans W)"
proof -
  obtain a where a: "cl_cluster c = Some a" "cass_clusters W a \<noteq> None" using cluster_exists [OF ok c] by blast
  define s where "s = session_of_cluster c ks"
  show ?thesis
  proof (cases "s_persist s")
    case True
    show ?thesis
    proof (rule find_session_cases [OF ok n [folded s_def]])
      fix p f assume f: "find_session (s_cache_key s) W = Ret (Some \<lparr>ps_session = p, ps_future = f\<rparr>)" "borrowed W (s_cache_key s) p f"
      then have eq: "connect c ks t ans W = connect_wait (s\<lparr>s_session := Some p\<rparr>) f t ans W" using True by (simp add: connect_def s_def Let_def)
      show ?thesis unfolding eq
        by (rule connect_wait_persistent [OF ok, where p = p]) (use f(2) True t sh eq in \<open>auto simp: s_def\<close>)
    next
      assume f: "find_session (s_cache_key s) W = Ret None" "persistent_list W (s_cache_key s) = None"
      let ?r = "php_scylladb_persistent_can_cache PERSISTENT_SESSIONS W"
      have eq: "connect c ks t ans W = connect_new (cl_cluster c) (s\<lparr>s_persist := fst ?r\<rparr>) t ans (snd ?r)"
        using True f(1) by (simp add: connect_def s_def Let_def split_beta)
      show ?thesis unfolding eq
        by (rule connect_new_fine [OF ok_can_cache [OF ok] a(1)]) (use a(2) t f(2) sh eq in \<open>auto simp: s_def\<close>)
    qed
  next
    case False
    then have eq: "connect c ks t ans W = connect_new (cl_cluster c) s t ans W" by (simp add: connect_def s_def Let_def)
    show ?thesis unfolding eq by (rule connect_new_fine [OF ok a t]) (use False sh eq in \<open>auto simp: s_def\<close>)
  qed
qed

lemma connectAsync_new_fine:
  assumes ok: "ok {} W Os" and c: "cl_cluster c = Some a" "cass_clusters W a \<noteq> None"
    and k: "fs_persist fs \<Longrightarrow> persistent_list W (fs_cache_key fs) = None"
  shows "fine Os O_FutureSession (connectAsync_new (cl_cluster c) fs W)"
proof -
  obtain p f V where V: "open_session (Some a) W = Ret (p, f, V)" "ok ({} \<union> {p, f}) V Os" "p \<in> cass_sessions V" "cass_futures V f = Some Pending"
      "persistent_list V = persistent_list W"
    by (rule ok_open [OF ok c(2)]) blast
  have okV: "ok {p, f} V Os" using V(2) by simp
  show ?thesis
  proof (cases "fs_persist fs")
    case True
    obtain W' where W': "keep_session (fs_cache_key fs) p f V = Ret W'" "ok {} W' Os" "borrowed W' (fs_cache_key fs) p f"
      using ok_keep [OF okV V(3)] V(4,5) k [OF True] by auto
    have "connectAsync_new (cl_cluster c) fs W = (Ret (fs\<lparr>fs_session := Some p, fs_future := Some f\<rparr>), W')"
      using V(1) W'(1) True c(1) by (simp add: connectAsync_new_def Let_def)
    then show ?thesis using W'(2,3) True by (simp add: object_own_def object_ok_def)
  next
    case False
    then have "connectAsync_new (cl_cluster c) fs W = (Ret (fs\<lparr>fs_session := Some p, fs_future := Some f\<rparr>), V)"
      using V(1) c(1) by (simp add: connectAsync_new_def Let_def)
    then show ?thesis using okV V(3,4) False by (simp add: object_own_def object_ok_def insert_commute)
  qed
qed

lemma connectAsync_fine:
  assumes ok: "ok {} W Os" and c: "object_ok W (O_Cluster c)" and n: "no_clash PERSISTENT_SESSIONS W (fs_cache_key (future_of_cluster c ks))"
  shows "fine Os O_FutureSession (connectAsync c ks W)"
proof -
  obtain a where a: "cl_cluster c = Some a" "cass_clusters W a \<noteq> None" using cluster_exists [OF ok c] by blast
  define fs where "fs = future_of_cluster c ks"
  have fs: "fs_persist fs = cl_persist c" by (simp add: fs_def future_of_cluster_def)
  show ?thesis
  proof (cases "cl_persist c")
    case True
    show ?thesis
    proof (rule find_session_cases [OF ok n [folded fs_def]])
      fix p f assume f: "find_session (fs_cache_key fs) W = Ret (Some \<lparr>ps_session = p, ps_future = f\<rparr>)" "borrowed W (fs_cache_key fs) p f"
      then have "connectAsync c ks W = (Ret (fs\<lparr>fs_session := Some p, fs_future := Some f\<rparr>), W)"
        using True by (simp add: connectAsync_def fs_def Let_def)
      then show ?thesis using ok f(2) True fs by (simp add: object_own_def object_ok_def)
    next
      assume f: "find_session (fs_cache_key fs) W = Ret None" "persistent_list W (fs_cache_key fs) = None"
      let ?r = "php_scylladb_persistent_can_cache PERSISTENT_SESSIONS W"
      have eq: "connectAsync c ks W = connectAsync_new (cl_cluster c) (fs\<lparr>fs_persist := fst ?r\<rparr>) (snd ?r)"
        using True f(1) by (simp add: connectAsync_def fs_def Let_def split_beta)
      show ?thesis unfolding eq by (rule connectAsync_new_fine [OF ok_can_cache [OF ok] a(1)]) (use a(2) f(2) in auto)
    qed
  next
    case False
    then have eq: "connectAsync c ks W = connectAsync_new (cl_cluster c) fs W" by (simp add: connectAsync_def fs_def Let_def)
    show ?thesis unfolding eq by (rule connectAsync_new_fine [OF ok a]) (use False fs in auto)
  qed
qed

text \<open>
  \<^verbatim>\<open>get\<close> on an object that is set aside: its addresses are loose during the call. It leaves the object, and
  what the new session owns.
\<close>

definition got_fine :: "(nat \<rightharpoonup> php_object) \<Rightarrow> got outcome \<times> future_session \<times> process \<Rightarrow> bool" where
  "got_fine Os r \<longleftrightarrow>
     (case r of
        (UB, _) \<Rightarrow> False
      | (g, fs, W) \<Rightarrow>
          object_ok W (O_FutureSession fs) \<and>
          (case g of
             Ret (New s) \<Rightarrow>
               ok (object_own (O_FutureSession fs) \<union> object_own (O_Session s)) W Os \<and> object_ok W (O_Session s) \<and>
               object_own (O_FutureSession fs) \<inter> object_own (O_Session s) = {} \<and> fs_default_session fs = None
           | _ \<Rightarrow> ok (object_own (O_FutureSession fs)) W Os))"

lemma got_fine_simps [simp]:
  "got_fine Os (Ret (New s), fs, W) \<longleftrightarrow> object_ok W (O_FutureSession fs) \<and>
     ok (object_own (O_FutureSession fs) \<union> object_own (O_Session s)) W Os \<and> object_ok W (O_Session s) \<and>
     object_own (O_FutureSession fs) \<inter> object_own (O_Session s) = {} \<and> fs_default_session fs = None"
  "got_fine Os (Ret (Existing h), fs, W) \<longleftrightarrow> object_ok W (O_FutureSession fs) \<and> ok (object_own (O_FutureSession fs)) W Os"
  "got_fine Os (Throw e, fs, W) \<longleftrightarrow> object_ok W (O_FutureSession fs) \<and> ok (object_own (O_FutureSession fs)) W Os"
  "\<not> got_fine Os (UB, fs, W)"
  by (simp_all add: got_fine_def)

lemma get_failed_persistent:
  assumes ok: "ok {} W Os" and fs: "fs_persist fs" and s: "s_persist s" and b: "borrowed W (fs_cache_key fs) p f"
    and fs': "fs_future fs = Some f" "fs_session fs = Some p" and f: "cass_futures W f \<noteq> Some (Resolved CASS_OK)" and sh: "\<not> shared Os (fs_cache_key fs)"
  shows "got_fine Os (get_failed fs s del e W)"
proof (cases del)
  case True
  obtain W' where "plist_del (fs_cache_key fs) W = Ret (True, W')" "ok {} W' Os" using del_borrowed [OF ok b f sh] by blast
  then have "get_failed fs s del e W = (Throw e, fs\<lparr>fs_future := None\<rparr>, W')" using True s by (simp add: get_failed_def drop_entry_def)
  then show ?thesis using \<open>ok {} W' Os\<close> fs by (simp add: object_own_def object_ok_def)
next
  case False
  then have "get_failed fs s del e W = (Throw e, fs, W)" using s by (simp add: get_failed_def)
  then show ?thesis using ok fs fs' b by (simp add: object_own_def object_ok_def)
qed

lemma get_failed_private:
  assumes ok: "ok {p, f} W Os" and p: "p \<in> cass_sessions W" "cass_futures W f \<noteq> None" and fs: "\<not> fs_persist fs" "fs_session fs = None" "fs_future fs = Some f"
    and s: "\<not> s_persist s" "s_session s = Some p"
  shows "got_fine Os (get_failed fs s False e W)"
proof -
  have "p \<noteq> f" using ok_kinds [OF ok p(2)] p(1) by blast
  obtain W' where W': "cass_session_free p W = Ret W'" "ok ({p, f} - {p}) W' Os" using ok_session_free [OF ok _ p(1)] by auto
  then have "get_failed fs s False e W = (Throw e, fs, W')" using s by (simp add: get_failed_def discard_def php_scylladb_default_session_free_def)
  moreover have "{p, f} - {p} = {f}" using \<open>p \<noteq> f\<close> by auto
  moreover have "cass_futures W' = cass_futures W" using W'(1) by (auto simp: cass_session_free_def split: if_splits)
  ultimately show ?thesis using W'(2) p(2) fs by (simp add: object_own_def object_ok_def)
qed

lemma get_persistent:
  assumes ok: "ok {} W Os" and x: "object_ok W (O_FutureSession fs)" and fs: "fs_persist fs" "fs_exception fs = None" "fs_default_session fs = None"
    and t: "timeout_micros t \<noteq> UB" and sh: "\<not> shared Os (fs_cache_key fs) \<or> (\<exists>g. fst (future_session_get fs t ans W) = Ret g)"
    and some: "fs_session fs = Some p" "fs_future fs = Some f"
  shows "got_fine Os (future_session_get fs t ans W)"
proof -
  have b: "borrowed W (fs_cache_key fs) p f" using x fs some by (auto simp: object_ok_def)
  have f: "cass_futures W f \<noteq> None" using borrowed_future [OF ok b] by blast
  define s where "s = session_of_future fs"
  have s: "s_persist s" "s_session s = Some p" "s_cache_key s = fs_cache_key fs" using fs some by (simp_all add: s_def session_of_future_def)
  obtain r W' where W': "php_scylladb_future_wait_timed (Some f) t ans W = (r, W')" "r \<noteq> UB" "ok {} W' Os" "still W W'"
    "\<And>x. r = Ret x \<Longrightarrow> \<exists>rc. cass_futures W' f = Some (Resolved rc)" "\<And>e. r = Throw e \<Longrightarrow> cass_futures W' f = Some Pending"
    by (rule wait_ok [OF ok f t]) blast
  have b': "borrowed W' (fs_cache_key fs) p f" using b still_borrowed [OF W'(4)] by blast
  have failed: "got_fine Os (get_failed fs' s del e W')"
    if eq: "future_session_get fs t ans W = get_failed fs' s del e W'" and bad: "cass_futures W' f \<noteq> Some (Resolved CASS_OK)"
      and fs': "fs' = fs\<lparr>fs_exception := fs_exception fs'\<rparr>" for fs' del e
  proof -
    have "fst (get_failed fs' s del e W') \<noteq> Ret g" for g
      using s(1) by (cases "if del then drop_entry fs' W' else Ret (fs', W')") (auto simp: get_failed_def)
    then have "\<not> shared Os (fs_cache_key fs)" using sh eq by simp
    moreover have k: "fs_cache_key fs' = fs_cache_key fs" "fs_persist fs'" "fs_future fs' = Some f" "fs_session fs' = Some p"
      using fs some by (subst fs'; simp)+
    ultimately show ?thesis by (intro get_failed_persistent [OF W'(3) _ s(1)]) (use b' bad in simp_all)
  qed
  show ?thesis
  proof (cases r)
    case (Throw e)
    have eq: "future_session_get fs t ans W = get_failed fs s (fs_persist fs \<and> fs_cache_key fs \<noteq> 0) e W'"
      using W'(1) Throw fs some by (simp add: future_session_get_def Let_def s_def)
    show ?thesis unfolding eq by (rule failed [OF eq]) (use W'(6) [OF Throw] in simp_all)
  next
    case (Ret x)
    then obtain rc where rc: "cass_futures W' f = Some (Resolved rc)" using W'(5) by blast
    show ?thesis
    proof (cases "rc = CASS_OK")
      case True
      then have "future_session_get fs t ans W = (Ret (New s), fs, W')"
        using W'(1) Ret fs some rc by (simp add: future_session_get_def Let_def s_def is_error_resolved [OF rc])
      then show ?thesis using W'(3) b' s fs some rc True by (auto simp: object_own_def object_ok_def)
    next
      case False
      then obtain e where e: "rc_error rc = Some e" by (metis not_None_eq rc_error_None(1))
      have eq: "future_session_get fs t ans W = get_failed (fs\<lparr>fs_exception := Some e\<rparr>) s True e W'"
        using W'(1) Ret fs some e by (simp add: future_session_get_def Let_def s_def is_error_resolved [OF rc])
      show ?thesis unfolding eq by (rule failed [OF eq]) (use rc False in simp_all)
    qed
  qed (use W'(2) in simp)
qed

lemma get_private:
  assumes ok: "ok (object_own (O_FutureSession fs)) W Os" and x: "object_ok W (O_FutureSession fs)"
    and fs: "\<not> fs_persist fs" "fs_exception fs = None" "fs_default_session fs = None"
    and t: "timeout_micros t \<noteq> UB" and some: "fs_session fs = Some p" "fs_future fs = Some f"
  shows "got_fine Os (future_session_get fs t ans W)"
proof -
  have p: "p \<in> cass_sessions W" "cass_futures W f \<noteq> None" and ok: "ok {p, f} W Os"
    using ok x fs some by (simp_all add: object_ok_def object_own_def insert_commute)
  define s fs' where "s = session_of_future fs" and "fs' = fs\<lparr>fs_session := None\<rparr>"
  have s: "\<not> s_persist s" "s_session s = Some p" using fs some by (simp_all add: s_def session_of_future_def)
  have fs': "\<not> fs_persist fs'" "fs_session fs' = None" "fs_future fs' = Some f" "fs_default_session fs' = None" using fs some by (simp_all add: fs'_def)
  obtain r W' where W': "php_scylladb_future_wait_timed (Some f) t ans W = (r, W')" "r \<noteq> UB" "ok {p, f} W' Os" "still W W'"
    "\<And>x. r = Ret x \<Longrightarrow> \<exists>rc. cass_futures W' f = Some (Resolved rc)"
    by (rule wait_ok [OF ok p(2) t]) blast
  have p': "p \<in> cass_sessions W'" "cass_futures W' f \<noteq> None" using p W'(4) by (auto simp: still_def)
  have "p \<noteq> f" using ok_kinds [OF ok p(2)] p(1) by blast
  note failed = get_failed_private [OF W'(3) p' fs'(1-3) s]
  show ?thesis
  proof (cases r)
    case (Throw e)
    then have "future_session_get fs t ans W = get_failed fs' s False e W'"
      using W'(1) fs some by (simp add: future_session_get_def Let_def s_def fs'_def)
    then show ?thesis using failed by simp
  next
    case (Ret x)
    then obtain rc where rc: "cass_futures W' f = Some (Resolved rc)" using W'(5) by blast
    show ?thesis
    proof (cases "rc_error rc")
      case None
      then have "future_session_get fs t ans W = (Ret (New s), fs', W')"
        using W'(1) Ret fs some by (simp add: future_session_get_def Let_def s_def fs'_def is_error_resolved [OF rc])
      then show ?thesis using W'(3) p' s fs' \<open>p \<noteq> f\<close> by (simp add: object_own_def object_ok_def insert_commute)
    next
      case (Some e)
      then have "future_session_get fs t ans W = get_failed fs' s False e W'"
        using W'(1) Ret fs some by (simp add: future_session_get_def Let_def s_def fs'_def is_error_resolved [OF rc])
      then show ?thesis using failed by simp
    qed
  qed (use W'(2) in simp)
qed

lemma get_fine:
  assumes ok: "ok (object_own (O_FutureSession fs)) W Os" and x: "object_ok W (O_FutureSession fs)" and t: "timeout_micros t \<noteq> UB"
    and sh: "\<not> shared Os (fs_cache_key fs) \<or> (\<exists>g. fst (future_session_get fs t ans W) = Ret g)"
  shows "got_fine Os (future_session_get fs t ans W)"
proof -
  consider (early) "fs_exception fs \<noteq> None \<or> fs_default_session fs \<noteq> None \<or> fs_session fs = None \<or> fs_future fs = None"
    | (wait) p f where "fs_exception fs = None" "fs_default_session fs = None" "fs_session fs = Some p" "fs_future fs = Some f" by (metis not_None_eq)
  then show ?thesis
  proof cases
    case early
    then show ?thesis using ok x by (auto simp: future_session_get_def split: option.split)
  next
    case wait
    show ?thesis
    proof (cases "fs_persist fs")
      case True
      then have "ok {} W Os" using ok by (simp add: object_own_def)
      then show ?thesis using get_persistent [OF _ x True wait(1,2) t sh wait(3,4)] by blast
    next
      case False
      then show ?thesis using get_private [OF ok x False wait(1,2) t wait(3,4)] by blast
    qed
  qed
qed

text \<open>A session object has a session.\<close>

lemma session_exists:
  assumes "ok L W Os" "object_ok W (O_Session s)"
  obtains p where "s_session s = Some p" "p \<in> cass_sessions W"
  using assms borrowed_future [OF assms(1)] by (auto simp: object_ok_def split: if_splits)

lemma prepare_new_safe:
  assumes ok: "ok {} W Os" and p: "s_session s = Some p" "p \<in> cass_sessions W" and t: "timeout_micros t \<noteq> UB"
    and k: "keep \<Longrightarrow> persistent_list W k = None"
  shows "\<exists>r W'. prepare_new s k keep t ans W = (r, W') \<and> r \<noteq> UB \<and> ok {} W' Os"
proof -
  obtain f V where V: "session_future (Some p) W = Ret (f, V)" "ok (insert f {}) V Os" "cass_futures V f = Some Pending" "persistent_list V = persistent_list W"
    by (rule ok_request [OF ok p(2)]) blast
  have fV: "cass_futures V f \<noteq> None" using V(3) by simp
  obtain r W' where W': "await (Some f) t ans V = (r, W')" "r \<noteq> UB" "ok {f} W' Os" "still V W'"
    by (rule await_ok [OF V(2) fV t]) blast
  have f: "cass_futures W' f \<noteq> None" using W'(4) V(3) by (auto simp: still_def)
  obtain W'' where W'': "cass_future_free f W' = Ret W''" "ok {} W'' Os" using ok_future_free [OF W'(3) _ f] by auto
  show ?thesis
  proof (cases "keep \<and> (\<exists>x. r = Ret x)")
    case True
    let ?q = "next_ptr W'"
    let ?W = "W'\<lparr>next_ptr := Suc ?q, pprepared := (pprepared W')(?q \<mapsto> f)\<rparr>"
    have new: "?q \<notin> in_use W'" "address_ok W' ?q" using ok_in_use_below [OF W'(3)] W'(3) by (fastforce, simp add: ok_def)
    have L: "{f} \<subseteq> {..<next_ptr W'}" using ok_below [OF W'(3), of Loose] by simp
    have ok': "ok {?q, f} ?W Os"
      by (rule ok_frame [OF W'(3), of "{?q}"]) (use L new in \<open>auto simp: evolves_def in_use_def address_ok_def\<close>)
    have own: "own ?W (R_Statement ?q) = {?q, f}" "alive ?W (R_Statement ?q)" using f by (auto simp: own_def alive_def)
    have k': "persistent_list ?W k = None" using k True V(4) W'(4) by (simp add: still_def)
    obtain U where U: "bind_outcome (plist_update k (R_Statement ?q) ?W) (\<lambda>W. Ret (use_entry (kind_of (R_Statement ?q)) 1 W)) = Ret U" "ok {} U Os"
      using ok_put [OF ok' k' own(2)] own(1) by auto
    have "with_process (plist_update k (R_Statement ?q) ?W) W' (\<lambda>W. (Ret f, use_entry PERSISTENT_PREPARED_STATEMENTS 1 W)) = (Ret f, U)"
      using U(1) by (cases "plist_update k (R_Statement ?q) ?W") (simp_all add: kind_of_def)
    then have "prepare_new s k keep t ans W = (Ret f, U)" using V(1) W'(1) True p(1) by (auto simp: prepare_new_def Let_def)
    then show ?thesis using U(2) by simp
  next
    case False
    then have "\<exists>r'. prepare_new s k keep t ans W = (r', W'') \<and> r' \<noteq> UB"
      using V(1) W'(1,2) W''(1) p(1) by (cases r) (auto simp: prepare_new_def)
    then show ?thesis using W''(2) by blast
  qed
qed

lemma prepare_safe:
  assumes ok: "ok {} W Os" and s: "object_ok W (O_Session s)" and t: "timeout_micros t \<noteq> UB"
    and n: "s_persist s \<Longrightarrow> no_clash PERSISTENT_PREPARED_STATEMENTS W (prepare_key s cql)"
  shows "\<exists>r W'. prepare prepared s cql t ans W = (r, W') \<and> r \<noteq> UB \<and> ok {} W' Os"
proof -
  obtain p where p: "s_session s = Some p" "p \<in> cass_sessions W" using session_exists [OF ok s] by blast
  define k where "k = prepare_key s cql"
  define new where "new = (\<lambda>W. if s_persist s
      then case php_scylladb_persistent_can_cache PERSISTENT_PREPARED_STATEMENTS W of (c, W) \<Rightarrow> prepare_new s k c t ans W
      else prepare_new s k False t ans W)"
  have new: "\<exists>r W'. new V = (r, W') \<and> r \<noteq> UB \<and> ok {} W' Os"
    if V: "ok {} V Os" "p \<in> cass_sessions V" "s_persist s \<Longrightarrow> persistent_list V k = None" for V
  proof (cases "s_persist s")
    case True
    let ?r = "php_scylladb_persistent_can_cache PERSISTENT_PREPARED_STATEMENTS V"
    have "new V = prepare_new s k (fst ?r) t ans (snd ?r)" using True by (simp add: new_def split_beta)
    then show ?thesis using prepare_new_safe [OF ok_can_cache [OF V(1)] p(1) _ t] V(2,3) True by simp
  next
    case False
    then have "new V = prepare_new s k False t ans V" by (simp add: new_def)
    then show ?thesis using prepare_new_safe [OF V(1) p(1) V(2) t] by simp
  qed
  have prepare: "prepare prepared s cql t ans W = (case (if s_persist s then persistent_list W k else None) of
      Some (R_Statement q) \<Rightarrow> (case pprepared W q of None \<Rightarrow> (UB, W) | Some f \<Rightarrow> (case cass_future_error_code f ans W of
          (Ret rc, W) \<Rightarrow> if rc = CASS_OK \<and> prepared f then (Ret f, W) else with_process (bind_outcome (plist_del k W) (\<lambda>(_, W). Ret W)) W new
        | (_, W) \<Rightarrow> (UB, W)))
    | _ \<Rightarrow> new W)"
    unfolding prepare_def k_def new_def Let_def by (rule refl)
  show ?thesis
  proof (cases "s_persist s \<and> persistent_list W k \<noteq> None")
    case True
    then obtain q where q: "persistent_list W k = Some (R_Statement q)" "s_persist s"
    proof -
      obtain r where r: "persistent_list W k = Some r" "s_persist s" using True by blast
      then have "kind_of r = PERSISTENT_PREPARED_STATEMENTS" using n by (simp add: no_clash_def k_def)
      then show thesis using that r by (cases r) (simp_all add: kind_of_def)
    qed
    have "alive W (R_Statement q)" using ok_process [OF ok] q(1) unfolding process_ok_def by blast
    then obtain f where f: "pprepared W q = Some f" "cass_futures W f \<noteq> None" by (auto simp: alive_def)
    obtain rc V where V: "cass_future_error_code f ans W = (Ret rc, V)" "ok {} V Os" "still W V"
    proof (cases "cass_futures W f = Some Pending")
      case True
      then show thesis using that [of "fst ans" "resolve f (fst ans) W"] ok_resolve [OF ok True] still_resolve [OF True]
        by (simp add: cass_future_error_code_def)
    next
      case False
      then obtain rc where "cass_futures W f = Some (Resolved rc)" using f by (metis future_state.exhaust not_None_eq)
      then show thesis using that [of rc W] ok by (simp add: cass_future_error_code_def)
    qed
    have free: "object_key x \<noteq> Some k" if "x \<in> ran Os" for x
      using ok that q(1) by (cases x) (auto simp: ok_def object_key_def object_ok_def borrowed_def split: if_splits)
    have qV: "persistent_list V k = Some (R_Statement q)" using q V(3) by (simp add: still_def)
    obtain U where U: "plist_del k V = Ret (True, U)" "ok {} U Os" "persistent_list U = (persistent_list V)(k := None)" "keeps (own V (R_Statement q)) V U"
      using ok_del [OF V(2) qV free] by blast
    have "p \<in> cass_sessions V" "p \<in> in_use V" using V(3) p(2) by (auto simp: still_def in_use_def)
    moreover have "p \<noteq> q" "Some p \<noteq> pprepared V q"
      using ok_kinds [OF ok f(2)] V(3) f(1) p(2) ok unfolding ok_def address_ok_def by (auto simp: still_def in_use_def)
    ultimately have "p \<in> cass_sessions U" using U(4) by (auto simp: keeps_def own_def)
    then have "\<exists>r W'. new U = (r, W') \<and> r \<noteq> UB \<and> ok {} W' Os" using new [OF U(2)] U(3) by simp
    then show ?thesis unfolding prepare using q f V U(1) by auto
  next
    case False
    then have "prepare prepared s cql t ans W = new W" unfolding prepare by auto
    then show ?thesis using new [OF ok p(2)] False by auto
  qed
qed

lemma close_safe:
  assumes ok: "ok {} W Os" and s: "object_ok W (O_Session s)" and t: "timeout_micros t \<noteq> UB"
  shows "\<exists>r W'. close s t ans W = (r, W') \<and> r \<noteq> UB \<and> ok {} W' Os"
proof (cases "s_persist s")
  case False
  obtain p where p: "s_session s = Some p" "p \<in> cass_sessions W" using session_exists [OF ok s] by blast
  obtain f V where V: "session_future (Some p) W = Ret (f, V)" "ok (insert f {}) V Os" "cass_futures V f = Some Pending"
    by (rule ok_request [OF ok p(2)]) blast
  have fV: "cass_futures V f \<noteq> None" using V(3) by simp
  obtain r W' where W': "await (Some f) t ans V = (r, W')" "r \<noteq> UB" "ok {f} W' Os" "still V W'"
    by (rule await_ok [OF V(2) fV t]) blast
  have f: "cass_futures W' f \<noteq> None" using W'(4) V(3) by (auto simp: still_def)
  obtain W'' where "cass_future_free f W' = Ret W''" "ok {} W'' Os" using ok_future_free [OF W'(3) _ f] by auto
  then show ?thesis using V(1) W'(1,2) p(1) False by (simp add: close_def)
qed (use ok in \<open>simp add: close_def\<close>)

text \<open>Releasing an object frees what it owns.\<close>

lemma free_safe:
  assumes ok: "ok (object_own x) W Os" and x: "object_ok W x"
  shows "\<exists>W'. object_free x W = Ret W' \<and> ok {} W' Os"
proof (cases x)
  case (O_Session s)
  then obtain p where p: "s_session s = Some p" "p \<in> cass_sessions W" using session_exists [OF ok] x by blast
  then show ?thesis using ok_session_free [of "{p}" W Os p] ok O_Session
    by (auto simp: object_free_def php_scylladb_default_session_free_def object_own_def)
next
  case (O_FutureSession fs)
  show ?thesis
  proof (cases "fs_persist fs")
    case False
    then obtain f where f: "fs_future fs = Some f" "cass_futures W f \<noteq> None" and p: "set_option (fs_session fs) \<subseteq> cass_sessions W"
      using x O_FutureSession by (auto simp: object_ok_def)
    have okf: "ok (insert f (set_option (fs_session fs))) W Os" using ok False f O_FutureSession by (simp add: object_own_def)
    obtain V where V: "cass_future_free f W = Ret V" "ok (insert f (set_option (fs_session fs)) - {f}) V Os" "cass_sessions V = cass_sessions W"
      using ok_future_free [OF okf _ f(2)] by auto
    have "f \<notin> set_option (fs_session fs)" using p ok_kinds [OF ok f(2)] by auto
    then have V': "ok (set_option (fs_session fs)) V Os" using V(2) by simp
    then show ?thesis using V False f p O_FutureSession ok_session_free [of "set_option (fs_session fs)" V Os]
      by (cases "fs_session fs") (auto simp: object_free_def php_scylladb_future_session_free_def)
  qed (use ok O_FutureSession in \<open>simp add: object_free_def php_scylladb_future_session_free_def object_own_def\<close>)
next
  case (O_Cluster c)
  then obtain p where p: "cl_cluster c = Some p" "cass_clusters W p \<noteq> None" using cluster_exists [OF ok] x by blast
  show ?thesis
  proof (cases "cl_persist c")
    case False
    let ?W = "W\<lparr>cass_clusters := (cass_clusters W)(p := None)\<rparr>"
    have okp: "ok {p} W Os" using ok False p O_Cluster by (simp add: object_own_def)
    have "address_ok W p" using ok by (simp add: ok_def)
    then have "ok {} ?W Os"
      by (intro ok_frame [OF okp, of "{p}"]) (use p in \<open>auto simp: evolves_def in_use_def address_ok_def\<close>)
    then show ?thesis using False p O_Cluster by (simp add: object_free_def php_scylladb_default_cluster_free_def cass_cluster_free_def)
  qed (use ok p O_Cluster in \<open>simp add: object_free_def php_scylladb_default_cluster_free_def object_own_def\<close>)
qed (use ok x ok_future_free [of "object_own x" W Os] in \<open>auto simp: object_free_def object_own_def object_ok_def php_scylladb_future_close_free_def php_scylladb_future_prepared_statement_free_def\<close>)

end
