(* ===== verification/SessionRuns.thy ===== *)
theory SessionRuns
  imports SessionCalls
begin

text \<open>
  Scripts: any sequence of the calls, with the futures of the driver resolving in between, as a step relation.
  No sequence uses a freed object or loses one, unless a wait fails on a cached connection that another
  pending future shares.
\<close>

lemma build_fine:
  assumes ok: "ok {} W Os" and b: "builder_ok G b" and n: "no_clash PERSISTENT_CLUSTERS W (builder_key P b)"
  shows "fine Os O_Cluster (build K rc P b W)"
proof -
  have new: "fine Os O_Cluster (build_new K rc P b c V)"
    if V: "ok {} V Os" and c: "cl_persist c \<Longrightarrow> persistent_list V (cl_cache_key c) = None" for c V
  proof -
    obtain calls where calls: "cluster_calls K P b = Ret calls"
      using b by (cases "username b"; cases "password b") (auto simp: cluster_calls_def credentials_calls_def builder_ok_def Let_def)
    define made where "made = fst (run_calls rc calls [])"
    define U where "U = V\<lparr>next_ptr := Suc (next_ptr V), cass_clusters := (cass_clusters V)(next_ptr V \<mapsto> made)\<rparr>"
    have fresh: "next_ptr V \<notin> in_use V" "address_ok V (next_ptr V)" using ok_in_use_below [OF V(1)] V(1) by (fastforce, simp add: ok_def)
    have U: "ok {next_ptr V} U Os" "ok {} U Os"
      by (rule ok_frame [OF V(1), of "{next_ptr V}"]; use fresh in \<open>auto simp: U_def evolves_def in_use_def address_ok_def\<close>)+
    have free: "ok {} (U\<lparr>cass_clusters := (cass_clusters U)(next_ptr V := None)\<rparr>) Os"
      by (rule ok_frame [OF V(1), of "{next_ptr V}"]) (use fresh in \<open>auto simp: U_def evolves_def in_use_def address_ok_def\<close>)
    have p: "cass_clusters U (next_ptr V) = Some made" "persistent_list U = persistent_list V" by (simp_all add: U_def)
    show ?thesis
    proof (cases "snd (run_calls rc calls [])")
      case (Some e)
      then have "build_new K rc P b c V =
          (Throw e, if cl_persist c then U else U\<lparr>cass_clusters := (cass_clusters U)(next_ptr V := None)\<rparr>)"
        using p(1) by (simp add: build_new_def calls Let_def made_def [symmetric] U_def [symmetric] php_scylladb_default_cluster_free_def cass_cluster_free_def)
      then show ?thesis using U(2) free by simp
    next
      case None
      show ?thesis
      proof (cases "cl_persist c")
        case True
        have r: "alive U (R_Cluster (next_ptr V))" "own U (R_Cluster (next_ptr V)) = {next_ptr V}" using p(1) by (simp_all add: alive_def own_def)
        obtain W' where W': "bind_outcome (plist_update (cl_cache_key c) (R_Cluster (next_ptr V)) U) (\<lambda>W. Ret (use_entry (kind_of (R_Cluster (next_ptr V))) 1 W)) = Ret W'"
            "ok {} W' Os" "persistent_list W' = (persistent_list U)(cl_cache_key c \<mapsto> R_Cluster (next_ptr V))"
          using ok_put [OF U(1) _ r(1)] c [OF True] p(2) r(2) by auto
        have "with_process (plist_update (cl_cache_key c) (R_Cluster (next_ptr V)) U) U (\<lambda>W. (Ret c', use_entry PERSISTENT_CLUSTERS 1 W)) = (Ret c', W')" for c' :: cluster
          using W'(1) by (cases "plist_update (cl_cache_key c) (R_Cluster (next_ptr V)) U") (simp_all add: kind_of_def)
        then have "build_new K rc P b c V = (Ret (c\<lparr>cl_cluster := Some (next_ptr V)\<rparr>), W')"
          using None True by (simp add: build_new_def calls Let_def made_def [symmetric] U_def [symmetric])
        then show ?thesis using W'(2,3) True by (simp add: object_own_def object_ok_def)
      next
        case False
        then have "build_new K rc P b c V = (Ret (c\<lparr>cl_cluster := Some (next_ptr V)\<rparr>), U)"
          using None by (simp add: build_new_def calls Let_def made_def [symmetric] U_def [symmetric])
        then show ?thesis using U(1) p(1) False by (simp add: object_own_def object_ok_def)
      qed
    qed
  qed
  show ?thesis
  proof (cases "persist b")
    case True
    show ?thesis
    proof (cases "persistent_list W (builder_key P b)")
      case (Some r)
      then obtain p where p: "r = R_Cluster p" using n by (cases r) (auto simp: no_clash_def kind_of_def)
      then have "build K rc P b W = (Ret ((new_cluster b (builder_key P b))\<lparr>cl_cluster := Some p\<rparr>), W)"
        using True Some by (simp add: build_def Let_def)
      then show ?thesis using ok Some p True by (simp add: object_own_def object_ok_def new_cluster_def)
    next
      case None
      let ?r = "php_scylladb_persistent_can_cache PERSISTENT_CLUSTERS W"
      let ?c = "new_cluster b (builder_key P b)"
      have k: "cl_cache_key ?c = builder_key P b" by (simp add: new_cluster_def)
      have "build K rc P b W = build_new K rc P b (if fst ?r then ?c else ?c\<lparr>cl_persist := False\<rparr>) (snd ?r)"
        using True None by (cases ?r; cases "fst ?r") (simp_all add: build_def Let_def)
      then show ?thesis using new [OF ok_can_cache [OF ok]] None k by (cases "fst ?r") simp_all
    qed
  next
    case False
    then have "build K rc P b W = build_new K rc P b (new_cluster b 0) W" by (simp add: build_def)
    moreover have "\<not> cl_persist (new_cluster b 0)" using False by (simp add: new_cluster_def)
    ultimately show ?thesis using new [OF ok, of "new_cluster b 0"] by simp
  qed
qed

section \<open>Runs of a script\<close>

text \<open>
  The steps: a call of a method, the release of an object that no other holds, or a result from the
  driver. Fingerprints of different kinds do not meet, and timeouts fit the driver's type. \<open>share\<close> says
  whether a wait for a session may fail while other futures of the script read the same entry.
\<close>

definition others :: "script \<Rightarrow> nat \<Rightarrow> nat \<rightharpoonup> php_object" where
  "others S h = (objects S)(h := None)"

inductive script_step :: "bool \<Rightarrow> script \<Rightarrow> script outcome \<Rightarrow> bool" for share where
  build: "objects S h = None \<Longrightarrow> builder_ok G b \<Longrightarrow> no_clash PERSISTENT_CLUSTERS (proc S) (builder_key P b) \<Longrightarrow>
    script_step share S (after (build K rc P b (proc S)) (\<lambda>c Os. Os(h \<mapsto> O_Cluster c)) S)"
| connect: "objects S hc = Some (O_Cluster c) \<Longrightarrow> objects S h = None \<Longrightarrow> timeout_micros t \<noteq> UB \<Longrightarrow>
    k = s_cache_key (session_of_cluster c ks) \<Longrightarrow> no_clash PERSISTENT_SESSIONS (proc S) k \<Longrightarrow> r = connect c ks t ans (proc S) \<Longrightarrow>
    share \<or> \<not> shared (objects S) k \<or> (\<exists>x. fst r = Ret x) \<Longrightarrow>
    script_step share S (after r (\<lambda>s Os. Os(h \<mapsto> O_Session s)) S)"
| connectAsync: "objects S hc = Some (O_Cluster c) \<Longrightarrow> objects S h = None \<Longrightarrow>
    no_clash PERSISTENT_SESSIONS (proc S) (fs_cache_key (future_of_cluster c ks)) \<Longrightarrow>
    script_step share S (after (connectAsync c ks (proc S)) (\<lambda>fs Os. Os(h \<mapsto> O_FutureSession fs)) S)"
| get: "objects S hf = Some (O_FutureSession fs) \<Longrightarrow> objects S h = None \<Longrightarrow> timeout_micros t \<noteq> UB \<Longrightarrow>
    future_session_get fs t ans (proc S) = (g, fs', W) \<Longrightarrow> share \<or> \<not> shared (others S hf) (fs_cache_key fs) \<or> (\<exists>x. g = Ret x) \<Longrightarrow>
    script_step share S
      (after (g, W) (\<lambda>x Os. case x of Existing _ \<Rightarrow> Os | New s \<Rightarrow> Os(h \<mapsto> O_Session s, hf \<mapsto> O_FutureSession (fs'\<lparr>fs_default_session := Some h\<rparr>)))
        (S\<lparr>objects := (objects S)(hf \<mapsto> O_FutureSession fs')\<rparr>))"
| prepare: "objects S hs = Some (O_Session s) \<Longrightarrow> timeout_micros t \<noteq> UB \<Longrightarrow>
    (s_persist s \<Longrightarrow> no_clash PERSISTENT_PREPARED_STATEMENTS (proc S) (prepare_key s cql)) \<Longrightarrow>
    script_step share S (after (prepare prepared s cql t ans (proc S)) (\<lambda>_ Os. Os) S)"
| prepareAsync: "objects S hs = Some (O_Session s) \<Longrightarrow> objects S h = None \<Longrightarrow>
    script_step share S (after (prepareAsync s (proc S)) (\<lambda>f Os. Os(h \<mapsto> O_FuturePrepared f None)) S)"
| close: "objects S hs = Some (O_Session s) \<Longrightarrow> timeout_micros t \<noteq> UB \<Longrightarrow>
    script_step share S (after (close s t ans (proc S)) (\<lambda>_ Os. Os) S)"
| closeAsync: "objects S hs = Some (O_Session s) \<Longrightarrow> objects S h = None \<Longrightarrow>
    script_step share S (after (closeAsync s (proc S)) (\<lambda>f Os. case f of None \<Rightarrow> Os | Some f \<Rightarrow> Os(h \<mapsto> O_FutureClose f hs)) S)"
| get_close: "objects S hf = Some (O_FutureClose f hs) \<Longrightarrow> timeout_micros t \<noteq> UB \<Longrightarrow>
    script_step share S (after (future_close_get f t ans (proc S)) (\<lambda>_ Os. Os) S)"
| get_prepared: "objects S hf = Some (O_FuturePrepared f q) \<Longrightarrow> timeout_micros t \<noteq> UB \<Longrightarrow>
    script_step share S (after (future_prepared_statement_get f q t ans (proc S)) (\<lambda>q Os. Os(hf \<mapsto> O_FuturePrepared f (Some q))) S)"
| free: "objects S h = Some x \<Longrightarrow> (\<And>h' y. objects S h' = Some y \<Longrightarrow> \<not> holds y h) \<Longrightarrow>
    script_step share S (bind_outcome (object_free x (proc S)) (\<lambda>W. Ret \<lparr>proc = W, objects = (objects S)(h := None)\<rparr>))"
| driver: "cass_futures (proc S) f = Some Pending \<Longrightarrow> script_step share S (Ret (S\<lparr>proc := resolve f rc (proc S)\<rparr>))"

definition script_ok :: "script \<Rightarrow> bool" where
  "script_ok S \<longleftrightarrow> ok {} (proc S) (objects S)"

inductive script_reach :: "bool \<Rightarrow> script \<Rightarrow> script \<Rightarrow> bool" for share S0 where
  start: "script_reach share S0 S0"
| step: "script_reach share S0 S \<Longrightarrow> script_step share S (Ret S') \<Longrightarrow> script_reach share S0 S'"

text \<open>A call that leaves an object for a new handle, or none.\<close>

lemma after_attach:
  assumes f: "fine (objects S) wrap r" and h: "objects S h = None" and no: "\<And>x W h'. r = (Ret x, W) \<Longrightarrow> \<not> holds (wrap x) h'"
  shows "\<exists>S'. after r (\<lambda>x Os. Os(h \<mapsto> wrap x)) S = Ret S' \<and> script_ok S'"
proof (cases r)
  case (Pair o' W)
  show ?thesis
  proof (cases o')
    case (Ret x)
    then have "ok (object_own (wrap x) - object_own (wrap x)) W ((objects S)(h \<mapsto> wrap x))"
      using f Pair no h by (intro ok_attach [where Os = "objects S"]) auto
    then show ?thesis using Pair Ret by (simp add: after_def script_ok_def)
  qed (use f Pair in \<open>simp_all add: after_def script_ok_def\<close>)
qed

lemma after_same:
  assumes "r = (o', W)" "o' \<noteq> UB" "ok {} W (objects S)"
  shows "\<exists>S'. after r (\<lambda>_ Os. Os) S = Ret S' \<and> script_ok S'"
  using assms by (cases o') (simp_all add: after_def script_ok_def)

text \<open>Exchanging an object.\<close>

lemma ok_replace:
  assumes ok: "ok {} W Os" and h: "Os h = Some x" and free: "\<And>h' y. Os h' = Some y \<Longrightarrow> \<not> holds y h"
  shows "ok (object_own x) W (Os(h := None))"
  using ok_detach [OF ok h free] by simp

lemma not_held:
  assumes "ok L W Os" "Os h = Some x" "\<And>s. x \<noteq> O_Session s" "Os h' = Some y"
  shows "\<not> holds y h"
proof
  assume "holds y h"
  then obtain s where "Os h = Some (O_Session s)" using assms(1,4) unfolding ok_def held_ok_def by blast
  then show False using assms(2,3) by simp
qed

lemma get_failed_default: "fs_default_session (fst (snd (get_failed fs s del e W))) = fs_default_session fs"
proof -
  have "fs_default_session fs' = fs_default_session fs" if "drop_entry fs W = Ret (fs', V)" for fs' V
    using that by (cases "plist_del (fs_cache_key fs) W") (auto simp: drop_entry_def split: if_splits)
  then show ?thesis by (cases del) (auto simp: get_failed_def split: outcome.split prod.split)
qed

lemma get_default: "fs_default_session (fst (snd (future_session_get fs t ans W))) = fs_default_session fs"
  by (simp add: future_session_get_def get_failed_default Let_def split: option.split outcome.split prod.split)

lemma get_step:
  assumes S: "script_ok S" and hf: "objects S hf = Some (O_FutureSession fs)" and h: "objects S h = None" and t: "timeout_micros t \<noteq> UB"
    and g: "future_session_get fs t ans (proc S) = (g, fs', W)" and sh: "\<not> shared (others S hf) (fs_cache_key fs) \<or> (\<exists>x. g = Ret x)"
  shows "\<exists>S'. after (g, W) (\<lambda>x Os. case x of Existing _ \<Rightarrow> Os | New s \<Rightarrow> Os(h \<mapsto> O_Session s, hf \<mapsto> O_FutureSession (fs'\<lparr>fs_default_session := Some h\<rparr>)))
        (S\<lparr>objects := (objects S)(hf \<mapsto> O_FutureSession fs')\<rparr>) = Ret S' \<and> script_ok S'"
proof -
  let ?Os = "others S hf"
  have ok: "ok {} (proc S) (objects S)" using S by (simp add: script_ok_def)
  have nh: "\<not> holds y hf" if "objects S h' = Some y" for h' y using not_held [OF ok hf _ that] by simp
  have ok1: "ok (object_own (O_FutureSession fs)) (proc S) ?Os" unfolding others_def by (rule ok_replace [OF ok hf nh])
  have fine: "got_fine ?Os (g, fs', W)"
    using get_fine [OF ok1 ok_object [OF ok hf] t, of ans] sh by (simp add: g)
  have hf': "?Os hf = None" "?Os h = None" "h \<noteq> hf" using h hf by (auto simp: others_def)
  have same: "fs_default_session fs' = fs_default_session fs"
    using get_default [of fs t ans "proc S"] by (simp add: g)
  have kept: "script_ok \<lparr>proc = W, objects = (objects S)(hf \<mapsto> O_FutureSession fs')\<rparr>"
    if okW: "ok (object_own (O_FutureSession fs')) W ?Os" and obj: "object_ok W (O_FutureSession fs')"
  proof -
    have "\<exists>s. ?Os h' = Some (O_Session s)" if "holds (O_FutureSession fs') h'" for h'
    proof -
      have "holds (O_FutureSession fs) h'" using that same by (simp add: holds_def)
      then obtain s where "objects S h' = Some (O_Session s)" using ok hf unfolding ok_def held_ok_def by blast
      then show ?thesis using hf by (auto simp: others_def)
    qed
    then have "ok (object_own (O_FutureSession fs') - object_own (O_FutureSession fs')) W (?Os(hf \<mapsto> O_FutureSession fs'))"
      by (intro ok_attach [OF okW hf'(1) obj]) auto
    then show ?thesis by (simp add: script_ok_def others_def)
  qed
  show ?thesis
  proof (cases g)
    case (Ret x)
    show ?thesis
    proof (cases x)
      case (New s)
      let ?fs = "fs'\<lparr>fs_default_session := Some h\<rparr>"
      let ?L = "object_own (O_FutureSession fs') \<union> object_own (O_Session s)"
      have W: "object_ok W (O_FutureSession fs')" "ok ?L W ?Os" "object_ok W (O_Session s)" "object_own (O_FutureSession fs') \<inter> object_own (O_Session s) = {}"
        using fine Ret New by simp_all
      have "ok (?L - object_own (O_Session s)) W (?Os(h \<mapsto> O_Session s))"
        by (rule ok_attach [OF W(2) hf'(2) W(3)]) (auto simp: holds_def)
      moreover have "?L - object_own (O_Session s) = object_own (O_FutureSession ?fs)" using W(4) by (auto simp: object_own_def)
      ultimately have "ok (object_own (O_FutureSession ?fs)) W (?Os(h \<mapsto> O_Session s))" by simp
      then have "ok (object_own (O_FutureSession ?fs) - object_own (O_FutureSession ?fs)) W (?Os(h \<mapsto> O_Session s, hf \<mapsto> O_FutureSession ?fs))"
        by (rule ok_attach) (use W(1) hf' in \<open>auto simp: object_ok_def holds_def\<close>)
      moreover have "?Os(h \<mapsto> O_Session s, hf \<mapsto> O_FutureSession ?fs) = (objects S)(hf \<mapsto> O_FutureSession fs', h \<mapsto> O_Session s, hf \<mapsto> O_FutureSession ?fs)"
        using hf'(3) by (simp add: others_def fun_upd_twist)
      ultimately show ?thesis using Ret New by (simp add: after_def script_ok_def)
    qed (use fine Ret kept in \<open>simp add: after_def\<close>)
  qed (use fine kept in \<open>simp_all add: after_def script_ok_def\<close>)
qed

lemma request_fine:
  assumes "ok {} W Os" "object_ok W (O_Session s)"
  shows "fine Os (\<lambda>f. O_FuturePrepared f None) (prepareAsync s W)"
    and "\<not> s_persist s \<Longrightarrow> \<exists>f W'. closeAsync s W = (Ret (Some f), W') \<and> ok {f} W' Os \<and> cass_futures W' f \<noteq> None"
proof -
  obtain p where p: "s_session s = Some p" "p \<in> cass_sessions W" using session_exists [OF assms] by blast
  obtain f V where V: "session_future (Some p) W = Ret (f, V)" "ok (insert f {}) V Os" "cass_futures V f = Some Pending"
    by (rule ok_request [OF assms(1) p(2)]) blast
  then show "fine Os (\<lambda>f. O_FuturePrepared f None) (prepareAsync s W)"
    using p by (simp add: prepareAsync_def object_own_def object_ok_def)
  show "\<not> s_persist s \<Longrightarrow> \<exists>f W'. closeAsync s W = (Ret (Some f), W') \<and> ok {f} W' Os \<and> cass_futures W' f \<noteq> None"
    using V p by (simp add: closeAsync_def)
qed

lemma connectAsync_default: "connectAsync c ks W = (Ret fs, W') \<Longrightarrow> fs_default_session fs = None"
proof -
  have new: "connectAsync_new cl f V = (Ret fs, W') \<Longrightarrow> fs_default_session f = None \<Longrightarrow> fs_default_session fs = None" for cl f V
    by (auto simp: connectAsync_new_def with_process_def Let_def split: outcome.splits if_splits)
  then show "connectAsync c ks W = (Ret fs, W') \<Longrightarrow> ?thesis"
    by (auto simp: connectAsync_def future_of_cluster_def Let_def split_beta split: outcome.splits option.splits if_splits dest!: new)
qed

lemma closeAsync_step:
  assumes ok: "ok {} (proc S) (objects S)" and hs: "objects S hs = Some (O_Session s)" and h: "objects S h = None"
  shows "\<exists>S'. after (closeAsync s (proc S)) (\<lambda>f Os. case f of None \<Rightarrow> Os | Some f \<Rightarrow> Os(h \<mapsto> O_FutureClose f hs)) S = Ret S' \<and> script_ok S'"
proof (cases "s_persist s")
  case False
  obtain f W' where f: "closeAsync s (proc S) = (Ret (Some f), W')" "ok {f} W' (objects S)" "cass_futures W' f \<noteq> None"
    using request_fine(2) [OF ok ok_object [OF ok hs] False] by blast
  have "ok ({f} - object_own (O_FutureClose f hs)) W' ((objects S)(h \<mapsto> O_FutureClose f hs))"
    by (rule ok_attach [OF f(2) h]) (use f(3) hs in \<open>auto simp: object_ok_def object_own_def holds_def\<close>)
  then show ?thesis using f(1) by (simp add: after_def script_ok_def object_own_def)
qed (use ok in \<open>simp add: closeAsync_def after_def script_ok_def\<close>)

lemma get_prepared_step:
  assumes ok: "ok {} (proc S) (objects S)" and hf: "objects S hf = Some (O_FuturePrepared f q)" and t: "timeout_micros t \<noteq> UB"
  shows "\<exists>S'. after (future_prepared_statement_get f q t ans (proc S)) (\<lambda>q Os. Os(hf \<mapsto> O_FuturePrepared f (Some q))) S = Ret S' \<and> script_ok S'"
proof -
  have f: "cass_futures (proc S) f \<noteq> None" using ok_object [OF ok hf] by (simp add: object_ok_def)
  have put: "ok {} W ((objects S)(hf \<mapsto> O_FuturePrepared f q'))" if W: "ok {} W (objects S)" for W q'
  proof -
    have nh: "\<not> holds y hf" if "objects S h' = Some y" for h' y using not_held [OF W hf _ that] by simp
    have "ok {f} W ((objects S)(hf := None))" using ok_replace [OF W hf nh] by (simp add: object_own_def)
    then have "ok ({f} - object_own (O_FuturePrepared f q')) W ((objects S)(hf := None, hf \<mapsto> O_FuturePrepared f q'))"
      by (rule ok_attach) (use ok_object [OF W hf] in \<open>auto simp: object_ok_def object_own_def holds_def\<close>)
    then show ?thesis by (simp add: object_own_def)
  qed
  obtain r W' where W': "await (Some f) t ans (proc S) = (r, W')" "r \<noteq> UB" "ok {} W' (objects S)" by (rule await_ok [OF ok f t]) blast
  show ?thesis
  proof (cases q)
    case None
    then show ?thesis using W' put [OF W'(3)] by (cases r) (simp_all add: future_prepared_statement_get_def after_def script_ok_def)
  qed (use put [OF ok] in \<open>simp add: future_prepared_statement_get_def after_def script_ok_def\<close>)
qed

lemma script_step_ok:
  assumes "script_step False S r" and S: "script_ok S"
  shows "\<exists>S'. r = Ret S' \<and> script_ok S'"
proof -
  note ok = S [unfolded script_ok_def]
  note obj = ok_object [OF ok]
  show ?thesis
    using assms(1)
  proof (cases rule: script_step.cases)
    case (build h G b P K rc)
    show ?thesis unfolding build(1) by (rule after_attach [OF build_fine [OF ok build(3,4)] build(2)]) (simp add: holds_def)
  next
    case (connect hc c h t k ks r' ans)
    have "fine (objects S) O_Session r'"
      unfolding connect(7) by (rule connect_fine [OF ok obj [OF connect(2)] connect(4)]) (use connect in auto)
    then show ?thesis unfolding connect(1) by (rule after_attach [OF _ connect(3)]) (simp add: holds_def)
  next
    case (connectAsync hc c h ks)
    show ?thesis unfolding connectAsync(1)
      by (rule after_attach [OF connectAsync_fine [OF ok obj [OF connectAsync(2)] connectAsync(4)] connectAsync(3)])
        (simp add: holds_def connectAsync_default)
  next
    case (get hf fs h t ans g fs' W)
    show ?thesis unfolding get(1) by (rule get_step [OF S get(2-5)]) (use get(6) in simp)
  next
    case (prepare hs s t cql prepared ans)
    show ?thesis unfolding prepare(1) using prepare_safe [OF ok obj [OF prepare(2)] prepare(3,4)] after_same by blast
  next
    case (prepareAsync hs s h)
    show ?thesis unfolding prepareAsync(1)
      by (rule after_attach [OF request_fine(1) [OF ok obj [OF prepareAsync(2)]] prepareAsync(3)]) (simp add: holds_def)
  next
    case (close hs s t ans)
    show ?thesis unfolding close(1) using close_safe [OF ok obj [OF close(2)] close(3)] after_same by blast
  next
    case (closeAsync hs s h)
    show ?thesis unfolding closeAsync(1) by (rule closeAsync_step [OF ok closeAsync(2,3)])
  next
    case (get_close hf f hs t ans)
    have f: "cass_futures (proc S) f \<noteq> None" using obj [OF get_close(2)] by (simp add: object_ok_def)
    obtain o' W' where "await (Some f) t ans (proc S) = (o', W')" "o' \<noteq> UB" "ok {} W' (objects S)" by (rule await_ok [OF ok f get_close(3)]) blast
    then show ?thesis unfolding get_close(1) future_close_get_def by (rule after_same)
  next
    case (get_prepared hf f q t ans)
    show ?thesis unfolding get_prepared(1) by (rule get_prepared_step [OF ok get_prepared(2,3)])
  next
    case (free h x)
    have "ok (object_own x) (proc S) ((objects S)(h := None))" by (rule ok_replace [OF ok free(2)]) (use free(3) in blast)
    then obtain W' where W': "object_free x (proc S) = Ret W'" "ok {} W' ((objects S)(h := None))"
      using free_safe obj [OF free(2)] by blast
    then show ?thesis unfolding free(1) by (simp add: script_ok_def)
  next
    case (driver f rc)
    then show ?thesis using ok_resolve [OF ok driver(2)] by (simp add: script_ok_def)
  qed
qed

section \<open>Two futures on one entry\<close>

lemma example_key: "session_key 7 None = 13574611937595702426"
  by code_simp

text \<open>A worker with one persistent cluster, and a script that has its object.\<close>

definition example_cluster :: cluster where
  "example_cluster = \<lparr>cl_cluster = Some 0, cl_default_consistency = 1, cl_default_page_size = 5000, cl_default_timeout = None, cl_persist = True, cl_cache_key = 7\<rparr>"

definition example_process :: process where
  "example_process = \<lparr>persistent_list = [7 \<mapsto> R_Cluster 0], cass_clusters = [0 \<mapsto> []], cass_sessions = {}, cass_futures = Map.empty, psessions = Map.empty,
     pprepared = Map.empty, next_ptr = 1, persistent_used = (\<lambda>_. 0)(PERSISTENT_CLUSTERS := 1), max_persistent = (\<lambda>_. 8), warned_cap = (\<lambda>_. False)\<rparr>"

definition example_script :: script where
  "example_script = \<lparr>proc = example_process, objects = [0 \<mapsto> O_Cluster example_cluster]\<rparr>"

lemma example_script_ok: "script_ok example_script"
proof -
  have list: "persistent_list example_process k = (if k = 7 then Some (R_Cluster 0) else None)" for k by (simp add: example_process_def)
  have "entries_of example_process kind = (if kind = PERSISTENT_CLUSTERS then {7} else {})" for kind
    by (auto simp: entries_of_def list kind_of_def)
  then have "process_ok example_process"
    by (simp add: process_ok_def list dom_def) (simp add: example_process_def alive_def own_def)
  moreover have "family_ok 1 {} (claim {} example_process [0 \<mapsto> O_Cluster example_cluster])"
  proof -
    have "claim {} example_process [0 \<mapsto> O_Cluster example_cluster] c = (if c = Entry 7 then {0} else {})" for c
      by (cases c) (auto simp: list own_def object_own_def example_cluster_def)
    then show ?thesis by (simp add: family_ok_def)
  qed
  ultimately show ?thesis
    by (simp add: script_ok_def ok_def example_script_def held_ok_def holds_def object_ok_def list example_cluster_def)
      (auto simp: example_process_def in_use_def address_ok_def)
qed

text \<open>The futures of two calls of \<^verbatim>\<open>connectAsync\<close>, the process after them, and after the first gave up.\<close>

definition example_future :: future_session where
  "example_future = (future_of_cluster example_cluster None)\<lparr>fs_session := Some 1, fs_future := Some 2\<rparr>"

definition example_connected :: process where
  "example_connected = example_process\<lparr>next_ptr := 4, cass_sessions := {1}, cass_futures := [2 \<mapsto> Pending], psessions := [3 \<mapsto> \<lparr>ps_session = 1, ps_future = 2\<rparr>],
     persistent_list := [7 \<mapsto> R_Cluster 0, 13574611937595702426 \<mapsto> R_Session 3],
     persistent_used := (\<lambda>_. 0)(PERSISTENT_CLUSTERS := 1, PERSISTENT_SESSIONS := 1)\<rparr>"

definition example_gone :: process where
  "example_gone = example_connected\<lparr>cass_sessions := {}, cass_futures := Map.empty, psessions := Map.empty, persistent_list := [7 \<mapsto> R_Cluster 0],
     persistent_used := (\<lambda>_. 0)(PERSISTENT_CLUSTERS := 1)\<rparr>"

lemma example_calls:
  "connectAsync example_cluster None example_process = (Ret example_future, example_connected)"
  "connectAsync example_cluster None example_connected = (Ret example_future, example_connected)"
  "\<exists>e. future_session_get example_future (ZLong 1) (CASS_OK, 2000000) example_connected = (Throw e, example_future\<lparr>fs_future := None\<rparr>, example_gone)"
  "fst (future_session_get example_future ZNull (CASS_OK, 0) example_gone) = UB"
proof -
  note defs = example_cluster_def example_process_def example_connected_def example_gone_def example_future_def future_of_cluster_def example_key
  show "connectAsync example_cluster None example_process = (Ret example_future, example_connected)"
    by (simp add: connectAsync_def connectAsync_new_def find_session_def php_scylladb_persistent_can_cache_def open_session_def keep_session_def
        plist_update_def plist_del_def use_entry_def Let_def defs fun_eq_iff)
  show "connectAsync example_cluster None example_connected = (Ret example_future, example_connected)"
    by (simp add: connectAsync_def find_session_def Let_def defs)
  show "\<exists>e. future_session_get example_future (ZLong 1) (CASS_OK, 2000000) example_connected = (Throw e, example_future\<lparr>fs_future := None\<rparr>, example_gone)"
    by (simp add: future_session_get_def get_failed_def drop_entry_def php_scylladb_future_wait_timed_def timeout_micros_def cast_u_def take_bit_eq_mod
        session_of_future_def plist_del_def plist_destroy_def php_scylladb_session_dtor_def cass_future_free_def cass_session_free_def use_entry_def
        Let_def defs fun_eq_iff)
  show "fst (future_session_get example_future ZNull (CASS_OK, 0) example_gone) = UB"
    by (simp add: future_session_get_def php_scylladb_future_wait_timed_def Let_def defs)
qed


lemma step_same_script: "script_step share S r \<Longrightarrow> r = r' \<Longrightarrow> script_step share S r'"
  by simp

lemma shared_entry_unsafe: "\<exists>S. script_reach True example_script S \<and> script_step True S UB"
proof -
  let ?S1 = "\<lparr>proc = example_connected, objects = [0 \<mapsto> O_Cluster example_cluster, 1 \<mapsto> O_FutureSession example_future]\<rparr>"
  let ?S2 = "\<lparr>proc = example_connected, objects = [0 \<mapsto> O_Cluster example_cluster, 1 \<mapsto> O_FutureSession example_future, 2 \<mapsto> O_FutureSession example_future]\<rparr>"
  let ?S3 = "\<lparr>proc = example_gone, objects = [0 \<mapsto> O_Cluster example_cluster, 2 \<mapsto> O_FutureSession example_future, 1 \<mapsto> O_FutureSession (example_future\<lparr>fs_future := None\<rparr>)]\<rparr>"
  note defs = example_script_def example_cluster_def example_process_def example_connected_def future_of_cluster_def no_clash_def example_key kind_of_def
  have t: "timeout_micros (ZLong 1) \<noteq> UB" "timeout_micros ZNull \<noteq> UB" by (simp_all add: timeout_micros_def)
  have "script_step True example_script (Ret ?S1)"
    by (rule step_same_script [OF script_step.connectAsync [where S = example_script and hc = 0 and h = 1 and c = example_cluster and ks = None]])
      (simp_all add: example_calls(1) after_def example_script_def, simp_all add: defs)
  moreover have "script_step True ?S1 (Ret ?S2)"
    by (rule step_same_script [OF script_step.connectAsync [where S = ?S1 and hc = 0 and h = 2 and c = example_cluster and ks = None]])
      (simp_all add: example_calls(2) after_def, simp_all add: defs)
  moreover have "script_step True ?S2 (Ret ?S3)"
  proof -
    obtain e where e: "future_session_get example_future (ZLong 1) (CASS_OK, 2000000) example_connected = (Throw e, example_future\<lparr>fs_future := None\<rparr>, example_gone)"
      using example_calls(3) by blast
    show ?thesis
      by (rule step_same_script [OF script_step.get [where S = ?S2 and hf = 1 and h = 3 and fs = example_future and t = "ZLong 1" and ans = "(CASS_OK, 2000000)"
          and g = "Throw e" and fs' = "example_future\<lparr>fs_future := None\<rparr>" and W = example_gone]])
        (use e t in \<open>simp_all add: after_def\<close>)
  qed
  moreover have "script_step True ?S3 UB"
  proof -
    obtain fs' W where e: "future_session_get example_future ZNull (CASS_OK, 0) example_gone = (UB, fs', W)"
      using example_calls(4) by (cases "future_session_get example_future ZNull (CASS_OK, 0) example_gone") auto
    show ?thesis
      by (rule step_same_script [OF script_step.get [where S = ?S3 and hf = 2 and h = 3 and fs = example_future and t = ZNull and ans = "(CASS_OK, 0)"
          and g = UB and fs' = fs' and W = W]])
        (use e t in \<open>simp_all add: after_def\<close>)
  qed
  ultimately show ?thesis using script_reach.intros by meson
qed

section \<open>The property\<close>

lemma script_reach_ok: "script_reach False S0 S \<Longrightarrow> script_ok S0 \<Longrightarrow> script_ok S"
proof (induction rule: script_reach.induct)
  case (step S S')
  then show ?case using script_step_ok [OF step.hyps(2)] by auto
qed

lemma script_no_leak:
  assumes "script_ok S" "objects S = Map.empty" "p \<in> in_use (proc S)"
  shows "\<exists>k r. persistent_list (proc S) k = Some r \<and> p \<in> own (proc S) r"
proof -
  obtain c where c: "p \<in> claim {} (proc S) (objects S) c"
    using assms(1,3) unfolding script_ok_def ok_def family_ok_def by blast
  then show ?thesis using assms(2) by (cases c) (auto split: option.splits)
qed

text \<open>
  Property C1. From a script in which every driver object has one owner, any sequence of calls on clusters,
  sessions and futures, with the driver resolving futures in between, keeps this state: no call uses or frees an
  object that is gone, persistent or not, whether it returns or throws. When the script has released its objects,
  every session and future left belongs to an entry of the worker's list. Fingerprints of different kinds must
  not collide, and no wait may fail on a cached connection that another pending future of the script shares:
  with such a wait, two calls of \<^verbatim>\<open>connectAsync\<close> and two of \<^verbatim>\<open>get\<close> read a freed future.
\<close>

theorem sessions_safe:
  assumes "script_ok S0" "script_reach False S0 S"
  shows "script_ok S \<and> (\<forall>r. script_step False S r \<longrightarrow> (\<exists>S'. r = Ret S' \<and> script_ok S')) \<and>
    (objects S = Map.empty \<longrightarrow> (\<forall>p \<in> in_use (proc S). \<exists>k r. persistent_list (proc S) k = Some r \<and> p \<in> own (proc S) r)) \<and>
    (\<exists>S'. script_reach True example_script S' \<and> script_step True S' UB)"
  using script_reach_ok [OF assms(2,1)] script_step_ok script_no_leak shared_entry_unsafe by blast

theorem sessions_safe_witness: "script_ok example_script \<and> (\<exists>S'. script_reach True example_script S' \<and> script_step True S' UB)"
  using sessions_safe [OF example_script_ok script_reach.start] by blast

end
