(* ===== verification/Spec2Isabelle.thy ===== *)
theory Spec2Isabelle
  imports BigNumbers InetUtil ClassName Codec ReactorWorld ClusterBuild SessionRuns
begin

text \<open>
  A verification development of the ScyllaDB and Cassandra driver extension for PHP, written in C
  under \<^verbatim>\<open>src/src\<close> and \<^verbatim>\<open>src/include\<close>. Paths below are relative to \<^verbatim>\<open>src/\<close>.

  \<^bold>\<open>The program.\<close> The extension wraps a C driver in PHP classes. Numbers and other values that PHP lacks
  are classes with arithmetic, text, comparison and hash; composite values are maps and sets over an intrusive
  hash table, and collections, tuples and user type values over PHP's own table. Types describe values, come
  from the driver or from a class name, and are checked when a value is stored. Values are converted to the
  driver's builders when a statement is bound, and results are converted back. A cluster builder collects a
  configuration and makes a driver cluster, which a worker process keeps for later requests under a fingerprint
  of the configuration. Futures report to an event loop through a notifier each or through one reactor.

  \<^bold>\<open>How code becomes definitions.\<close> A function that can fail returns \<^typ>\<open>'a outcome\<close>: \<open>Ret\<close> of a value, \<open>Throw\<close> of
  an exception with its class and message, or \<open>UB\<close> where C is undefined (signed overflow, a null or dangling
  pointer, a conversion out of range); so \<open>\<noteq> UB\<close> is memory and arithmetic safety. Machine integers are integers
  with casts (\<^const>\<open>cast_s\<close>, \<^const>\<open>cast_u\<close>) where the source casts, or words; floating point values are
  their bit patterns with exact values in units of the smallest subnormal. Strings are lists of characters that
  may contain NUL, cut by \<^const>\<open>c_str\<close> where the source passes a C string. Structs are records, enums and
  tagged unions datatypes, PHP tables ordered association lists, and objects shared by reference are addresses
  in a store. Definitions keep the names of the C functions; methods are prefixed with their class.

  \<^bold>\<open>Theories.\<close>
  \<^item> \<open>Prelude\<close>: outcomes, casts, three-way comparison as the locale \<open>three_way\<close>, which every comparison of
    numbers interprets.
  \<^item> \<open>CLib\<close>: the C library on text (\<^verbatim>\<open>strtol\<close>, \<^verbatim>\<open>strtoul\<close>, \<^verbatim>\<open>ctype.h\<close>) and IEEE numbers.
  \<^item> \<open>Gmp\<close>: GMP is a record of functions with its documented laws as the predicate \<open>gmp_spec\<close>, and a
    reference instance.
  \<^item> \<open>NumberParser\<close> (\<^verbatim>\<open>Numbers/NumberParser.c\<close>): parsers, printers and the bytes of varints. Literals parse
    to their values or to an exception, text and bytes round-trip outside the cases the theorems name, and the
    printer's buffer suffices.
  \<^item> \<open>FixedInts\<close> (\<^verbatim>\<open>Numbers/Tinyint.c\<close>, \<^verbatim>\<open>Smallint.c\<close>, \<^verbatim>\<open>Bigint.c\<close>): exact results or range exceptions for the
    two checked classes through the locale \<open>checked_arith\<close>, the inputs at which \<^verbatim>\<open>Bigint\<close> is undefined.
  \<^item> \<open>Hashing\<close>, \<open>BigNumbers\<close> (\<^verbatim>\<open>Numbers/Varint.c\<close>, \<^verbatim>\<open>Decimal.c\<close>, \<^verbatim>\<open>Float.c\<close>): total orders on floating point
    values, arithmetic on objects in a store, exact conversion of doubles.
  \<^item> \<open>InetUtil\<close> (\<^verbatim>\<open>InetUtil.c\<close>): the tokenizer and state machine of IP addresses never leave their buffers,
    decompress correctly, and text round-trips.
  \<^item> \<open>Zval\<close>, \<open>Types\<close>, \<open>ClassName\<close> (\<^verbatim>\<open>Type/TypeFactory.c\<close>): values and types, the order on types and where
    it fails, types rebuilt from the driver's description (with fuel; any fuel above the depth gives the
    result), and from class names.
  \<^item> \<open>Uthash\<close> (\<^verbatim>\<open>Type/uthash.h\<close>), \<open>ValueHash\<close> (\<^verbatim>\<open>Type/ValueHash.c\<close> and the handlers of the value classes):
    the macros on a heap of cells refine an association list for keys of the locale \<open>hash_keys\<close>; the locale
    \<open>value_env\<close> gives these keys for PHP values.
  \<^item> \<open>Conversions\<close>, \<open>MapSet\<close> (\<^verbatim>\<open>Map.c\<close>, \<^verbatim>\<open>Set.c\<close>), \<open>Sequences\<close> (\<^verbatim>\<open>Collection.c\<close>, \<^verbatim>\<open>Tuple.c\<close>,
    \<^verbatim>\<open>UserTypeValue.c\<close>): type checks; invariants and refinement of the containers, iteration with its limits.
  \<^item> \<open>Codec\<close> (\<^verbatim>\<open>Type/Conversions.c\<close>, \<^verbatim>\<open>Database/ResultDecoder.c\<close>): what a checked value becomes for the driver
    and back, with the values that do not survive.
  \<^item> \<open>Reactor\<close>, \<open>ReactorWorld\<close> (\<^verbatim>\<open>Async/Reactor.c\<close>, \<^verbatim>\<open>FutureNotifier.c\<close>): a batch delivers every future once;
    the step relation interleaves the PHP thread with the driver's threads; draining ends.
  \<^item> \<open>CacheKey\<close>, \<open>Persistent\<close>, \<open>Cluster\<close>, \<open>ClusterBuild\<close> (\<^verbatim>\<open>include/php_scylladb_cache_key.h\<close>,
    \<^verbatim>\<open>php_scylladb.c\<close>, \<^verbatim>\<open>Cluster/Builder.c\<close>, \<^verbatim>\<open>ExecutionProfile/ExecutionProfile.c\<close>): what a fingerprint
    determines, every setter with its invariant, and the list of persistent resources, whose entries exist, own
    disjoint objects and are counted.
  \<^item> \<open>Sessions\<close>, \<open>SessionOwnership\<close>, \<open>SessionCalls\<close>, \<open>SessionRuns\<close> (\<^verbatim>\<open>Cluster/DefaultCluster.c\<close>, \<^verbatim>\<open>FutureUtil.c\<close>,
    \<^verbatim>\<open>FutureSession.c\<close>, \<^verbatim>\<open>FutureClose.c\<close>, \<^verbatim>\<open>FuturePreparedStatement.c\<close>, \<^verbatim>\<open>DefaultSession.c\<close>): connecting, waiting,
    preparing and closing. An ownership invariant, kept by every call, shows that a script never uses a freed
    driver object and that nothing is lost when it ends, and names the one pattern of calls that breaks it.

  \<^bold>\<open>Parameters and hypotheses.\<close> GMP, the driver (its type descriptions, builders, iterators and result codes) and
  parts of the engine (object addresses, class names) are arguments; \<open>gmp_spec\<close>, \<open>driver_spec\<close>, \<open>describes\<close> and the
  assumptions of \<open>value_env\<close> say what is relied on, and each has an instance the witnesses use. The fingerprint theorem is
  about the bytes that are hashed: that two different byte sequences can have the same 64-bit hash is outside it.

  \<^bold>\<open>Not modelled.\<close> Registration of classes, generated argument information, property tables for \<^verbatim>\<open>var_dump\<close> and the
  garbage collector's buffers are engine bookkeeping. The classes of schema metadata (\<^verbatim>\<open>Database/Default*.c\<close>), retry
  policies, timestamp generators, SSL options and exceptions forward each call to the driver and hold no logic of
  their own. \<^verbatim>\<open>Async/Poll.c\<close> and the Swoole bridge call another extension. Arithmetic on \<^verbatim>\<open>Float\<close> needs the
  rounding of single precision operations and is left out.
\<close>

end
